(* ===== verification/Prelude.thy ===== *)
theory Prelude
  imports Main "HOL-Library.Char_ord" "HOL-Library.List_Lexorder" "HOL-Library.Word"
    "HOL-Library.Multiset"
begin

section \<open>Shared vocabulary of the accord development\<close>

text \<open>
  What every other theory uses: the type synonyms of the model (Go strings and byte slices are
  lists of bytes, Go maps with string keys are sorted association lists without duplicates), the
  collections of rewrite rules the component proofs draw on, the Go map operations with their laws,
  and the interfaces several components provide: \<open>keyed_store\<close>, its extension
  \<open>erasable_store\<close>, and \<open>codec\<close>.
\<close>

named_theorems gostr "rewrite rules about the modelled functions of Go's package strings"
named_theorems gomap "rewrite rules about Go maps with string keys"
named_theorems osfs "rewrite rules about the modelled file system operations"

text \<open>
  A Go \<open>string\<close> and a Go \<open>[]byte\<close> are both sequences of bytes; a HOL
  \<open>char\<close> is a byte, so both are \<open>string\<close>.
\<close>

type_synonym bytes = string

subsection \<open>Results with an error\<close>

text \<open>
  A Go function returning \<open>(T, error)\<close> returns \<open>Inl err\<close> or \<open>Inr v\<close>. The two
  helpers are the source's \<open>if err != nil { return ..., wrap(err) }\<close> and the early return.
\<close>

definition map_err :: "('e \<Rightarrow> 'f) \<Rightarrow> 'e + 'a \<Rightarrow> 'f + 'a" where
  "map_err f r = (case r of Inl e \<Rightarrow> Inl (f e) | Inr a \<Rightarrow> Inr a)"

definition bind_res :: "'e + 'a \<Rightarrow> ('a \<Rightarrow> 'e + 'b) \<Rightarrow> 'e + 'b" where
  "bind_res r k = (case r of Inl e \<Rightarrow> Inl e | Inr a \<Rightarrow> k a)"

lemma map_err_simps [simp]:
  "map_err f (Inl e) = Inl (f e)" "map_err f (Inr a) = Inr a"
  by (simp_all add: map_err_def)

lemma bind_res_simps [simp]:
  "bind_res (Inl e) k = Inl e" "bind_res (Inr a) k = k a"
  by (simp_all add: bind_res_def)

lemma map_err_eq_Inr [simp]: "map_err f r = Inr a \<longleftrightarrow> r = Inr a"
  by (cases r) auto

lemma bind_res_eq_Inr: "bind_res r k = Inr b \<longleftrightarrow> (\<exists>a. r = Inr a \<and> k a = Inr b)"
  by (cases r) auto

lemma bind_res_eq_Inl:
  "bind_res r k = Inl e \<longleftrightarrow> r = Inl e \<or> (\<exists>a. r = Inr a \<and> k a = Inl e)"
  by (cases r) auto

subsection \<open>Go maps with string keys\<close>

text \<open>
  A Go map is kept as the list of its entries in increasing key order. Go iterates over a map in an
  unspecified order; where the source ranges over a map and the order can matter, the model takes
  the order as an argument. The representation gives equality of maps as equality of lists.
\<close>

type_synonym 'v gomap = "(string \<times> 'v) list"

abbreviation mempty :: "'v gomap" where
  "mempty \<equiv> []"

definition mget :: "'v gomap \<Rightarrow> string \<Rightarrow> 'v option" where
  "mget m k = map_of m k"

fun mput :: "string \<Rightarrow> 'v \<Rightarrow> 'v gomap \<Rightarrow> 'v gomap" where
  "mput k v [] = [(k, v)]"
| "mput k v ((k', v') # m) =
     (if k < k' then (k, v) # (k', v') # m
      else if k = k' then (k, v) # m
      else (k', v') # mput k v m)"

definition mdel :: "string \<Rightarrow> 'v gomap \<Rightarrow> 'v gomap" where
  "mdel k m = filter (\<lambda>e. fst e \<noteq> k) m"

definition mkeys :: "'v gomap \<Rightarrow> string list" where
  "mkeys m = map fst m"

definition gomap_ok :: "'v gomap \<Rightarrow> bool" where
  "gomap_ok m = sorted_wrt (<) (map fst m)"

lemma gomap_ok_Nil [simp, gomap]: "gomap_ok []"
  by (simp add: gomap_ok_def)

lemma gomap_ok_Cons: "gomap_ok ((k, v) # m) \<longleftrightarrow> (\<forall>k' \<in> fst ` set m. k < k') \<and> gomap_ok m"
  by (auto simp: gomap_ok_def)

lemma mget_Nil [simp, gomap]: "mget [] k = None"
  by (simp add: mget_def)

lemma mget_Cons: "mget ((k', v') # m) k = (if k = k' then Some v' else mget m k)"
  by (simp add: mget_def)

lemma mget_mput [gomap]: "mget (mput k v m) k' = (if k' = k then Some v else mget m k')"
  by (induction k v m rule: mput.induct) (auto simp: mget_def)

lemma mget_mdel [gomap]: "mget (mdel k m) k' = (if k' = k then None else mget m k')"
  by (induction m) (auto simp: mget_def mdel_def)

lemma fst_set_mput [gomap]: "fst ` set (mput k v m) = insert k (fst ` set m)"
  by (induction k v m rule: mput.induct) auto

lemma gomap_ok_mput [simp, gomap]: "gomap_ok m \<Longrightarrow> gomap_ok (mput k v m)"
  by (induction k v m rule: mput.induct) (auto simp: gomap_ok_Cons fst_set_mput)

lemma gomap_ok_mdel [simp, gomap]: "gomap_ok m \<Longrightarrow> gomap_ok (mdel k m)"
  by (auto simp: gomap_ok_def mdel_def sorted_wrt_map intro: sorted_wrt_filter)

lemma mkeys_mput: "set (mkeys (mput k v m)) = insert k (set (mkeys m))"
  by (simp add: mkeys_def fst_set_mput)

lemma mget_eq_None_iff [gomap]: "mget m k = None \<longleftrightarrow> k \<notin> set (mkeys m)"
  by (simp add: mget_def mkeys_def map_of_eq_None_iff)

lemma mget_Some_in_keys: "mget m k = Some v \<Longrightarrow> k \<in> set (mkeys m)"
  using mget_eq_None_iff[of m k] by auto

lemma in_keys_mget: "k \<in> set (mkeys m) \<Longrightarrow> \<exists>v. mget m k = Some v"
  using mget_eq_None_iff[of m k] by (cases "mget m k") auto

lemma gomap_ok_distinct: "gomap_ok m \<Longrightarrow> distinct (mkeys m)"
  by (simp add: gomap_ok_def mkeys_def strict_sorted_iff)

lemma gomap_ok_sorted: "gomap_ok m \<Longrightarrow> sorted (mkeys m)"
  by (simp add: gomap_ok_def mkeys_def strict_sorted_iff)

lemma mget_in_set: "gomap_ok m \<Longrightarrow> mget m k = Some v \<longleftrightarrow> (k, v) \<in> set m"
  using gomap_ok_distinct[of m] by (simp add: mget_def mkeys_def)

lemma gomap_ext:
  assumes "gomap_ok m" "gomap_ok m'" "\<And>k. mget m k = mget m' k"
  shows "m = m'"
proof -
  have eq: "set m = set m'"
    using assms by (metis mget_in_set subrelI subset_antisym)
  have "distinct (map fst m)" "distinct (map fst m')"
    "sorted (map fst m)" "sorted (map fst m')"
    using assms(1,2) gomap_ok_distinct gomap_ok_sorted by (auto simp: mkeys_def)
  moreover have "inj_on fst (set m \<union> set m')"
    using calculation(1) eq by (simp add: distinct_map)
  ultimately show ?thesis
    using eq by (simp add: map_sorted_distinct_set_unique)
qed

lemma mdel_id: "k \<notin> set (mkeys m) \<Longrightarrow> mdel k m = m"
  by (induction m) (auto simp: mdel_def mkeys_def)

lemma mput_same: "gomap_ok m \<Longrightarrow> mput k v (mdel k m) = mput k v m"
  by (rule gomap_ext) (auto simp: mget_mput mget_mdel)

lemma mdel_mput: "gomap_ok m \<Longrightarrow> mdel k (mput k v m) = mdel k m"
  by (rule gomap_ext) (auto simp: mget_mput mget_mdel)

lemma mput_mput_same [simp, gomap]: "gomap_ok m \<Longrightarrow> mput k v (mput k w m) = mput k v m"
  by (rule gomap_ext) (auto simp: mget_mput)

lemma mdel_comm: "mdel k (mdel l m) = mdel l (mdel k m)"
  by (simp add: mdel_def conj_commute)

lemma mdel_mdel [simp, gomap]: "mdel k (mdel k m) = mdel k m"
  by (simp add: mdel_def)

lemma mput_Nil_iff [simp, gomap]: "mput k v m \<noteq> []"
  by (induction k v m rule: mput.induct) auto

text \<open>The Go loop \<open>for k, v := range src { dst[k] = v }\<close>; the result does not depend on the order.\<close>

definition mput_all :: "(string \<times> 'v) list \<Rightarrow> 'v gomap \<Rightarrow> 'v gomap" where
  "mput_all kvs m = foldl (\<lambda>m' e. mput (fst e) (snd e) m') m kvs"

lemma gomap_ok_mput_all [simp]: "gomap_ok m \<Longrightarrow> gomap_ok (mput_all kvs m)"
  by (induction kvs arbitrary: m) (auto simp: mput_all_def)

lemma mget_mput_all:
  "distinct (map fst kvs) \<Longrightarrow>
   mget (mput_all kvs m) k = (case map_of kvs k of None \<Rightarrow> mget m k | Some v \<Rightarrow> Some v)"
proof (induction kvs arbitrary: m)
  case Nil
  then show ?case by (simp add: mput_all_def)
next
  case (Cons e kvs)
  obtain a b where e: "e = (a, b)" by (cases e)
  have none: "map_of kvs a = None"
    using Cons.prems e by (simp add: map_of_eq_None_iff)
  have "mget (mput_all (e # kvs) m) k = mget (mput_all kvs (mput a b m)) k"
    by (simp add: mput_all_def e)
  also have "\<dots> = (case map_of kvs k of None \<Rightarrow> mget (mput a b m) k | Some v \<Rightarrow> Some v)"
    using Cons.IH Cons.prems by simp
  finally show ?case
    using none by (auto simp: e mget_mput split: option.splits)
qed

lemma mget_mput_all_gomap:
  "gomap_ok b \<Longrightarrow>
   mget (mput_all b m) k = (case mget b k of None \<Rightarrow> mget m k | Some v \<Rightarrow> Some v)"
  using gomap_ok_distinct[of b] by (simp add: mget_mput_all mkeys_def mget_def[of b])

lemma mput_all_perm:
  assumes "mset kvs = mset kvs'" "distinct (map fst kvs)" "gomap_ok m"
  shows "mput_all kvs m = mput_all kvs' m"
proof (rule gomap_ext)
  have d: "distinct (map fst kvs')"
    using assms(1,2) by (metis mset_eq_imp_distinct_iff mset_map)
  have "map_of kvs = map_of kvs'"
    using assms(1,2) d by (metis map_of_inject_set set_mset_mset)
  then show "mget (mput_all kvs m) k = mget (mput_all kvs' m) k" for k
    using assms(2) d by (simp add: mget_mput_all)
qed (use assms(3) in simp_all)

subsection \<open>Interface: a store of values under string keys\<close>

text \<open>
  The contract two components offer their clients: the hash cache (keyed by object, holding the last
  digest) and the pending map of the batch worker (keyed by path, holding the last operation). A
  lookup returns what was put last under the same key; other keys are untouched; every operation
  keeps the provider's invariant.
\<close>

locale keyed_store =
  fixes lookup :: "'s \<Rightarrow> string \<Rightarrow> 'v option"
    and store :: "string \<Rightarrow> 'v \<Rightarrow> 's \<Rightarrow> 's"
    and inv :: "'s \<Rightarrow> bool"
  assumes lookup_store: "inv s \<Longrightarrow> lookup (store k v s) k' = (if k' = k then Some v else lookup s k')"
    and inv_store: "inv s \<Longrightarrow> inv (store k v s)"
begin

fun store_all :: "(string \<times> 'v) list \<Rightarrow> 's \<Rightarrow> 's" where
  "store_all [] s = s"
| "store_all ((k, v) # ops) s = store_all ops (store k v s)"

lemma ks_inv_store_all: "inv s \<Longrightarrow> inv (store_all ops s)"
  by (induction ops s rule: store_all.induct) (auto intro: inv_store)

lemma ks_last_write_wins:
  "inv s \<Longrightarrow> lookup (store_all ops s) k =
     (case map_of (rev ops) k of None \<Rightarrow> lookup s k | Some v \<Rightarrow> Some v)"
  by (induction ops s rule: store_all.induct)
     (auto simp: lookup_store inv_store map_add_def split: option.splits)

lemma ks_frame: "inv s \<Longrightarrow> k \<notin> fst ` set ops \<Longrightarrow> lookup (store_all ops s) k = lookup s k"
  by (induction ops s rule: store_all.induct) (auto simp: lookup_store inv_store)

lemma ks_overwrite: "inv s \<Longrightarrow> lookup (store k w (store k v s)) k = Some w"
  by (simp add: lookup_store inv_store)

end

text \<open>A store whose entries can also be removed.\<close>

locale erasable_store = keyed_store lookup store inv
  for lookup :: "'s \<Rightarrow> string \<Rightarrow> 'v option"
    and store :: "string \<Rightarrow> 'v \<Rightarrow> 's \<Rightarrow> 's"
    and inv :: "'s \<Rightarrow> bool" +
  fixes erase :: "string \<Rightarrow> 's \<Rightarrow> 's"
  assumes lookup_erase: "inv s \<Longrightarrow> lookup (erase k s) k' = (if k' = k then None else lookup s k')"
    and inv_erase: "inv s \<Longrightarrow> inv (erase k s)"
begin

lemma es_store_after_erase: "inv s \<Longrightarrow> lookup (store k v (erase k s)) k' = lookup (store k v s) k'"
  by (simp add: lookup_store lookup_erase inv_erase)

lemma es_erase_after_store: "inv s \<Longrightarrow> lookup (erase k (store k v s)) k' = lookup (erase k s) k'"
  by (simp add: lookup_store lookup_erase inv_store)

end

subsection \<open>Interface: a text form that can be read back\<close>

text \<open>
  The contract of a writer with its reader: a value of the domain is read back from its text. The JSON
  encoder and decoder, the two hex functions, and the exporter's path with the sync operator's path
  parser provide it; that different values have different texts follows once for all.
\<close>

locale codec =
  fixes enc :: "'a \<Rightarrow> 'b"
    and dec :: "'b \<Rightarrow> 'a option"
    and encodable :: "'a \<Rightarrow> bool"
  assumes dec_enc: "encodable a \<Longrightarrow> dec (enc a) = Some a"
begin

lemma enc_inject: "encodable a \<Longrightarrow> encodable b \<Longrightarrow> enc a = enc b \<longleftrightarrow> a = b"
  by (metis dec_enc option.inject)

lemma enc_inj_on: "inj_on enc {a. encodable a}"
  by (rule inj_onI) (simp add: enc_inject)

lemma dec_of_enc: "encodable a \<Longrightarrow> dec t = Some b \<Longrightarrow> t = enc a \<Longrightarrow> b = a"
  by (simp add: dec_enc)

end

end
