(* ===== verification/GoStrings.thy ===== *)
theory GoStrings
  imports Prelude
begin

section \<open>The functions of Go's strings, path, strconv and sort the program calls\<close>

text \<open>
  Executable models of the library functions every component uses: prefixes and suffixes,
  \<open>strings.Split\<close>, \<open>strings.TrimSpace\<close> (with the white space of Unicode, in UTF-8),
  \<open>path.Clean\<close> and \<open>path.Base\<close>, decimal formatting and \<open>strconv.Atoi\<close>,
  \<open>sort.Strings\<close>. Strings are byte lists, as in Go.
\<close>

subsection \<open>Prefixes and suffixes\<close>

definition has_prefix :: "string \<Rightarrow> string \<Rightarrow> bool" where
  "has_prefix s p = (length p \<le> length s \<and> take (length p) s = p)"

definition has_suffix :: "string \<Rightarrow> string \<Rightarrow> bool" where
  "has_suffix s p = (length p \<le> length s \<and> drop (length s - length p) s = p)"

definition trim_prefix :: "string \<Rightarrow> string \<Rightarrow> string" where
  "trim_prefix s p = (if has_prefix s p then drop (length p) s else s)"

definition trim_suffix :: "string \<Rightarrow> string \<Rightarrow> string" where
  "trim_suffix s p = (if has_suffix s p then take (length s - length p) s else s)"

lemma has_prefix_iff: "has_prefix s p \<longleftrightarrow> (\<exists>r. s = p @ r)"
proof
  assume "has_prefix s p"
  then have "s = p @ drop (length p) s"
    by (metis append_take_drop_id has_prefix_def)
  then show "\<exists>r. s = p @ r" by blast
qed (auto simp: has_prefix_def)

lemma has_suffix_iff: "has_suffix s p \<longleftrightarrow> (\<exists>r. s = r @ p)"
proof
  assume "has_suffix s p"
  then have "s = take (length s - length p) s @ p"
    by (metis append_take_drop_id has_suffix_def)
  then show "\<exists>r. s = r @ p" by blast
qed (auto simp: has_suffix_def)

lemma has_prefix_append [simp, gostr]: "has_prefix (p @ r) p"
  by (simp add: has_prefix_def)

lemma has_suffix_append [simp, gostr]: "has_suffix (r @ p) p"
  by (simp add: has_suffix_def)

lemma trim_prefix_append [simp, gostr]: "trim_prefix (p @ r) p = r"
  by (simp add: trim_prefix_def)

lemma trim_suffix_append [simp, gostr]: "trim_suffix (r @ p) p = r"
  by (simp add: trim_suffix_def)

lemma trim_suffix_id: "\<not> has_suffix s p \<Longrightarrow> trim_suffix s p = s"
  by (simp add: trim_suffix_def)

lemma trim_prefix_id: "\<not> has_prefix s p \<Longrightarrow> trim_prefix s p = s"
  by (simp add: trim_prefix_def)

lemma has_prefix_Nil [simp]: "has_prefix s []"
  by (simp add: has_prefix_def)

lemma has_prefix_Cons: "has_prefix (c # s) (d # p) \<longleftrightarrow> c = d \<and> has_prefix s p"
  by (auto simp: has_prefix_def)

lemma has_prefix_empty [simp]: "has_prefix [] p \<longleftrightarrow> p = []"
  by (auto simp: has_prefix_def)

lemma has_suffix_snoc: "has_suffix (s @ [c]) (p @ [d]) \<longleftrightarrow> c = d \<and> has_suffix s p"
  by (auto simp: has_suffix_iff)

lemma has_suffix_append_long:
  "length p \<le> length s \<Longrightarrow> has_suffix (r @ s) p \<longleftrightarrow> has_suffix s p"
  by (auto simp: has_suffix_def)

lemma has_suffix_last: "has_suffix s p \<Longrightarrow> p \<noteq> [] \<Longrightarrow> s \<noteq> [] \<and> last s = last p"
  by (auto simp: has_suffix_iff)

subsection \<open>strings.Split\<close>

text \<open>
  \<open>strings.Split(s, sep)\<close> cuts at every non-overlapping occurrence of \<open>sep\<close>, from the left.
  The code only passes the non-empty constants \<open>"/"\<close> and \<open>"\n---"\<close>, so the separator is
  given as its first byte and the rest.
\<close>

fun index_of :: "string \<Rightarrow> string \<Rightarrow> nat option" where
  "index_of s sep =
     (if has_prefix s sep then Some 0
      else (case s of [] \<Rightarrow> None | _ # r \<Rightarrow> map_option Suc (index_of r sep)))"

declare index_of.simps [simp del]

lemma index_of_Nil: "sep \<noteq> [] \<Longrightarrow> index_of [] sep = None"
  by (simp add: index_of.simps)

lemma index_of_Cons:
  "index_of (c # r) sep = (if has_prefix (c # r) sep then Some 0 else map_option Suc (index_of r sep))"
  by (simp add: index_of.simps[of "c # r"])

lemma index_of_Some:
  "index_of s sep = Some i \<Longrightarrow> s = take i s @ sep @ drop (i + length sep) s"
proof (induction s arbitrary: i)
  case Nil
  then show ?case by (simp add: index_of.simps[of "[]"] has_prefix_iff split: if_splits)
next
  case (Cons c r)
  then show ?case
    by (auto simp: index_of_Cons has_prefix_iff split: if_splits)
qed

lemma index_of_bound: "index_of s sep = Some i \<Longrightarrow> i + length sep \<le> length s"
proof (induction s arbitrary: i)
  case Nil
  then show ?case by (simp add: index_of.simps[of "[]"] has_prefix_iff split: if_splits)
next
  case (Cons c r)
  then show ?case by (fastforce simp: index_of_Cons has_prefix_def split: if_splits)
qed

function split_on :: "char \<Rightarrow> string \<Rightarrow> string \<Rightarrow> string list" where
  "split_on c cs s =
     (case index_of s (c # cs) of
        None \<Rightarrow> [s]
      | Some i \<Rightarrow> take i s # split_on c cs (drop (i + length (c # cs)) s))"
  by pat_completeness auto
termination
proof (relation "measure (\<lambda>(c, cs, s). length s)")
  fix c cs s i
  assume "index_of s (c # cs) = Some i"
  then have "i + length (c # cs) \<le> length s" by (rule index_of_bound)
  then show "((c, cs, drop (i + length (c # cs)) s), c, cs, s) \<in> measure (\<lambda>(c, cs, s). length s)"
    by simp
qed simp

declare split_on.simps [simp del]

definition split_slash :: "string \<Rightarrow> string list" where
  "split_slash s = split_on (CHR ''/'') [] s"

fun join_slash :: "string list \<Rightarrow> string" where
  "join_slash [] = []"
| "join_slash [s] = s"
| "join_slash (s # t # r) = s @ CHR ''/'' # join_slash (t # r)"

lemma index_of_slash_None: "index_of s [c] = None \<longleftrightarrow> c \<notin> set s"
  by (induction s) (auto simp: index_of_Nil index_of_Cons has_prefix_Cons)

lemma index_of_slash_append: "c \<notin> set a \<Longrightarrow> index_of (a @ c # r) [c] = Some (length a)"
  by (induction a) (auto simp: index_of_Cons has_prefix_Cons)

lemma split_slash_no: "CHR ''/'' \<notin> set s \<Longrightarrow> split_slash s = [s]"
  by (simp add: split_slash_def split_on.simps index_of_slash_None[THEN iffD2])

lemma split_slash_append:
  "CHR ''/'' \<notin> set a \<Longrightarrow> split_slash (a @ CHR ''/'' # r) = a # split_slash r"
  by (subst split_slash_def, subst split_on.simps)
     (simp add: index_of_slash_append split_slash_def)

lemma split_slash_Cons_slash: "split_slash (CHR ''/'' # r) = [] # split_slash r"
  using split_slash_append[of "[]"] by simp

lemma split_slash_neq_Nil [simp]: "split_slash s \<noteq> []"
  by (simp add: split_slash_def split_on.simps[of _ _ s] split: option.splits)

lemma slash_cases:
  obtains "CHR ''/'' \<notin> set s" | a r where "s = a @ CHR ''/'' # r" "CHR ''/'' \<notin> set a"
  by (metis split_list_first)

lemma split_slash_elems: "x \<in> set (split_slash s) \<Longrightarrow> CHR ''/'' \<notin> set x"
proof (induction "length s" arbitrary: s rule: less_induct)
  case less
  show ?case
  proof (cases s rule: slash_cases)
    case 1
    with less.prems show ?thesis by (simp add: split_slash_no)
  next
    case (2 a r)
    with less.hyps[of r] less.prems show ?thesis by (auto simp: split_slash_append)
  qed
qed

lemma join_split_slash: "join_slash (split_slash s) = s"
proof (induction "length s" arbitrary: s rule: less_induct)
  case less
  show ?case
  proof (cases s rule: slash_cases)
    case 1
    then show ?thesis by (simp add: split_slash_no)
  next
    case (2 a r)
    obtain x xs where sr: "split_slash r = x # xs"
      using split_slash_neq_Nil by (metis list.exhaust)
    have "join_slash (split_slash r) = r"
      using less 2 by simp
    with 2 sr show ?thesis by (simp add: split_slash_append)
  qed
qed

lemma split_join_slash:
  "xs \<noteq> [] \<Longrightarrow> \<forall>x \<in> set xs. CHR ''/'' \<notin> set x \<Longrightarrow> split_slash (join_slash xs) = xs"
  by (induction xs rule: join_slash.induct) (auto simp: split_slash_no split_slash_append)

subsection \<open>strings.TrimSpace\<close>

text \<open>
  The runes of \<open>unicode.IsSpace\<close> in UTF-8: the ASCII blanks and the encodings of U+0085, U+00A0,
  U+1680, U+2000 to U+200A, U+2028, U+2029, U+202F, U+205F and U+3000. Every encoding starts with a
  byte that starts a rune and goes on with continuation bytes, so cutting one at either end is what
  decoding the first or the last rune does.
\<close>

definition byte :: "nat \<Rightarrow> char" where
  "byte n = char_of n"

definition ascii_spaces :: "string" where
  "ascii_spaces = [byte 9, byte 10, byte 11, byte 12, byte 13, byte 32]"

definition space_runes :: "string list" where
  "space_runes = map (\<lambda>c. [c]) ascii_spaces @
     [[byte 0xC2, byte 0x85], [byte 0xC2, byte 0xA0], [byte 0xE1, byte 0x9A, byte 0x80]] @
     map (\<lambda>i. [byte 0xE2, byte 0x80, byte (0x80 + i)]) [0..<11] @
     [[byte 0xE2, byte 0x80, byte 0xA8], [byte 0xE2, byte 0x80, byte 0xA9],
      [byte 0xE2, byte 0x80, byte 0xAF], [byte 0xE2, byte 0x81, byte 0x9F],
      [byte 0xE3, byte 0x80, byte 0x80]]"

text \<open>Cut the first rune of the list that starts (ends) the string; the length of the cut is positive.\<close>

definition cut_left :: "string \<Rightarrow> string option" where
  "cut_left s = (case find (has_prefix s) space_runes of
     None \<Rightarrow> None | Some r \<Rightarrow> Some (drop (length r) s))"

definition cut_right :: "string \<Rightarrow> string option" where
  "cut_right s = (case find (has_suffix s) space_runes of
     None \<Rightarrow> None | Some r \<Rightarrow> Some (take (length s - length r) s))"

lemma space_runes_nonempty: "r \<in> set space_runes \<Longrightarrow> r \<noteq> []"
  by (auto simp: space_runes_def)

lemma find_Some_props: "find P xs = Some x \<Longrightarrow> x \<in> set xs \<and> P x"
  by (metis find_Some_iff nth_mem)

lemma cut_left_SomeD:
  "cut_left s = Some t \<Longrightarrow> \<exists>r \<in> set space_runes. has_prefix s r \<and> t = drop (length r) s"
  by (auto simp: cut_left_def dest!: find_Some_props split: option.splits)

lemma cut_right_SomeD:
  "cut_right s = Some t \<Longrightarrow> \<exists>r \<in> set space_runes. has_suffix s r \<and> t = take (length s - length r) s"
  by (auto simp: cut_right_def dest!: find_Some_props split: option.splits)

lemma cut_left_None_iff: "cut_left s = None \<longleftrightarrow> (\<forall>r \<in> set space_runes. \<not> has_prefix s r)"
  by (auto simp: cut_left_def find_None_iff split: option.splits dest: find_Some_props)

lemma cut_right_None_iff: "cut_right s = None \<longleftrightarrow> (\<forall>r \<in> set space_runes. \<not> has_suffix s r)"
  by (auto simp: cut_right_def find_None_iff split: option.splits dest: find_Some_props)

lemma cut_left_shorter: "cut_left s = Some t \<Longrightarrow> length t < length s"
  by (auto dest!: cut_left_SomeD space_runes_nonempty simp: has_prefix_def)
     (metis diff_less le_zero_eq length_greater_0_conv not_gr_zero)

lemma cut_right_shorter: "cut_right s = Some t \<Longrightarrow> length t < length s"
  by (auto dest!: cut_right_SomeD space_runes_nonempty simp: has_suffix_def)
     (metis diff_less le_zero_eq length_greater_0_conv not_gr_zero)

function trim_left_space :: "string \<Rightarrow> string" where
  "trim_left_space s = (case cut_left s of None \<Rightarrow> s | Some t \<Rightarrow> trim_left_space t)"
  by pat_completeness auto
termination
  by (relation "measure length") (auto dest: cut_left_shorter)

function trim_right_space :: "string \<Rightarrow> string" where
  "trim_right_space s = (case cut_right s of None \<Rightarrow> s | Some t \<Rightarrow> trim_right_space t)"
  by pat_completeness auto
termination
  by (relation "measure length") (auto dest: cut_right_shorter)

declare trim_left_space.simps [simp del] trim_right_space.simps [simp del]

definition trim_space :: "string \<Rightarrow> string" where
  "trim_space s = trim_right_space (trim_left_space s)"

definition trimmed :: "string \<Rightarrow> bool" where
  "trimmed s = (cut_left s = None \<and> cut_right s = None)"

lemma trim_space_id: "trimmed s \<Longrightarrow> trim_space s = s"
  by (simp add: trimmed_def trim_space_def trim_left_space.simps[of s] trim_right_space.simps[of s])

lemma cut_right_trim_right [simp]: "cut_right (trim_right_space s) = None"
proof (induction s rule: trim_right_space.induct)
  case (1 s)
  then show ?case
    by (cases "cut_right s") (simp_all add: trim_right_space.simps[of s])
qed

lemma cut_left_trim_left [simp]: "cut_left (trim_left_space s) = None"
proof (induction s rule: trim_left_space.induct)
  case (1 s)
  then show ?case
    by (cases "cut_left s") (simp_all add: trim_left_space.simps[of s])
qed

lemma trim_right_prefix: "\<exists>r. s = trim_right_space s @ r"
proof (induction s rule: trim_right_space.induct)
  case (1 s)
  show ?case
  proof (cases "cut_right s")
    case None
    then show ?thesis by (simp add: trim_right_space.simps[of s])
  next
    case (Some t)
    have "\<exists>r. s = t @ r"
      using Some by (auto simp: cut_right_def split: option.splits)
         (metis append_take_drop_id)
    with 1[OF Some] Some show ?thesis
      by (metis append.assoc option.simps(5) trim_right_space.simps)
  qed
qed

lemma cut_left_prefix: "cut_left (s @ r) = None \<Longrightarrow> cut_left s = None"
  by (auto simp: cut_left_None_iff has_prefix_iff)

lemma trim_space_trimmed: "trimmed (trim_space s)"
proof -
  obtain r where "trim_left_space s = trim_space s @ r"
    using trim_right_prefix[of "trim_left_space s"] by (auto simp: trim_space_def)
  then have "cut_left (trim_space s) = None"
    by (metis cut_left_prefix cut_left_trim_left)
  then show ?thesis by (simp add: trimmed_def trim_space_def)
qed

lemma trim_space_idem [simp]: "trim_space (trim_space s) = trim_space s"
  by (rule trim_space_id) (rule trim_space_trimmed)

lemma trim_space_Nil [simp]: "trim_space [] = []"
  by (rule trim_space_id)
     (auto simp: trimmed_def cut_left_None_iff cut_right_None_iff has_prefix_def has_suffix_def
       dest: space_runes_nonempty)

text \<open>A string is trimmed when its first byte starts no blank and its last byte ends none.\<close>

definition blank_starts :: string where
  "blank_starts = ascii_spaces @ [byte 0xC2, byte 0xE1, byte 0xE2, byte 0xE3]"

definition visible_ascii :: "char \<Rightarrow> bool" where
  "visible_ascii c = (33 \<le> (of_char c :: nat) \<and> (of_char c :: nat) < 127)"

lemma space_runes_bytes: "\<forall>r \<in> set space_runes. \<forall>c \<in> set r. \<not> visible_ascii c"
  by (simp add: space_runes_def ascii_spaces_def byte_def visible_ascii_def upt_rec)

lemma trimmed_visible:
  assumes "s = [] \<or> visible_ascii (hd s) \<and> visible_ascii (last s)"
  shows "trimmed s"
proof -
  have pre: "\<not> has_prefix s r" and suf: "\<not> has_suffix s r" if r: "r \<in> set space_runes" for r
  proof -
    have ne: "r \<noteq> []" and hd: "\<not> visible_ascii (hd r)" and la: "\<not> visible_ascii (last r)"
      using space_runes_nonempty[OF r] space_runes_bytes r by auto
    show "\<not> has_prefix s r"
      using ne hd assms by (auto simp: has_prefix_iff)
    show "\<not> has_suffix s r"
      using ne la assms by (auto simp: has_suffix_iff)
  qed
  then show ?thesis
    by (simp add: trimmed_def cut_left_None_iff cut_right_None_iff)
qed

lemma trim_visible: "visible_ascii (hd s) \<Longrightarrow> visible_ascii (last s) \<Longrightarrow> trim_space s = s"
  by (intro trim_space_id trimmed_visible disjI2) simp

end
