(* ===== verification/GoPath.thy ===== *)
theory GoPath
  imports GoStrings
begin

section \<open>Go's path package, decimal formatting and sorting\<close>

text \<open>
  \<open>path.Clean\<close> (which \<open>filepath.Clean\<close> and \<open>filepath.Join\<close> share on Unix) as
  its documented rules over the slash-separated elements: empty elements and \<open>.\<close> are dropped,
  \<open>..\<close> removes the element before it, a leading \<open>..\<close> survives in a relative path only.
  Then \<open>path.Base\<close>, \<open>path.Dir\<close>, \<open>fmt\<close>'s \<open>%d\<close>, \<open>strconv.Atoi\<close> and
  \<open>sort.Strings\<close>.
\<close>

subsection \<open>path.Clean\<close>

definition clean_step :: "bool \<Rightarrow> string list \<Rightarrow> string \<Rightarrow> string list" where
  "clean_step rooted acc x =
     (if x = [] \<or> x = ''.'' then acc
      else if x = ''..'' then
        (case acc of
           [] \<Rightarrow> if rooted then [] else [x]
         | a # as \<Rightarrow> if a = ''..'' then x # acc else as)
      else x # acc)"

definition clean_elems :: "bool \<Rightarrow> string list \<Rightarrow> string list" where
  "clean_elems rooted xs = rev (foldl (clean_step rooted) [] xs)"

definition rooted_path :: "string \<Rightarrow> bool" where
  "rooted_path p = has_prefix p ''/''"

definition path_elems :: "string \<Rightarrow> string list" where
  "path_elems p = clean_elems (rooted_path p) (split_slash p)"

definition path_clean :: "string \<Rightarrow> string" where
  "path_clean p =
     (let out = (if rooted_path p then ''/'' else []) @ join_slash (path_elems p)
      in if out = [] then ''.'' else out)"

definition path_join :: "string list \<Rightarrow> string" where
  "path_join es =
     (case filter (\<lambda>e. e \<noteq> []) es of [] \<Rightarrow> [] | nes \<Rightarrow> path_clean (join_slash nes))"

text \<open>An element that \<open>Clean\<close> keeps as it is.\<close>

definition proper_elem :: "string \<Rightarrow> bool" where
  "proper_elem x = (x \<noteq> [] \<and> x \<noteq> ''.'' \<and> x \<noteq> ''..'' \<and> CHR ''/'' \<notin> set x)"

lemma clean_step_proper: "proper_elem x \<Longrightarrow> clean_step rooted acc x = x # acc"
  by (simp add: clean_step_def proper_elem_def)

lemma foldl_clean_proper:
  "\<forall>x \<in> set xs. proper_elem x \<Longrightarrow> foldl (clean_step rooted) acc xs = rev xs @ acc"
  by (induction xs arbitrary: acc) (auto simp: clean_step_proper)

lemma clean_elems_proper: "\<forall>x \<in> set xs. proper_elem x \<Longrightarrow> clean_elems rooted xs = xs"
  by (simp add: clean_elems_def foldl_clean_proper)

text \<open>
  What \<open>Clean\<close> keeps on its stack (top first): proper elements above \<open>..\<close> elements, and
  no \<open>..\<close> at all in a rooted path.
\<close>

fun stack_ok :: "bool \<Rightarrow> string list \<Rightarrow> bool" where
  "stack_ok rooted [] = True"
| "stack_ok rooted (a # as) =
     (if a = ''..'' then \<not> rooted \<and> (\<forall>b \<in> set as. b = ''..'') else proper_elem a \<and> stack_ok rooted as)"

lemma stack_ok_dots: "\<not> rooted \<Longrightarrow> \<forall>b \<in> set as. b = ''..'' \<Longrightarrow> stack_ok rooted as"
  by (induction as) auto

lemma clean_step_ok:
  assumes "stack_ok rooted acc" "CHR ''/'' \<notin> set x"
  shows "stack_ok rooted (clean_step rooted acc x)"
proof (cases acc)
  case Nil
  with assms show ?thesis by (auto simp: clean_step_def proper_elem_def)
next
  case (Cons a as)
  with assms show ?thesis
    by (auto simp: clean_step_def proper_elem_def split: if_splits)
qed

lemma foldl_clean_ok:
  "stack_ok rooted acc \<Longrightarrow> \<forall>x \<in> set xs. CHR ''/'' \<notin> set x \<Longrightarrow>
   stack_ok rooted (foldl (clean_step rooted) acc xs)"
  by (induction xs arbitrary: acc) (auto simp: clean_step_ok)

lemma path_elems_ok: "stack_ok (rooted_path p) (rev (path_elems p))"
  unfolding path_elems_def clean_elems_def rev_rev_ident
  by (rule foldl_clean_ok) (auto dest: split_slash_elems)

lemma stack_ok_elem:
  "stack_ok rooted acc \<Longrightarrow> x \<in> set acc \<Longrightarrow> x = ''..'' \<and> \<not> rooted \<or> proper_elem x"
  by (induction acc) (auto split: if_splits)

lemma stack_ok_all_proper:
  "stack_ok rooted acc \<Longrightarrow> acc \<noteq> [] \<Longrightarrow> last acc \<noteq> ''..'' \<Longrightarrow> x \<in> set acc \<Longrightarrow> proper_elem x"
  by (induction acc) (auto split: if_splits)

lemma path_elems_no_slash: "x \<in> set (path_elems p) \<Longrightarrow> CHR ''/'' \<notin> set x \<and> x \<noteq> []"
  using stack_ok_elem[OF path_elems_ok, of x p] by (auto simp: proper_elem_def)

lemma path_elems_proper:
  "path_elems p = x # xs \<Longrightarrow> x \<noteq> ''..'' \<Longrightarrow> y \<in> set (x # xs) \<Longrightarrow> proper_elem y"
  using stack_ok_all_proper[OF path_elems_ok, of p y] by simp

lemma split_path_elems: "path_elems p \<noteq> [] \<Longrightarrow> split_slash (join_slash (path_elems p)) = path_elems p"
  by (rule split_join_slash) (auto dest: path_elems_no_slash)

subsection \<open>Clean on the paths the program builds\<close>

lemma rooted_path_elem: "proper_elem x \<Longrightarrow> \<not> rooted_path (join_slash (x # xs))"
  by (cases x; cases xs) (auto simp: proper_elem_def rooted_path_def has_prefix_Cons)

lemma join_slash_eq_Nil: "join_slash (x # xs) = [] \<longleftrightarrow> x = [] \<and> xs = []"
  by (cases xs) auto

lemma path_elems_join:
  "\<forall>x \<in> set xs. proper_elem x \<Longrightarrow> xs \<noteq> [] \<Longrightarrow> path_elems (join_slash xs) = xs"
  by (simp add: path_elems_def split_join_slash clean_elems_proper proper_elem_def)

lemma path_clean_join:
  assumes "\<forall>x \<in> set xs. proper_elem x" "xs \<noteq> []"
  shows "path_clean (join_slash xs) = join_slash xs"
proof -
  obtain x ys where xs: "xs = x # ys" using assms(2) by (cases xs) auto
  then have "\<not> rooted_path (join_slash xs)" "join_slash xs \<noteq> []"
    using assms(1) by (auto simp: rooted_path_elem join_slash_eq_Nil proper_elem_def)
  then show ?thesis
    using assms by (simp add: path_clean_def path_elems_join)
qed

lemma join_slash_append:
  "xs \<noteq> [] \<Longrightarrow> ys \<noteq> [] \<Longrightarrow> join_slash (xs @ ys) = join_slash xs @ ''/'' @ join_slash ys"
  by (induction xs rule: join_slash.induct) (auto, cases ys, auto)

subsection \<open>path.Base and path.Dir\<close>

definition path_base :: "string \<Rightarrow> string" where
  "path_base p =
     (if p = [] then ''.''
      else (let s = rev (dropWhile (\<lambda>c. c = CHR ''/'') (rev p))
            in if s = [] then ''/'' else last (split_slash s)))"

definition path_dir :: "string \<Rightarrow> string" where
  "path_dir p = path_clean (rev (dropWhile (\<lambda>c. c \<noteq> CHR ''/'') (rev p)))"

lemma last_split_slash_append:
  "CHR ''/'' \<notin> set b \<Longrightarrow> last (split_slash (a @ CHR ''/'' # b)) = b"
proof (induction "length a" arbitrary: a rule: less_induct)
  case less
  show ?case
  proof (cases a rule: slash_cases)
    case 1
    with less.prems show ?thesis by (simp add: split_slash_append split_slash_no)
  next
    case (2 x r)
    with less show ?thesis by (simp add: split_slash_append)
  qed
qed

lemma path_base_append:
  assumes "b \<noteq> []" "CHR ''/'' \<notin> set b"
  shows "path_base (a @ ''/'' @ b) = b"
proof -
  have "last b \<noteq> CHR ''/''" using assms by (metis last_in_set)
  then have "dropWhile (\<lambda>c. c = CHR ''/'') (rev (a @ ''/'' @ b)) = rev (a @ ''/'' @ b)"
    using assms(1) by (cases "rev b") (auto simp: last_rev hd_rev[symmetric])
  then show ?thesis
    using assms by (simp add: path_base_def last_split_slash_append)
qed

subsection \<open>Decimal numbers\<close>

definition digit_char :: "nat \<Rightarrow> char" where
  "digit_char d = char_of (48 + d)"

fun show_nat :: "nat \<Rightarrow> string" where
  "show_nat n = (if n < 10 then [digit_char n] else show_nat (n div 10) @ [digit_char (n mod 10)])"

declare show_nat.simps [simp del]

definition digit_val :: "char \<Rightarrow> nat option" where
  "digit_val c = (let n = of_char c in if 48 \<le> n \<and> n \<le> 57 then Some (n - 48) else None)"

fun digits_val :: "nat \<Rightarrow> string \<Rightarrow> nat option" where
  "digits_val acc [] = Some acc"
| "digits_val acc (c # cs) =
     (case digit_val c of None \<Rightarrow> None | Some d \<Rightarrow> digits_val (10 * acc + d) cs)"

text \<open>
  \<open>strconv.Atoi\<close>: an optional sign, at least one decimal digit and nothing else, and a value
  in the range of a 64-bit \<open>int\<close>; \<open>None\<close> is an error.
\<close>

definition go_atoi :: "string \<Rightarrow> int option" where
  "go_atoi s =
     (let neg = has_prefix s ''-'';
          ds = (if neg \<or> has_prefix s ''+'' then drop 1 s else s)
      in case (if ds = [] then None else digits_val 0 ds) of
           None \<Rightarrow> None
         | Some n \<Rightarrow> let i = (if neg then - int n else int n)
                    in if - (2 ^ 63) \<le> i \<and> i < 2 ^ 63 then Some i else None)"

lemma digit_val_digit_char: "d < 10 \<Longrightarrow> digit_val (digit_char d) = Some d"
  by (simp add: digit_val_def digit_char_def)

lemma digits_val_append:
  "digits_val acc (s @ t) = (case digits_val acc s of None \<Rightarrow> None | Some n \<Rightarrow> digits_val n t)"
  by (induction acc s rule: digits_val.induct) (auto split: option.splits)

lemma show_nat_not_Nil [simp]: "show_nat n \<noteq> []"
  by (subst show_nat.simps) auto

lemma digits_val_show_nat: "digits_val 0 (show_nat n) = Some n"
proof (induction n rule: show_nat.induct)
  case (1 n)
  then show ?case
    by (cases "n < 10")
       (simp_all add: show_nat.simps[of n] digits_val_append digit_val_digit_char)
qed

interpretation dn: codec show_nat "digits_val 0" "\<lambda>n. True"
  by unfold_locales (simp add: digits_val_show_nat)

lemma show_nat_inject: "show_nat m = show_nat n \<longleftrightarrow> m = n"
  by (rule dn.enc_inject) simp_all

lemma show_nat_digits: "c \<in> set (show_nat n) \<Longrightarrow> 48 \<le> (of_char c :: nat) \<and> (of_char c :: nat) \<le> 57"
proof (induction n rule: show_nat.induct)
  case (1 n)
  have d: "48 \<le> (of_char (digit_char k) :: nat) \<and> (of_char (digit_char k) :: nat) \<le> 57" if "k < 10" for k
    using that by (simp add: digit_char_def)
  show ?case
  proof (cases "n < 10")
    case True
    with "1.prems" d[of n] show ?thesis by (simp add: show_nat.simps[of n])
  next
    case False
    with "1.prems" "1.IH" d[of "n mod 10"] show ?thesis
      by (auto simp: show_nat.simps[of n])
  qed
qed

lemma go_atoi_show_nat: "n < 2 ^ 63 \<Longrightarrow> go_atoi (show_nat n) = Some (int n)"
proof -
  assume n: "n < 2 ^ 63"
  obtain c cs where s: "show_nat n = c # cs" by (meson list.exhaust show_nat_not_Nil)
  have "c \<noteq> CHR ''-''" "c \<noteq> CHR ''+''"
    using show_nat_digits[of c n] s by auto
  moreover have "int n < 2 ^ 63"
    using n by (metis of_nat_less_iff of_nat_numeral of_nat_power)
  ultimately show ?thesis
    using digits_val_show_nat[of n] s
    by (simp add: go_atoi_def has_prefix_Cons Let_def del: digits_val.simps)
qed

subsection \<open>sort.Strings\<close>

text \<open>
  Go compares strings byte by byte, which is the lexicographic order of \<open>HOL-Library.List_Lexorder\<close>
  over the bytes' order of \<open>HOL-Library.Char_ord\<close>.
\<close>

definition sort_strings :: "string list \<Rightarrow> string list" where
  "sort_strings xs = sort xs"

lemma sort_strings_props [simp]:
  "set (sort_strings xs) = set xs" "sorted (sort_strings xs)"
  "length (sort_strings xs) = length xs" "distinct (sort_strings xs) = distinct xs"
  "mset (sort_strings xs) = mset xs"
  by (simp_all add: sort_strings_def)

end
