(* ===== verification/GoUtf8.thy ===== *)
theory GoUtf8
  imports GoPath
begin

section \<open>UTF-8 and JSON string literals (unicode/utf8 and encoding/json)\<close>

text \<open>
  \<open>utf8_len\<close> is \<open>utf8.DecodeRune\<close>'s size on a valid leading encoding; \<open>enc_chars\<close> is
  \<open>encoding/json\<close>'s \<open>appendString\<close> with HTML escaping (what \<open>json.Marshal\<close> and
  \<open>json.Encoder\<close> use), and \<open>p_chars\<close> is the decoder's \<open>unquote\<close>, run on the text
  after the opening quote. The main result is that decoding undoes encoding on valid UTF-8.
\<close>

abbreviation bval :: "char \<Rightarrow> nat" where
  "bval c \<equiv> of_char c"

definition cont :: "nat \<Rightarrow> nat \<Rightarrow> char \<Rightarrow> bool" where
  "cont lo hi c = (lo \<le> bval c \<and> bval c \<le> hi)"

subsection \<open>The length of a leading UTF-8 encoding\<close>

fun utf8_len :: "string \<Rightarrow> nat option" where
  "utf8_len [] = None"
| "utf8_len (a # r) =
     (let x = bval a in
      if x < 0x80 then Some 1
      else if 0xC2 \<le> x \<and> x \<le> 0xDF then
        (case r of b # _ \<Rightarrow> if cont 0x80 0xBF b then Some 2 else None | _ \<Rightarrow> None)
      else if 0xE0 \<le> x \<and> x \<le> 0xEF then
        (case r of b # c # _ \<Rightarrow>
           if cont (if x = 0xE0 then 0xA0 else 0x80) (if x = 0xED then 0x9F else 0xBF) b \<and>
              cont 0x80 0xBF c then Some 3 else None
         | _ \<Rightarrow> None)
      else if 0xF0 \<le> x \<and> x \<le> 0xF4 then
        (case r of b # c # d # _ \<Rightarrow>
           if cont (if x = 0xF0 then 0x90 else 0x80) (if x = 0xF4 then 0x8F else 0xBF) b \<and>
              cont 0x80 0xBF c \<and> cont 0x80 0xBF d then Some 4 else None
         | _ \<Rightarrow> None)
      else None)"

declare utf8_len.simps(2) [simp del]

lemma utf8_len_bounds: "utf8_len s = Some n \<Longrightarrow> 0 < n \<and> n \<le> length s"
  by (cases s) (auto simp: utf8_len.simps(2) Let_def split: if_splits list.splits)

lemma utf8_len_ascii: "bval a < 128 \<Longrightarrow> utf8_len (a # r) = Some 1"
  by (simp add: utf8_len.simps(2))

lemma utf8_len_high: "utf8_len (a # r) = Some n \<Longrightarrow> 128 \<le> bval a \<Longrightarrow> 2 \<le> n"
  by (auto simp: utf8_len.simps(2) Let_def split: if_splits list.splits)

lemma utf8_len_append: "utf8_len s = Some n \<Longrightarrow> utf8_len (s @ t) = Some n"
  by (cases s) (auto simp: utf8_len.simps(2) Let_def split: if_splits list.splits)

lemma utf8_len_take: "utf8_len s = Some n \<Longrightarrow> utf8_len (take n s @ t) = Some n"
  by (cases s) (auto simp: utf8_len.simps(2) Let_def split: if_splits list.splits)

text \<open>\<open>utf8.Valid\<close>.\<close>

function utf8_ok :: "string \<Rightarrow> bool" where
  "utf8_ok s =
     (if s = [] then True
      else (case utf8_len s of None \<Rightarrow> False | Some n \<Rightarrow> utf8_ok (drop n s)))"
  by pat_completeness auto
termination
  by (relation "measure length") (auto dest: utf8_len_bounds)

declare utf8_ok.simps [simp del]

lemma utf8_ok_Nil [simp]: "utf8_ok []"
  by (simp add: utf8_ok.simps)

lemma utf8_ok_step: "s \<noteq> [] \<Longrightarrow> utf8_ok s \<longleftrightarrow> (\<exists>n. utf8_len s = Some n \<and> utf8_ok (drop n s))"
  by (subst utf8_ok.simps) (auto split: option.splits)

lemma utf8_ok_ascii_Cons [simp]: "bval c < 128 \<Longrightarrow> utf8_ok (c # s) \<longleftrightarrow> utf8_ok s"
  by (simp add: utf8_ok_step utf8_len_ascii)

lemma utf8_ok_ascii: "\<forall>c \<in> set s. bval c < 128 \<Longrightarrow> utf8_ok s"
  by (induction s) auto

lemma utf8_ok_rune_append:
  "utf8_len r = Some (length r) \<Longrightarrow> utf8_ok s \<Longrightarrow> utf8_ok (r @ s)"
  using utf8_len_append[of r "length r" s] utf8_len_bounds[of r "length r"]
  by (subst utf8_ok_step) auto

subsection \<open>The encoder: appendString\<close>

definition hex_digit :: "nat \<Rightarrow> char" where
  "hex_digit d = (if d < 10 then char_of (48 + d) else char_of (87 + d))"

definition html_safe :: "char \<Rightarrow> bool" where
  "html_safe c = (32 \<le> bval c \<and> bval c < 128 \<and> c \<notin> {CHR 0x22, CHR 0x26, CHR 0x3C, CHR 0x3E, CHR 0x5C})"

definition esc_ascii :: "char \<Rightarrow> string" where
  "esc_ascii c =
     (if html_safe c then [c]
      else if c = CHR 0x5C \<or> c = CHR 0x22 then [CHR 0x5C, c]
      else if c = CHR 0x08 then [CHR 0x5C, CHR ''b'']
      else if c = CHR 0x0C then [CHR 0x5C, CHR ''f'']
      else if c = CHR 0x0A then [CHR 0x5C, CHR ''n'']
      else if c = CHR 0x0D then [CHR 0x5C, CHR ''r'']
      else if c = CHR 0x09 then [CHR 0x5C, CHR ''t'']
      else [CHR 0x5C, CHR ''u'', CHR ''0'', CHR ''0'', hex_digit (bval c div 16), hex_digit (bval c mod 16)])"

definition repl_escape :: string where
  "repl_escape = CHR 0x5C # ''ufffd''"

definition esc_rune :: "string \<Rightarrow> string" where
  "esc_rune r =
     (if r = [byte 0xE2, byte 0x80, byte 0xA8] then CHR 0x5C # ''u2028''
      else if r = [byte 0xE2, byte 0x80, byte 0xA9] then CHR 0x5C # ''u2029''
      else r)"

function enc_chars :: "string \<Rightarrow> string" where
  "enc_chars [] = []"
| "enc_chars (c # cs) =
     (if bval c < 128 then esc_ascii c @ enc_chars cs
      else (case utf8_len (c # cs) of
              None \<Rightarrow> repl_escape @ enc_chars cs
            | Some n \<Rightarrow> esc_rune (take n (c # cs)) @ enc_chars (drop (n - 1) cs)))"
  by pat_completeness auto
termination
  by (relation "measure length") auto

declare enc_chars.simps(2) [simp del]

definition enc_string :: "string \<Rightarrow> string" where
  "enc_string s = CHR 0x22 # enc_chars s @ [CHR 0x22]"

subsection \<open>The decoder: unquote\<close>

definition hex_val :: "char \<Rightarrow> nat option" where
  "hex_val c =
     (let n = bval c in
      if 48 \<le> n \<and> n \<le> 57 then Some (n - 48)
      else if 97 \<le> n \<and> n \<le> 102 then Some (n - 87)
      else if 65 \<le> n \<and> n \<le> 70 then Some (n - 55)
      else None)"

fun hex4 :: "string \<Rightarrow> (nat \<times> string) option" where
  "hex4 (a # b # c # d # r) =
     (case (hex_val a, hex_val b, hex_val c, hex_val d) of
        (Some x, Some y, Some z, Some w) \<Rightarrow> Some (((x * 16 + y) * 16 + z) * 16 + w, r)
      | _ \<Rightarrow> None)"
| "hex4 _ = None"

lemma hex4_shorter: "hex4 s = Some (n, r) \<Longrightarrow> length r < length s"
  by (induction s rule: hex4.induct) (auto split: option.splits prod.splits)

text \<open>\<open>utf8.AppendRune\<close> on a valid code point.\<close>

definition enc_rune :: "nat \<Rightarrow> string" where
  "enc_rune u =
     (if u < 0x80 then [byte u]
      else if u < 0x800 then [byte (0xC0 + u div 64), byte (0x80 + u mod 64)]
      else if u < 0x10000 then
        [byte (0xE0 + u div 4096), byte (0x80 + u div 64 mod 64), byte (0x80 + u mod 64)]
      else [byte (0xF0 + u div 262144), byte (0x80 + u div 4096 mod 64),
            byte (0x80 + u div 64 mod 64), byte (0x80 + u mod 64)])"

definition repl_rune :: string where
  "repl_rune = [byte 0xEF, byte 0xBF, byte 0xBD]"

text \<open>
  The escape after a backslash and \<open>u\<close>: the code unit, and for the first half of a surrogate
  pair the second escape too; a lone surrogate becomes the replacement rune.
\<close>

definition p_uescape :: "string \<Rightarrow> (string \<times> string) option" where
  "p_uescape s =
     (case hex4 s of
        None \<Rightarrow> None
      | Some (u, r) \<Rightarrow>
          if 0xD800 \<le> u \<and> u < 0xE000 then
            (case (if take 2 r = [CHR 0x5C, CHR ''u''] then hex4 (drop 2 r) else None) of
               None \<Rightarrow> Some (repl_rune, r)
             | Some (u2, r2) \<Rightarrow>
                 if u < 0xDC00 \<and> 0xDC00 \<le> u2 \<and> u2 < 0xE000
                 then Some (enc_rune ((u - 0xD800) * 1024 + (u2 - 0xDC00) + 0x10000), r2)
                 else Some (repl_rune, r))
          else Some (enc_rune u, r))"

definition p_escape :: "string \<Rightarrow> (string \<times> string) option" where
  "p_escape s =
     (case s of
        [] \<Rightarrow> None
      | e # r \<Rightarrow>
          if e = CHR 0x22 \<or> e = CHR 0x5C \<or> e = CHR 0x2F then Some ([e], r)
          else if e = CHR ''b'' then Some ([CHR 0x08], r)
          else if e = CHR ''f'' then Some ([CHR 0x0C], r)
          else if e = CHR ''n'' then Some ([CHR 0x0A], r)
          else if e = CHR ''r'' then Some ([CHR 0x0D], r)
          else if e = CHR ''t'' then Some ([CHR 0x09], r)
          else if e = CHR ''u'' then p_uescape r
          else None)"

lemma p_uescape_shorter: "p_uescape s = Some (t, r) \<Longrightarrow> length r < length s"
  by (auto simp: p_uescape_def dest!: hex4_shorter split: option.splits if_splits prod.splits)

lemma p_escape_shorter: "p_escape s = Some (t, r) \<Longrightarrow> length r < length s"
  by (auto simp: p_escape_def dest!: p_uescape_shorter split: list.splits if_splits)

definition prepend_res :: "string \<Rightarrow> (string \<times> string) option \<Rightarrow> (string \<times> string) option" where
  "prepend_res t r = map_option (\<lambda>(s, rest). (t @ s, rest)) r"

function p_chars :: "string \<Rightarrow> (string \<times> string) option" where
  "p_chars [] = None"
| "p_chars (c # cs) =
     (if c = CHR 0x22 then Some ([], cs)
      else if c = CHR 0x5C then
        (case p_escape cs of None \<Rightarrow> None | Some (t, r) \<Rightarrow> prepend_res t (p_chars r))
      else if bval c < 32 then None
      else if bval c < 128 then prepend_res [c] (p_chars cs)
      else (case utf8_len (c # cs) of
              None \<Rightarrow> prepend_res repl_rune (p_chars cs)
            | Some n \<Rightarrow> prepend_res (take n (c # cs)) (p_chars (drop (n - 1) cs))))"
  by pat_completeness auto
termination
  by (relation "measure length") (auto dest!: p_escape_shorter)

declare p_chars.simps(2) [simp del]

subsection \<open>Decoding undoes encoding\<close>

lemma prepend_res_simps [simp]:
  "prepend_res t None = None"
  "prepend_res t (Some (s, r)) = Some (t @ s, r)"
  by (simp_all add: prepend_res_def)

lemma hex_val_hex_digit: "d < 16 \<Longrightarrow> hex_val (hex_digit d) = Some d"
  by (auto simp: hex_val_def hex_digit_def Let_def)

lemma hex4_zero: "hex4 (CHR ''0'' # CHR ''0'' # hex_digit a # hex_digit b # r) = Some (a * 16 + b, r)"
  if "a < 16" "b < 16"
  using that by (simp add: hex_val_hex_digit) (simp add: hex_val_def)

lemma p_uescape_high:
  assumes "bval c < 128"
  shows "p_uescape (CHR ''0'' # CHR ''0'' # hex_digit (bval c div 16) # hex_digit (bval c mod 16) # r)
    = Some ([c], r)"
proof -
  have "(bval c div 16) * 16 + bval c mod 16 = bval c" by simp
  then show ?thesis
    using assms by (simp add: p_uescape_def hex4_zero enc_rune_def byte_def del: hex4.simps)
qed

lemma p_chars_escape: "p_escape e = Some (t, r) \<Longrightarrow> p_chars (CHR 0x5C # e) = prepend_res t (p_chars r)"
  by (simp add: p_chars.simps(2))

lemma p_chars_esc_ascii:
  assumes "bval c < 128"
  shows "p_chars (esc_ascii c @ r) = prepend_res [c] (p_chars r)"
proof (cases "html_safe c")
  case True
  then have "c \<noteq> CHR 0x22" "c \<noteq> CHR 0x5C" "\<not> bval c < 32"
    by (auto simp: html_safe_def)
  with True assms show ?thesis
    by (simp add: esc_ascii_def p_chars.simps(2))
next
  case False
  have "\<exists>e. esc_ascii c @ r = CHR 0x5C # e \<and> p_escape e = Some ([c], r)"
    using False assms p_uescape_high[of c r]
    by (simp add: esc_ascii_def p_escape_def)
  then show ?thesis using p_chars_escape by auto
qed

lemma p_chars_raw_rune:
  assumes "utf8_len (c # cs) = Some n" "128 \<le> bval c"
  shows "p_chars (take n (c # cs) @ r) = prepend_res (take n (c # cs)) (p_chars r)"
proof -
  have n: "2 \<le> n" "n \<le> length (c # cs)"
    using assms utf8_len_high utf8_len_bounds by blast+
  then obtain m where m: "n = Suc m" by (cases n) auto
  have "utf8_len (c # take m cs @ r) = Some n"
    using utf8_len_take[OF assms(1), of r] m by simp
  moreover have "c \<noteq> CHR 0x22" "c \<noteq> CHR 0x5C" "\<not> bval c < 32" "\<not> bval c < 128"
    using assms(2) by auto
  ultimately show ?thesis
    using n m by (simp add: p_chars.simps(2) min_def)
qed

lemma p_chars_esc_rune:
  assumes "utf8_len (c # cs) = Some n" "128 \<le> bval c"
  shows "p_chars (esc_rune (take n (c # cs)) @ r) = prepend_res (take n (c # cs)) (p_chars r)"
proof -
  have u8: "p_escape (''u2028'' @ r) = Some ([byte 0xE2, byte 0x80, byte 0xA8], r)"
    and u9: "p_escape (''u2029'' @ r) = Some ([byte 0xE2, byte 0x80, byte 0xA9], r)"
    by (simp_all add: p_escape_def p_uescape_def hex_val_def Let_def enc_rune_def)
  then show ?thesis
    using p_chars_escape[OF u8] p_chars_escape[OF u9] p_chars_raw_rune[OF assms]
    by (simp add: esc_rune_def del: take_Suc_Cons)
qed

lemma p_chars_enc_chars: "utf8_ok s \<Longrightarrow> p_chars (enc_chars s @ CHR 0x22 # r) = Some (s, r)"
proof (induction s rule: enc_chars.induct)
  case 1
  then show ?case by (simp add: p_chars.simps(2))
next
  case (2 c cs)
  show ?case
  proof (cases "bval c < 128")
    case True
    with 2 show ?thesis by (simp add: enc_chars.simps(2) p_chars_esc_ascii)
  next
    case False
    with "2.prems" obtain n where n: "utf8_len (c # cs) = Some n" "utf8_ok (drop n (c # cs))"
      by (auto simp: utf8_ok_step)
    have ge: "2 \<le> n" using utf8_len_high[OF n(1)] False by simp
    then have dr: "drop (n - 1) cs = drop n (c # cs)" by (cases n) auto
    have "p_chars (enc_chars (drop n (c # cs)) @ CHR 0x22 # r) = Some (drop n (c # cs), r)"
      using 2 n False dr by simp
    then show ?thesis
      using False n dr p_chars_esc_rune[OF n(1)]
      by (simp add: enc_chars.simps(2) del: take_Suc_Cons drop_Suc_Cons)
  qed
qed

subsection \<open>What the decoder returns is valid UTF-8\<close>

lemma mod_64_le: "(x::nat) mod 64 \<le> 63"
  using mod_less_divisor[of 64 x] by linarith

lemma enc_rune_utf8:
  assumes "u < 0xD800 \<or> 0xE000 \<le> u \<and> u < 0x110000"
  shows "utf8_len (enc_rune u) = Some (length (enc_rune u))"
proof -
  consider "u < 0x80" | "0x80 \<le> u" "u < 0x800" | "0x800 \<le> u" "u < 0x10000"
    | "0x10000 \<le> u" "u < 0x110000"
    using assms by linarith
  then show ?thesis
  proof cases
    case 1
    then show ?thesis by (simp add: enc_rune_def utf8_len.simps(2) byte_def)
  next
    case 2
    have "u mod 64 < 64" "2 \<le> u div 64" "u div 64 < 32" using 2 by auto
    then show ?thesis
      using 2 by (simp add: enc_rune_def utf8_len.simps(2) byte_def cont_def Let_def)
  next
    case 3
    have "u div 4096 < 16" "u div 64 mod 64 < 64" "u mod 64 < 64" using 3 by auto
    moreover have "u div 4096 = 0 \<Longrightarrow> 32 \<le> u div 64 mod 64" using 3 by auto
    moreover have "u div 64 mod 64 \<le> 31" if "u div 4096 = 13"
    proof -
      have "u div 64 div 64 = 13" using that by (simp flip: div_mult2_eq)
      moreover have "u div 64 < 864" using that 3 assms by auto
      ultimately show ?thesis using div_mult_mod_eq[of "u div 64" 64] by linarith
    qed
    moreover have "u div 4096 = 0 \<Longrightarrow> u div 64 \<le> 63" by auto
    ultimately show ?thesis
      using 3 by (simp add: enc_rune_def utf8_len.simps(2) byte_def cont_def Let_def mod_64_le)
  next
    case 4
    have "u div 262144 \<le> 4" "u div 4096 mod 64 < 64" "u div 64 mod 64 < 64" "u mod 64 < 64"
      using 4 by auto
    moreover have "u div 262144 = 0 \<Longrightarrow> 16 \<le> u div 4096 mod 64" using 4 by auto
    moreover have "u div 4096 mod 64 \<le> 15" if "u div 262144 = 4"
    proof -
      have "u div 4096 div 64 = 4" using that by (simp flip: div_mult2_eq)
      moreover have "u div 4096 < 272" using 4 by auto
      ultimately show ?thesis using div_mult_mod_eq[of "u div 4096" 64] by linarith
    qed
    ultimately show ?thesis
      using 4 by (simp add: enc_rune_def utf8_len.simps(2) byte_def cont_def Let_def mod_64_le)
  qed
qed

lemma hex_val_bound: "hex_val c = Some n \<Longrightarrow> n < 16"
  by (auto simp: hex_val_def Let_def split: if_splits)

lemma hex4_bound: "hex4 s = Some (n, r) \<Longrightarrow> n < 65536"
proof (induction s rule: hex4.induct)
  case (1 a b c d r')
  then obtain x y z w where "hex_val a = Some x" "hex_val b = Some y" "hex_val c = Some z"
    "hex_val d = Some w" "n = ((x * 16 + y) * 16 + z) * 16 + w"
    by (auto split: option.splits)
  then show ?case
    using hex_val_bound[of a x] hex_val_bound[of b y] hex_val_bound[of c z] hex_val_bound[of d w]
    by simp
qed auto

lemma repl_rune_utf8: "utf8_len repl_rune = Some (length repl_rune)"
  by (simp add: repl_rune_def utf8_len.simps(2) byte_def cont_def)

lemma p_escape_utf8: "p_escape s = Some (t, r) \<Longrightarrow> utf8_ok t"
proof -
  have u: "utf8_ok t" if "p_uescape r' = Some (t, r)" for r'
    using that enc_rune_utf8 repl_rune_utf8 utf8_ok_rune_append[of _ "[]"] hex4_bound
    by (auto simp: p_uescape_def split: option.splits if_splits prod.splits)
       (force dest: hex4_bound)+
  assume "p_escape s = Some (t, r)"
  then show ?thesis
    using u by (auto simp: p_escape_def split: list.splits if_splits)
qed

lemma utf8_ok_append: "utf8_ok s \<Longrightarrow> utf8_ok t \<Longrightarrow> utf8_ok (s @ t)"
proof (induction s rule: utf8_ok.induct)
  case (1 s)
  show ?case
  proof (cases "s = []")
    case False
    with 1 obtain n where n: "utf8_len s = Some n" "utf8_ok (drop n s @ t)"
      by (auto simp: utf8_ok_step)
    then show ?thesis
      using utf8_len_append[OF n(1), of t] utf8_len_bounds[OF n(1)] False
      by (simp add: utf8_ok_step)
  qed (use 1 in simp)
qed

lemma prepend_res_SomeD:
  "prepend_res x y = Some (t, r) \<Longrightarrow> \<exists>t'. y = Some (t', r) \<and> t = x @ t'"
  by (cases y) auto

lemma p_chars_utf8: "p_chars s = Some (t, r) \<Longrightarrow> utf8_ok t"
proof (induction s arbitrary: t r rule: p_chars.induct)
  case 1
  then show ?case by simp
next
  case (2 c cs)
  show ?case
  proof (cases "c = CHR 0x22 \<or> bval c < 32")
    case True
    with "2.prems" show ?thesis by (auto simp: p_chars.simps(2) split: if_splits)
  next
    case False
    note IH = "2.IH"
    have high: "c \<noteq> CHR 0x5C \<and> \<not> bval c < 128 \<and> \<not> bval c < 32" if "128 \<le> bval c"
      using that by auto
    consider (esc) "c = CHR 0x5C" | (ascii) "c \<noteq> CHR 0x5C" "bval c < 128"
      | (bad) "128 \<le> bval c" "utf8_len (c # cs) = None"
      | (rune) n where "128 \<le> bval c" "utf8_len (c # cs) = Some n"
      by (cases "utf8_len (c # cs)") force+
    then show ?thesis
    proof cases
      case esc
      with "2.prems" obtain x y where xy: "p_escape cs = Some (x, y)"
        "prepend_res x (p_chars y) = Some (t, r)"
        by (auto simp: p_chars.simps(2) split: option.splits)
      then obtain t' where "p_chars y = Some (t', r)" "t = x @ t'"
        using prepend_res_SomeD by blast
      with IH(1)[of "(x, y)" x y] xy esc show ?thesis by (auto intro: utf8_ok_append p_escape_utf8)
    next
      case ascii
      with "2.prems" False obtain t' where "p_chars cs = Some (t', r)" "t = [c] @ t'"
        by (auto simp: p_chars.simps(2) dest: prepend_res_SomeD)
      with IH(2) ascii False show ?thesis by simp
    next
      case bad
      with "2.prems" False high obtain t' where "p_chars cs = Some (t', r)" "t = repl_rune @ t'"
        by (auto simp: p_chars.simps(2) dest: prepend_res_SomeD)
      with IH(3) bad False high show ?thesis by (auto intro: utf8_ok_rune_append[OF repl_rune_utf8])
    next
      case rune
      with "2.prems" False high obtain t' where
        "p_chars (drop (n - 1) cs) = Some (t', r)" "t = take n (c # cs) @ t'"
        by (auto simp: p_chars.simps(2) dest: prepend_res_SomeD)
      with IH(4)[of n] rune False high show ?thesis
        using utf8_len_take[OF rune(2), of "[]"] utf8_len_bounds[OF rune(2)]
        by (auto intro!: utf8_ok_rune_append simp: min_def)
    qed
  qed
qed

subsection \<open>Cutting valid UTF-8\<close>

lemma utf8_head_not_cont: "utf8_len (c # r) = Some n \<Longrightarrow> \<not> cont 0x80 0xBF c"
  by (auto simp: utf8_len.simps(2) Let_def cont_def split: if_splits)

lemma utf8_len_cont:
  assumes "utf8_len s = Some n" "0 < i" "i < n"
  shows "cont 0x80 0xBF (s ! i)"
proof -
  obtain a r where s: "s = a # r" using assms(1) by (cases s) auto
  have "n \<le> 4" "n \<le> length s"
    using assms(1) utf8_len_bounds by (auto simp: s utf8_len.simps(2) Let_def split: if_splits list.splits)
  then have "i = 1 \<or> i = 2 \<or> i = 3" using assms(2,3) by linarith
  then show ?thesis
    using assms(1,3)
    by (auto simp: s utf8_len.simps(2) Let_def cont_def split: if_splits list.splits)
qed

lemma utf8_ok_drop_valid: "utf8_ok p \<Longrightarrow> utf8_ok (p @ s) \<Longrightarrow> utf8_ok s"
proof (induction p rule: utf8_ok.induct)
  case (1 p)
  show ?case
  proof (cases "p = []")
    case False
    with "1.prems"(1) obtain n where n: "utf8_len p = Some n" "utf8_ok (drop n p)"
      by (auto simp: utf8_ok_step)
    have "utf8_ok (drop n p @ s)"
      using "1.prems"(2) False utf8_len_append[OF n(1), of s] utf8_len_bounds[OF n(1)]
      by (simp add: utf8_ok_step)
    then show ?thesis using 1 n False by blast
  qed (use 1 in simp)
qed

lemma utf8_ok_take_valid: "utf8_ok q \<Longrightarrow> utf8_ok (s @ q) \<Longrightarrow> utf8_ok s"
proof (induction s rule: utf8_ok.induct)
  case (1 s)
  show ?case
  proof (cases "s = [] \<or> q = []")
    case False
    with "1.prems"(2) obtain n where n: "utf8_len (s @ q) = Some n" "utf8_ok (drop n (s @ q))"
      by (auto simp: utf8_ok_step)
    have le: "n \<le> length s"
    proof (rule ccontr)
      assume "\<not> n \<le> length s"
      then have "cont 0x80 0xBF ((s @ q) ! length s)"
        using utf8_len_cont[OF n(1), of "length s"] False by simp
      moreover obtain c r where q: "q = c # r" using False by (cases q) auto
      moreover obtain m where "utf8_len q = Some m"
        using "1.prems"(1) False by (auto simp: utf8_ok_step)
      ultimately show False using utf8_head_not_cont[of c r m] by simp
    qed
    have l: "utf8_len s = Some n"
      using utf8_len_take[OF n(1), of "drop n s"] le by simp
    then have "utf8_ok (drop n s)" using 1 n le False by simp
    then show ?thesis using l False by (auto simp: utf8_ok_step)
  qed (use 1 in auto)
qed

lemma space_runes_utf8: "r \<in> set space_runes \<Longrightarrow> utf8_ok r"
  by (auto simp: space_runes_def ascii_spaces_def utf8_ok_step utf8_len.simps(2) cont_def byte_def)

lemma utf8_ok_trim_left: "utf8_ok s \<Longrightarrow> utf8_ok (trim_left_space s)"
proof (induction s rule: trim_left_space.induct)
  case (1 s)
  show ?case
  proof (cases "cut_left s")
    case (Some t)
    then obtain r where "r \<in> set space_runes" "s = r @ t"
      using cut_left_SomeD[OF Some] by (auto simp: has_prefix_iff)
    then have "utf8_ok t" using utf8_ok_drop_valid[of r t] space_runes_utf8 "1.prems" by simp
    then show ?thesis using 1 Some by (simp add: trim_left_space.simps[of s])
  qed (use 1 in \<open>simp add: trim_left_space.simps[of s]\<close>)
qed

lemma utf8_ok_trim_right: "utf8_ok s \<Longrightarrow> utf8_ok (trim_right_space s)"
proof (induction s rule: trim_right_space.induct)
  case (1 s)
  show ?case
  proof (cases "cut_right s")
    case (Some t)
    then obtain r where "r \<in> set space_runes" "s = t @ r"
      using cut_right_SomeD[OF Some] by (auto simp: has_suffix_iff)
    then have "utf8_ok t" using utf8_ok_take_valid[of r t] space_runes_utf8 "1.prems" by simp
    then show ?thesis using 1 Some by (simp add: trim_right_space.simps[of s])
  qed (use 1 in \<open>simp add: trim_right_space.simps[of s]\<close>)
qed

lemma utf8_ok_trim_space: "utf8_ok s \<Longrightarrow> utf8_ok (trim_space s)"
  by (simp add: trim_space_def utf8_ok_trim_left utf8_ok_trim_right)

lemma utf8_ok_trim_prefix: "utf8_ok p \<Longrightarrow> utf8_ok s \<Longrightarrow> utf8_ok (trim_prefix s p)"
  using utf8_ok_drop_valid[of p] by (auto simp: trim_prefix_def has_prefix_iff)

end
