(* ===== verification/GoJSON.thy ===== *)
theory GoJSON
  imports GoUtf8
begin

section \<open>encoding/json: documents, Unmarshal into an interface value, Marshal\<close>

text \<open>
  \<open>json_parse\<close> accepts exactly the documents \<open>encoding/json\<close> accepts (its scanner's grammar
  and its limit of 10000 nested containers) and keeps an object's members in source order, since
  decoding into a struct depends on it. \<open>iface\<close> turns a parsed document into what
  \<open>json.Unmarshal\<close> stores in an \<open>interface{}\<close>: an object becomes a map (the last of equal
  keys wins) and a number a \<open>float64\<close>. A \<open>float64\<close> is represented by the text
  \<open>json.Marshal\<close> prints for it. For an integer literal of at most 15 digits that text is the
  literal itself; for every other literal it is given by the argument \<open>flt\<close> (binary floating
  point is not modelled), \<open>None\<close> meaning that the literal is out of range.
\<close>

datatype json =
    JNull
  | JBool bool
  | JNum string
  | JStr string
  | JArr "json list"
  | JObj "(string \<times> json) list"

subsection \<open>The parser\<close>

definition json_ws :: "char \<Rightarrow> bool" where
  "json_ws c = (c = CHR 0x20 \<or> c = CHR 0x09 \<or> c = CHR 0x0A \<or> c = CHR 0x0D)"

definition skip_ws :: "string \<Rightarrow> string" where
  "skip_ws s = dropWhile json_ws s"

definition is_digit :: "char \<Rightarrow> bool" where
  "is_digit c = (48 \<le> bval c \<and> bval c \<le> 57)"

definition take_digits :: "string \<Rightarrow> string \<times> string" where
  "take_digits s = (takeWhile is_digit s, dropWhile is_digit s)"

text \<open>The optional fraction and exponent of a number; \<open>None\<close> when started but not completed.\<close>

definition p_frac :: "string \<Rightarrow> (string \<times> string) option" where
  "p_frac s =
     (case s of
        c # r \<Rightarrow>
          if c = CHR ''.'' then
            (let (ds, r') = take_digits r in if ds = [] then None else Some (c # ds, r'))
          else Some ([], s)
      | [] \<Rightarrow> Some ([], s))"

definition p_exp :: "string \<Rightarrow> (string \<times> string) option" where
  "p_exp s =
     (case s of
        c # r \<Rightarrow>
          if c = CHR ''e'' \<or> c = CHR ''E'' then
            (let sg = (case r of d # _ \<Rightarrow> if d = CHR ''+'' \<or> d = CHR ''-'' then [d] else [] | [] \<Rightarrow> []);
                 (ds, r') = take_digits (drop (length sg) r)
             in if ds = [] then None else Some (c # sg @ ds, r'))
          else Some ([], s)
      | [] \<Rightarrow> Some ([], s))"

definition p_int :: "string \<Rightarrow> (string \<times> string) option" where
  "p_int s =
     (case s of
        c # r \<Rightarrow>
          if c = CHR ''0'' then Some ([c], r)
          else if is_digit c then Some (take_digits s)
          else None
      | [] \<Rightarrow> None)"

definition p_number :: "string \<Rightarrow> (string \<times> string) option" where
  "p_number s =
     (let sg = (if has_prefix s ''-'' then ''-'' else []) in
      case p_int (drop (length sg) s) of
        None \<Rightarrow> None
      | Some (i, r1) \<Rightarrow>
          (case p_frac r1 of
             None \<Rightarrow> None
           | Some (f, r2) \<Rightarrow>
               (case p_exp r2 of
                  None \<Rightarrow> None
                | Some (e, r3) \<Rightarrow> Some (sg @ i @ f @ e, r3))))"

text \<open>
  Values, the rest of an array after its opening bracket (at a value), and the members of an object
  (at a key). The first argument is fuel, the second the number of containers that may still be
  opened; \<open>2 * length s\<close> steps of fuel are always enough (\<open>p_fuel_enough\<close>).
\<close>

fun p_value :: "nat \<Rightarrow> nat \<Rightarrow> string \<Rightarrow> (json \<times> string) option"
  and p_elems :: "nat \<Rightarrow> nat \<Rightarrow> string \<Rightarrow> (json list \<times> string) option"
  and p_members :: "nat \<Rightarrow> nat \<Rightarrow> string \<Rightarrow> ((string \<times> json) list \<times> string) option"
where
  "p_value 0 d s = None"
| "p_value (Suc n) d s =
     (case s of
        [] \<Rightarrow> None
      | c # r \<Rightarrow>
          if c = CHR 0x22 then
            (case p_chars r of None \<Rightarrow> None | Some (t, r') \<Rightarrow> Some (JStr t, r'))
          else if c = CHR ''['' then
            (if d = 0 then None
             else (case skip_ws r of
                     [] \<Rightarrow> None
                   | e # r' \<Rightarrow>
                       if e = CHR '']'' then Some (JArr [], r')
                       else (case p_elems n (d - 1) (e # r') of
                               None \<Rightarrow> None | Some (vs, r'') \<Rightarrow> Some (JArr vs, r''))))
          else if c = CHR ''{'' then
            (if d = 0 then None
             else (case skip_ws r of
                     [] \<Rightarrow> None
                   | e # r' \<Rightarrow>
                       if e = CHR ''}'' then Some (JObj [], r')
                       else (case p_members n (d - 1) (e # r') of
                               None \<Rightarrow> None | Some (ms, r'') \<Rightarrow> Some (JObj ms, r''))))
          else if has_prefix s ''null'' then Some (JNull, drop 4 s)
          else if has_prefix s ''true'' then Some (JBool True, drop 4 s)
          else if has_prefix s ''false'' then Some (JBool False, drop 5 s)
          else (case p_number s of None \<Rightarrow> None | Some (l, r') \<Rightarrow> Some (JNum l, r')))"
| "p_elems 0 d s = None"
| "p_elems (Suc n) d s =
     (case p_value n d s of
        None \<Rightarrow> None
      | Some (v, r) \<Rightarrow>
          (case skip_ws r of
             [] \<Rightarrow> None
           | e # r' \<Rightarrow>
               if e = CHR '']'' then Some ([v], r')
               else if e = CHR '','' then
                 (case p_elems n d (skip_ws r') of
                    None \<Rightarrow> None | Some (vs, r'') \<Rightarrow> Some (v # vs, r''))
               else None))"
| "p_members 0 d s = None"
| "p_members (Suc n) d s =
     (case s of
        [] \<Rightarrow> None
      | q # s' \<Rightarrow>
          if q = CHR 0x22 then
            (case p_chars s' of
               None \<Rightarrow> None
             | Some (k, r) \<Rightarrow>
                 (case skip_ws r of
                    [] \<Rightarrow> None
                  | e # r1 \<Rightarrow>
                      if e = CHR '':'' then
                        (case p_value n d (skip_ws r1) of
                           None \<Rightarrow> None
                         | Some (v, r2) \<Rightarrow>
                             (case skip_ws r2 of
                                [] \<Rightarrow> None
                              | f # r3 \<Rightarrow>
                                  if f = CHR ''}'' then Some ([(k, v)], r3)
                                  else if f = CHR '','' then
                                    (case p_members n d (skip_ws r3) of
                                       None \<Rightarrow> None
                                     | Some (ms, r4) \<Rightarrow> Some ((k, v) # ms, r4))
                                  else None))
                      else None))
          else None)"

declare p_value.simps(2) [simp del] p_elems.simps(2) [simp del] p_members.simps(2) [simp del]

definition max_nesting :: nat where
  "max_nesting = 10000"

definition json_parse :: "bytes \<Rightarrow> json option" where
  "json_parse s =
     (let t = skip_ws s in
      case p_value (2 * length t) max_nesting t of
        None \<Rightarrow> None
      | Some (v, r) \<Rightarrow> if skip_ws r = [] then Some v else None)"

subsection \<open>Unmarshal into an interface value\<close>

definition small_int_literal :: "string \<Rightarrow> bool" where
  "small_int_literal l =
     (let ds = (if has_prefix l ''-'' then drop 1 l else l) in
      list_all is_digit ds \<and> 0 < length ds \<and> length ds \<le> 15 \<and> (hd ds = CHR ''0'' \<longrightarrow> length ds = 1))"

definition num_canon :: "(string \<Rightarrow> string option) \<Rightarrow> string \<Rightarrow> string option" where
  "num_canon flt l = (if small_int_literal l then Some l else flt l)"

fun all_some :: "'a option list \<Rightarrow> 'a list option" where
  "all_some [] = Some []"
| "all_some (None # r) = None"
| "all_some (Some x # r) = map_option ((#) x) (all_some r)"

fun iface :: "(string \<Rightarrow> string option) \<Rightarrow> json \<Rightarrow> json option" where
  "iface flt JNull = Some JNull"
| "iface flt (JBool b) = Some (JBool b)"
| "iface flt (JNum l) = map_option JNum (num_canon flt l)"
| "iface flt (JStr s) = Some (JStr s)"
| "iface flt (JArr vs) = map_option JArr (all_some (map (iface flt) vs))"
| "iface flt (JObj ms) =
     map_option (\<lambda>vs. JObj (mput_all (zip (map fst ms) vs) mempty)) (all_some (map (\<lambda>m. iface flt (snd m)) ms))"

subsection \<open>Marshal\<close>

fun join_with :: "char \<Rightarrow> string list \<Rightarrow> string" where
  "join_with c [] = []"
| "join_with c [s] = s"
| "join_with c (s # t # r) = s @ c # join_with c (t # r)"

fun json_marshal :: "json \<Rightarrow> bytes" where
  "json_marshal JNull = ''null''"
| "json_marshal (JBool b) = (if b then ''true'' else ''false'')"
| "json_marshal (JNum l) = l"
| "json_marshal (JStr s) = enc_string s"
| "json_marshal (JArr vs) = CHR ''['' # join_with (CHR '','') (map json_marshal vs) @ '']''"
| "json_marshal (JObj ms) =
     CHR ''{'' # join_with (CHR '','') (map (\<lambda>m. enc_string (fst m) @ CHR '':'' # json_marshal (snd m)) ms) @ ''}''"

end
