(* ===== verification/GoJSONLaws.thy ===== *)
theory GoJSONLaws
  imports GoJSON
begin

section \<open>Laws of the JSON model: fuel, round trip, normal forms\<close>

text \<open>
  The parser's fuel never decides a result; \<open>json.Marshal\<close> followed by \<open>json.Unmarshal\<close> into
  an \<open>interface{}\<close> is the identity on normal forms (what decoding produces), and every decoded
  document is a normal form.
\<close>

subsection \<open>Lengths\<close>

lemma skip_ws_length: "length (skip_ws s) \<le> length s"
  by (simp add: skip_ws_def length_dropWhile_le)

lemma skip_ws_ConsD: "skip_ws s = e # r \<Longrightarrow> length r < length s"
  using skip_ws_length[of s] by simp

lemma skip_ws_id: "s = [] \<or> \<not> json_ws (hd s) \<Longrightarrow> skip_ws s = s"
  by (cases s) (auto simp: skip_ws_def)

lemma p_chars_shorter: "p_chars s = Some (t, r) \<Longrightarrow> length r < length s"
proof (induction s arbitrary: t r rule: p_chars.induct)
  case 1
  then show ?case by simp
next
  case (2 c cs)
  note IH = "2.IH"
  consider (q) "c = CHR 0x22" | (esc) "c = CHR 0x5C" | (ctl) "c \<noteq> CHR 0x5C" "c \<noteq> CHR 0x22" "bval c < 32"
    | (ascii) "c \<noteq> CHR 0x5C" "c \<noteq> CHR 0x22" "\<not> bval c < 32" "bval c < 128"
    | (high) "128 \<le> bval c"
    by linarith
  then show ?case
  proof cases
    case esc
    with "2.prems" obtain x y t' where "p_escape cs = Some (x, y)" "p_chars y = Some (t', r)"
      by (auto simp: p_chars.simps(2) dest!: prepend_res_SomeD split: option.splits)
    with IH(1)[of "(x, y)" x y t' r] esc p_escape_shorter[of cs x y] show ?thesis by auto
  next
    case ascii
    with "2.prems" obtain t' where "p_chars cs = Some (t', r)"
      by (auto simp: p_chars.simps(2) dest!: prepend_res_SomeD)
    with IH(2) ascii show ?thesis by fastforce
  next
    case high
    then have h: "c \<noteq> CHR 0x5C" "c \<noteq> CHR 0x22" "\<not> bval c < 32" "\<not> bval c < 128" by auto
    show ?thesis
    proof (cases "utf8_len (c # cs)")
      case None
      with "2.prems" h obtain t' where "p_chars cs = Some (t', r)"
        by (auto simp: p_chars.simps(2) dest!: prepend_res_SomeD)
      with IH(3) None h show ?thesis by fastforce
    next
      case (Some n)
      with "2.prems" h obtain t' where "p_chars (drop (n - 1) cs) = Some (t', r)"
        by (auto simp: p_chars.simps(2) dest!: prepend_res_SomeD)
      with IH(4)[of n t' r] Some h show ?thesis by auto
    qed
  qed (use "2.prems" in \<open>auto simp: p_chars.simps(2)\<close>)
qed

lemma take_digits_length: "take_digits s = (a, b) \<Longrightarrow> length a + length b = length s"
  by (metis Pair_inject length_append take_digits_def takeWhile_dropWhile_id)

lemma p_int_shorter: "p_int s = Some (i, r) \<Longrightarrow> length r < length s"
proof -
  have "length (dropWhile is_digit (c # r')) < length (c # r')" if "is_digit c" for c r'
    using that length_dropWhile_le[of is_digit r'] by simp
  then show "p_int s = Some (i, r) \<Longrightarrow> length r < length s"
    by (auto simp: p_int_def take_digits_def split: list.splits if_splits)
qed

lemma p_frac_length: "p_frac s = Some (f, r) \<Longrightarrow> length r \<le> length s"
  by (auto simp: p_frac_def dest: take_digits_length split: list.splits if_splits prod.splits)

lemma p_exp_length: "p_exp s = Some (f, r) \<Longrightarrow> length r \<le> length s"
  by (auto simp: p_exp_def Let_def dest!: take_digits_length split: list.splits if_splits prod.splits)

lemma p_number_shorter: "p_number s = Some (l, r) \<Longrightarrow> length r < length s"
  by (fastforce simp: p_number_def Let_def dest!: p_int_shorter p_frac_length p_exp_length
      split: option.splits prod.splits)

subsection \<open>Fuel\<close>

text \<open>How each parser can succeed.\<close>

lemma p_value_SucE:
  assumes "p_value (Suc n) d s = Some (v, r)"
  obtains (str) t r' where "s = CHR 0x22 # t" "p_chars t = Some (r', r)" "v = JStr r'"
  | (arr0) t where "s = CHR ''['' # t" "0 < d" "skip_ws t = CHR '']'' # r" "v = JArr []"
  | (arr) t e t' vs where "s = CHR ''['' # t" "0 < d" "skip_ws t = e # t'" "e \<noteq> CHR '']''"
      "p_elems n (d - 1) (e # t') = Some (vs, r)" "v = JArr vs"
  | (obj0) t where "s = CHR ''{'' # t" "0 < d" "skip_ws t = CHR ''}'' # r" "v = JObj []"
  | (obj) t e t' ms where "s = CHR ''{'' # t" "0 < d" "skip_ws t = e # t'" "e \<noteq> CHR ''}''"
      "p_members n (d - 1) (e # t') = Some (ms, r)" "v = JObj ms"
  | (lit) c t k where "s = c # t" "r = drop k t" "v = JNull \<or> (\<exists>b. v = JBool b)"
  | (num) l where "p_number s = Some (l, r)" "v = JNum l"
proof -
  obtain c t where s: "s = c # t"
    using assms by (cases s) (simp_all add: p_value.simps(2))
  show thesis
    using assms that unfolding s p_value.simps(2)
    by (auto split: if_splits option.splits list.splits prod.splits)
qed

lemma p_elems_SucE:
  assumes "p_elems (Suc n) d s = Some (vs, r)"
  obtains (last) v r1 where "p_value n d s = Some (v, r1)" "skip_ws r1 = CHR '']'' # r" "vs = [v]"
  | (more) v r1 r2 vs' where "p_value n d s = Some (v, r1)" "skip_ws r1 = CHR '','' # r2"
      "p_elems n d (skip_ws r2) = Some (vs', r)" "vs = v # vs'"
  using assms unfolding p_elems.simps(2)
  by (auto split: if_splits option.splits list.splits prod.splits)

lemma p_members_SucE:
  assumes "p_members (Suc n) d s = Some (ms, r)"
  obtains (last) t k r1 r2 v r3 where "s = CHR 0x22 # t" "p_chars t = Some (k, r1)"
      "skip_ws r1 = CHR '':'' # r2" "p_value n d (skip_ws r2) = Some (v, r3)"
      "skip_ws r3 = CHR ''}'' # r" "ms = [(k, v)]"
  | (more) t k r1 r2 v r3 r4 ms' where "s = CHR 0x22 # t" "p_chars t = Some (k, r1)"
      "skip_ws r1 = CHR '':'' # r2" "p_value n d (skip_ws r2) = Some (v, r3)"
      "skip_ws r3 = CHR '','' # r4" "p_members n d (skip_ws r4) = Some (ms', r)" "ms = (k, v) # ms'"
  using assms unfolding p_members.simps(2)
  by (auto split: if_splits option.splits list.splits prod.splits)

lemma p_rest_shorter:
  "(\<forall>d s v r. p_value n d s = Some (v, r) \<longrightarrow> length r < length s) \<and>
   (\<forall>d s vs r. p_elems n d s = Some (vs, r) \<longrightarrow> length r < length s) \<and>
   (\<forall>d s ms r. p_members n d s = Some (ms, r) \<longrightarrow> length r < length s)"
proof (induction n)
  case (Suc n)
  have V: "length r < length s" if "p_value (Suc n) d s = Some (v, r)" for d s v r
    using that
  proof (cases rule: p_value_SucE)
    case (str t r')
    then show ?thesis using p_chars_shorter by fastforce
  next
    case (arr t e t' vs)
    then show ?thesis using Suc.IH skip_ws_ConsD[of t e t'] by fastforce
  next
    case (obj t e t' ms)
    then show ?thesis using Suc.IH skip_ws_ConsD[of t e t'] by fastforce
  qed (auto dest: skip_ws_ConsD p_number_shorter)
  have E: "length r < length s" if "p_elems (Suc n) d s = Some (vs, r)" for d s vs r
    using that
  proof (cases rule: p_elems_SucE)
    case (last v r1)
    then have "length r1 < length s" using Suc.IH by blast
    then show ?thesis using skip_ws_ConsD[OF last(2)] by simp
  next
    case (more v r1 r2 vs')
    then have "length r1 < length s" "length r < length (skip_ws r2)" using Suc.IH by blast+
    then show ?thesis using skip_ws_ConsD[OF more(2)] skip_ws_length[of r2] by simp
  qed
  have M: "length r < length s" if "p_members (Suc n) d s = Some (ms, r)" for d s ms r
    using that
  proof (cases rule: p_members_SucE)
    case (last t k r1 r2 v r3)
    then have "length r3 < length (skip_ws r2)" using Suc.IH by blast
    then show ?thesis
      using last skip_ws_ConsD[OF last(3)] skip_ws_ConsD[OF last(5)] skip_ws_length[of r2]
        p_chars_shorter[OF last(2)] by simp
  next
    case (more t k r1 r2 v r3 r4 ms')
    then have "length r3 < length (skip_ws r2)" "length r < length (skip_ws r4)"
      using Suc.IH by blast+
    then show ?thesis
      using more skip_ws_ConsD[OF more(3)] skip_ws_ConsD[OF more(5)] skip_ws_length[of r2]
        skip_ws_length[of r4] p_chars_shorter[OF more(2)] by simp
  qed
  show ?case using V E M by blast
qed simp

lemma p_value_shorter: "p_value n d s = Some (v, r) \<Longrightarrow> length r < length s"
  using p_rest_shorter by blast

lemma p_fuel_step:
  "(\<forall>m d s. 2 * length s \<le> n \<longrightarrow> n \<le> m \<longrightarrow> p_value n d s = p_value m d s) \<and>
   (\<forall>m d s. 2 * length s < n \<longrightarrow> n \<le> m \<longrightarrow> p_elems n d s = p_elems m d s) \<and>
   (\<forall>m d s. 2 * length s < n \<longrightarrow> n \<le> m \<longrightarrow> p_members n d s = p_members m d s)"
proof (induction n)
  case 0
  have "p_value m d [] = None" for m d by (cases m) (simp_all add: p_value.simps(2))
  then show ?case by simp
next
  case (Suc n)
  have V: "p_value (Suc n) d s = p_value m' d s" if le: "2 * length s \<le> Suc n" "Suc n \<le> m'" for d s m'
  proof (cases s)
    case Nil
    then show ?thesis using le by (cases m') (simp_all add: p_value.simps(2))
  next
    case (Cons c t)
    obtain m where m: "m' = Suc m" using le by (cases m') auto
    have "2 * length (e # t') < n" if "skip_ws t = e # t'" for e t'
      using skip_ws_length[of t] that le Cons by simp
    then have "p_elems n (d - 1) (e # t') = p_elems m (d - 1) (e # t') \<and>
        p_members n (d - 1) (e # t') = p_members m (d - 1) (e # t')" if "skip_ws t = e # t'" for e t'
      using Suc.IH le m that by simp
    then show ?thesis
      unfolding Cons m p_value.simps(2) by (auto split: list.split)
  qed
  have E: "p_elems (Suc n) d s = p_elems m' d s" if le: "2 * length s < Suc n" "Suc n \<le> m'" for d s m'
  proof -
    obtain m where m: "m' = Suc m" using le by (cases m') auto
    have v: "p_value n d s = p_value m d s" using Suc.IH le m by simp
    have "p_elems n d (skip_ws r') = p_elems m d (skip_ws r')"
      if "p_value n d s = Some (x, r)" "skip_ws r = e # r'" for x r e r'
    proof -
      have "2 * length (skip_ws r') < n"
        using p_value_shorter[OF that(1)] skip_ws_ConsD[OF that(2)] skip_ws_length[of r'] le by simp
      then show ?thesis using Suc.IH le m by simp
    qed
    then show ?thesis
      unfolding m p_elems.simps(2) v[symmetric] by (auto split: option.split list.split)
  qed
  have M: "p_members (Suc n) d s = p_members m' d s" if le: "2 * length s < Suc n" "Suc n \<le> m'" for d s m'
  proof (cases s)
    case Nil
    then show ?thesis using le by (cases m') (simp_all add: p_members.simps(2))
  next
    case (Cons q t)
    obtain m where m: "m' = Suc m" using le by (cases m') auto
    have v: "p_value n d (skip_ws r1) = p_value m d (skip_ws r1)"
      if "p_chars t = Some (k, r)" "skip_ws r = e # r1" for k r e r1
    proof -
      have "2 * length (skip_ws r1) \<le> n"
        using p_chars_shorter[OF that(1)] skip_ws_ConsD[OF that(2)] skip_ws_length[of r1] le Cons by simp
      then show ?thesis using Suc.IH le m by simp
    qed
    have ms: "p_members n d (skip_ws r3) = p_members m d (skip_ws r3)"
      if "p_chars t = Some (k, r)" "skip_ws r = e # r1" "p_value m d (skip_ws r1) = Some (x, r2)"
        "skip_ws r2 = f # r3" for k r e r1 x r2 f r3
    proof -
      have "2 * length (skip_ws r3) < n"
        using p_chars_shorter[OF that(1)] skip_ws_ConsD[OF that(2)] skip_ws_length[of r1]
          p_value_shorter[OF that(3)] skip_ws_ConsD[OF that(4)] skip_ws_length[of r3] le Cons by simp
      then show ?thesis using Suc.IH le m by simp
    qed
    show ?thesis
      unfolding m Cons p_members.simps(2) using v ms by (auto split: option.split list.split)
  qed
  show ?case using V E M by blast
qed

lemma p_fuel_enough: "2 * length s \<le> n \<Longrightarrow> p_value n d s = p_value (2 * length s) d s"
  using p_fuel_step[of "2 * length s"] by (metis order_refl)

subsection \<open>Normal forms\<close>

definition num_literal :: "string \<Rightarrow> bool" where
  "num_literal l = (p_number l = Some (l, []))"

text \<open>
  What \<open>iface\<close> produces: numbers in the canonical text of their \<open>float64\<close>, maps without
  duplicate keys, strings that are valid UTF-8.
\<close>

fun json_norm :: "(string \<Rightarrow> string option) \<Rightarrow> json \<Rightarrow> bool" where
  "json_norm flt JNull = True"
| "json_norm flt (JBool b) = True"
| "json_norm flt (JNum l) = (num_literal l \<and> num_canon flt l = Some l)"
| "json_norm flt (JStr s) = utf8_ok s"
| "json_norm flt (JArr vs) = list_all (json_norm flt) vs"
| "json_norm flt (JObj ms) = (gomap_ok ms \<and> list_all (\<lambda>m. utf8_ok (fst m) \<and> json_norm flt (snd m)) ms)"

text \<open>A document whose numbers are literals and whose strings are valid UTF-8, in any member order.\<close>

fun json_raw :: "json \<Rightarrow> bool" where
  "json_raw JNull = True"
| "json_raw (JBool b) = True"
| "json_raw (JNum l) = num_literal l"
| "json_raw (JStr s) = utf8_ok s"
| "json_raw (JArr vs) = list_all json_raw vs"
| "json_raw (JObj ms) = list_all (\<lambda>m. utf8_ok (fst m) \<and> json_raw (snd m)) ms"

lemma json_norm_raw: "json_norm flt v \<Longrightarrow> json_raw v"
  by (induction v) (auto simp: list_all_iff intro: snds.intros)

fun json_depth :: "json \<Rightarrow> nat" where
  "json_depth (JArr vs) = Suc (foldr max (map json_depth vs) 0)"
| "json_depth (JObj ms) = Suc (foldr max (map (\<lambda>m. json_depth (snd m)) ms) 0)"
| "json_depth _ = 0"

lemma foldr_max_le: "foldr max xs 0 \<le> (d::nat) \<longleftrightarrow> (\<forall>x \<in> set xs. x \<le> d)"
  by (induction xs) auto

lemma le_foldr_max: "x \<in> set xs \<Longrightarrow> x \<le> foldr max xs (0::nat)"
  by (induction xs) auto

subsection \<open>Numbers before a delimiter\<close>

definition delim :: "string \<Rightarrow> bool" where
  "delim r = (r = [] \<or> hd r \<in> {CHR '','', CHR '']'', CHR ''}''})"

lemma delim_Cons [simp]:
  "delim (CHR '','' # r)" "delim (CHR '']'' # r)" "delim (CHR ''}'' # r)" "delim []"
  by (simp_all add: delim_def)

lemma delim_not_digit: "delim r \<Longrightarrow> takeWhile is_digit r = [] \<and> dropWhile is_digit r = r"
  by (cases r) (auto simp: delim_def is_digit_def)

lemma take_digits_append:
  assumes "take_digits s = (a, b)" "delim r"
  shows "take_digits (s @ r) = (a, b @ r)"
proof (cases "\<forall>c \<in> set s. is_digit c")
  case True
  then have "takeWhile is_digit (s @ r) = s" "dropWhile is_digit (s @ r) = r"
    using delim_not_digit[OF assms(2)]
    by (simp_all add: takeWhile_append2 dropWhile_append2)
  with True assms(1) show ?thesis
    by (auto simp: take_digits_def takeWhile_eq_all_conv[THEN iffD2] dropWhile_eq_Nil_conv[THEN iffD2])
next
  case False
  with assms(1) show ?thesis
    by (auto simp: take_digits_def takeWhile_append1 dropWhile_append1)
qed

lemma p_int_append: "p_int s = Some (i, b) \<Longrightarrow> delim r \<Longrightarrow> p_int (s @ r) = Some (i, b @ r)"
  using take_digits_append[of s] by (auto simp: p_int_def split: list.splits if_splits)

lemma p_frac_append: "p_frac s = Some (f, b) \<Longrightarrow> delim r \<Longrightarrow> p_frac (s @ r) = Some (f, b @ r)"
proof (cases s)
  case Nil
  assume "p_frac s = Some (f, b)" "delim r"
  with Nil show ?thesis by (cases r) (auto simp: p_frac_def delim_def)
next
  case (Cons c t)
  assume "p_frac s = Some (f, b)" "delim r"
  with Cons show ?thesis
    using take_digits_append[of t _ _ r]
    by (cases "take_digits t") (auto simp: p_frac_def split: if_splits)
qed

lemma p_exp_append: "p_exp s = Some (f, b) \<Longrightarrow> delim r \<Longrightarrow> p_exp (s @ r) = Some (f, b @ r)"
proof (cases s)
  case Nil
  assume "p_exp s = Some (f, b)" "delim r"
  with Nil show ?thesis by (cases r) (auto simp: p_exp_def delim_def)
next
  case (Cons c t)
  assume a: "p_exp s = Some (f, b)" "delim r"
  show ?thesis
  proof (cases t)
    case Nil
    with a Cons show ?thesis by (auto simp: p_exp_def take_digits_def split: if_splits)
  next
    case (Cons d u)
    define sg where "sg = (if d = CHR ''+'' \<or> d = CHR ''-'' then [d] else [])"
    obtain x y where xy: "take_digits (drop (length sg) (d # u)) = (x, y)"
      by (cases "take_digits (drop (length sg) (d # u))")
    then have "take_digits (drop (length sg) (d # u) @ r) = (x, y @ r)"
      using take_digits_append a(2) by blast
    moreover have "drop (length sg) (d # u) @ r = drop (length sg) (d # u @ r)"
      by (simp add: sg_def)
    ultimately show ?thesis
      using a(1) xy \<open>s = c # t\<close> Cons
      by (auto simp: p_exp_def sg_def[symmetric] split: if_splits)
  qed
qed

lemma p_number_append:
  assumes "p_number s = Some (l, b)" "delim r"
  shows "p_number (s @ r) = Some (l, b @ r)"
proof -
  define sg where "sg = (if has_prefix s ''-'' then ''-'' else [])"
  have ne: "s \<noteq> []" using p_number_shorter[OF assms(1)] by auto
  then have sg': "(if has_prefix (s @ r) ''-'' then ''-'' else []) = sg"
    "drop (length sg) (s @ r) = drop (length sg) s @ r"
    by (cases s; auto simp: sg_def has_prefix_Cons)+
  obtain i r1 f r2 e r3 where "p_int (drop (length sg) s) = Some (i, r1)" "p_frac r1 = Some (f, r2)"
    "p_exp r2 = Some (e, r3)" "l = sg @ i @ f @ e" "b = r3"
    using assms(1) unfolding p_number_def sg_def[symmetric] Let_def
    by (auto split: option.splits)
  then show ?thesis
    using p_int_append[OF _ assms(2)] p_frac_append[OF _ assms(2)] p_exp_append[OF _ assms(2)]
    unfolding p_number_def sg' Let_def by simp
qed

lemma num_literal_append: "num_literal l \<Longrightarrow> delim r \<Longrightarrow> p_number (l @ r) = Some (l, r)"
  using p_number_append[of l l "[]" r] by (simp add: num_literal_def)

lemma num_literal_head: "num_literal l \<Longrightarrow> \<exists>c r. l = c # r \<and> (c = CHR ''-'' \<or> is_digit c)"
proof -
  assume "num_literal l"
  then have n: "p_number l = Some (l, [])" by (simp add: num_literal_def)
  then obtain c r where l: "l = c # r" using p_number_shorter by (cases l) fastforce+
  have "c = CHR ''-'' \<or> is_digit c"
  proof (rule ccontr)
    assume no: "\<not> (c = CHR ''-'' \<or> is_digit c)"
    then have "c \<noteq> CHR ''0''" by (auto simp: is_digit_def)
    with no n l show False
      by (auto simp: p_number_def p_int_def has_prefix_Cons split: option.splits)
  qed
  with l show ?thesis by blast
qed

subsection \<open>Parsing what Marshal printed\<close>

definition value_start :: "char \<Rightarrow> bool" where
  "value_start c = (\<not> json_ws c \<and> c \<noteq> CHR '']'' \<and> c \<noteq> CHR ''}'')"

lemma digit_value_start: "c = CHR ''-'' \<or> is_digit c \<Longrightarrow>
  value_start c \<and> c \<noteq> CHR 0x22 \<and> c \<noteq> CHR ''['' \<and> c \<noteq> CHR ''{'' \<and> c \<noteq> CHR ''n'' \<and> c \<noteq> CHR ''t'' \<and> c \<noteq> CHR ''f''"
  by (auto simp: value_start_def json_ws_def is_digit_def)

lemma json_marshal_head: "json_raw v \<Longrightarrow> \<exists>c r. json_marshal v = c # r \<and> value_start c"
proof (cases v)
  case (JNum l)
  assume "json_raw v"
  with JNum show ?thesis using num_literal_head[of l] digit_value_start by auto
qed (auto simp: value_start_def json_ws_def enc_string_def)

lemma skip_ws_value: "value_start c \<Longrightarrow> skip_ws (c # r) = c # r"
  by (simp add: skip_ws_def value_start_def)

lemma skip_ws_marshal: "json_raw v \<Longrightarrow> skip_ws (json_marshal v @ r) = json_marshal v @ r"
  using json_marshal_head[of v] skip_ws_value by auto

lemma skip_ws_delim [simp]:
  "skip_ws (CHR '','' # r) = CHR '','' # r" "skip_ws (CHR '']'' # r) = CHR '']'' # r"
  "skip_ws (CHR ''}'' # r) = CHR ''}'' # r" "skip_ws (CHR '':'' # r) = CHR '':'' # r"
  "skip_ws (CHR 0x22 # r) = CHR 0x22 # r"
  by (simp_all add: skip_ws_def json_ws_def)

definition parses_back :: "json \<Rightarrow> bool" where
  "parses_back v = (\<forall>n d r. 2 * length (json_marshal v) \<le> n \<longrightarrow> json_depth v \<le> d \<longrightarrow> delim r \<longrightarrow>
     p_value n d (json_marshal v @ r) = Some (v, r))"

lemma join_with_Cons: "ys \<noteq> [] \<Longrightarrow> join_with c (x # ys) = x @ c # join_with c ys"
  by (cases ys) auto

lemma p_elems_marshal:
  assumes "vs \<noteq> []" "\<forall>v \<in> set vs. json_raw v \<and> parses_back v \<and> json_depth v \<le> d"
    "2 * length (join_with (CHR '','') (map json_marshal vs)) < n"
  shows "p_elems n d (join_with (CHR '','') (map json_marshal vs) @ CHR '']'' # r) = Some (vs, r)"
  using assms
proof (induction vs arbitrary: n)
  case (Cons v vs)
  obtain m where n: "n = Suc m" using Cons.prems(3) by (cases n) auto
  show ?case
  proof (cases "vs = []")
    case True
    with Cons.prems n show ?thesis
      by (simp add: p_elems.simps(2) parses_back_def)
  next
    case False
    define t where "t = join_with (CHR '','') (map json_marshal vs)"
    have len: "2 * length (json_marshal v) \<le> m" "2 * length t < m"
      using Cons.prems(3) n False by (simp_all add: join_with_Cons t_def)
    have rest: "p_elems m d (t @ CHR '']'' # r) = Some (vs, r)"
      using Cons.IH[of m] Cons.prems(2) False len by (simp add: t_def)
    obtain w ws where vs: "vs = w # ws" using False by (cases vs) auto
    have "\<exists>u. t = json_marshal w @ u"
      using vs by (cases ws) (auto simp: t_def)
    then have ws: "skip_ws (t @ CHR '']'' # r) = t @ CHR '']'' # r"
      using Cons.prems(2) vs skip_ws_marshal by fastforce
    have "p_value m d (json_marshal v @ CHR '','' # t @ CHR '']'' # r) = Some (v, CHR '','' # t @ CHR '']'' # r)"
      using Cons.prems(2) len by (simp add: parses_back_def)
    with rest ws show ?thesis
      using False by (simp add: n p_elems.simps(2) join_with_Cons t_def[symmetric])
  qed
qed simp

definition member_text :: "string \<times> json \<Rightarrow> string" where
  "member_text m = enc_string (fst m) @ CHR '':'' # json_marshal (snd m)"

lemma p_members_marshal:
  assumes "ms \<noteq> []"
    "\<forall>m \<in> set ms. utf8_ok (fst m) \<and> json_raw (snd m) \<and> parses_back (snd m) \<and> json_depth (snd m) \<le> d"
    "2 * length (join_with (CHR '','') (map member_text ms)) < n"
  shows "p_members n d (join_with (CHR '','') (map member_text ms) @ CHR ''}'' # r) = Some (ms, r)"
  using assms
proof (induction ms arbitrary: n)
  case (Cons e ms)
  obtain m where n: "n = Suc m" using Cons.prems(3) by (cases n) auto
  obtain k v where e: "e = (k, v)" by (cases e)
  have kv: "utf8_ok k" "json_raw v" "parses_back v" "json_depth v \<le> d"
    using Cons.prems(2) e by auto
  have head: "p_members (Suc m) d (member_text e @ f # u) =
      (if f = CHR ''}'' then Some ([(k, v)], u)
       else if f = CHR '','' then
         (case p_members m d (skip_ws u) of None \<Rightarrow> None | Some (ms, r4) \<Rightarrow> Some ((k, v) # ms, r4))
       else None)" if "f = CHR ''}'' \<or> f = CHR '',''" "2 * length (json_marshal v) \<le> m" for f u
  proof -
    have "p_value m d (json_marshal v @ f # u) = Some (v, f # u)"
      using kv that by (auto simp: parses_back_def)
    moreover have "p_chars (enc_chars k @ CHR 0x22 # CHR '':'' # json_marshal v @ f # u)
        = Some (k, CHR '':'' # json_marshal v @ f # u)"
      by (rule p_chars_enc_chars[OF kv(1)])
    moreover have "skip_ws (f # u) = f # u" using that(1) by auto
    ultimately show ?thesis
      using skip_ws_marshal[OF kv(2)]
      by (simp add: p_members.simps(2) member_text_def e enc_string_def)
  qed
  show ?case
  proof (cases "ms = []")
    case True
    with Cons.prems(3) n head[of "CHR ''}''" r] show ?thesis
      by (simp add: member_text_def e)
  next
    case False
    define t where "t = join_with (CHR '','') (map member_text ms)"
    have "length (json_marshal v) < length (member_text e)"
      by (simp add: member_text_def e)
    then have len: "2 * length (json_marshal v) \<le> m" "2 * length t < m"
      using Cons.prems(3) n False by (simp_all add: join_with_Cons t_def)
    have rest: "p_members m d (t @ CHR ''}'' # r) = Some (ms, r)"
      using Cons.IH[of m] Cons.prems(2) False len by (simp add: t_def)
    obtain w ws where ms: "ms = w # ws" using False by (cases ms) auto
    have "\<exists>u. t = CHR 0x22 # u"
      using ms by (cases ws) (auto simp: t_def member_text_def enc_string_def)
    then have "skip_ws (t @ CHR ''}'' # r) = t @ CHR ''}'' # r" by auto
    with rest len head[of "CHR '',''" "t @ CHR ''}'' # r"] show ?thesis
      using False by (simp add: n join_with_Cons t_def[symmetric] e)
  qed
qed simp

lemma json_marshal_JObj:
  "json_marshal (JObj ms) = CHR ''{'' # join_with (CHR '','') (map member_text ms) @ ''}''"
  by (simp add: member_text_def[abs_def])

text \<open>The closing brace ends an object, so any text may follow it.\<close>

lemma p_value_JObj:
  assumes "json_raw (JObj ms)" "\<forall>e \<in> set ms. parses_back (snd e)"
    "2 * length (json_marshal (JObj ms)) \<le> n" "json_depth (JObj ms) \<le> d"
  shows "p_value n d (json_marshal (JObj ms) @ r) = Some (JObj ms, r)"
proof -
  obtain m where m: "n = Suc m" using assms(3) by (cases n) auto
  show ?thesis
  proof (cases "ms = []")
    case True
    with assms(4) m show ?thesis by (simp add: p_value.simps(2))
  next
    case False
    define t where "t = join_with (CHR '','') (map member_text ms)"
    obtain w ws where "ms = w # ws" using False by (cases ms) auto
    then obtain u where t: "t = CHR 0x22 # u"
      by (cases ws) (auto simp: t_def member_text_def enc_string_def)
    have "foldr max (map (\<lambda>m. json_depth (snd m)) ms) 0 \<le> d - 1" using assms(4) by simp
    then have "\<forall>e \<in> set ms. json_depth (snd e) \<le> d - 1" by (simp add: foldr_max_le)
    then have "p_members m (d - 1) (t @ CHR ''}'' # r) = Some (ms, r)"
      unfolding t_def
      by (intro p_members_marshal)
         (use assms m False in \<open>auto simp: list_all_iff json_marshal_JObj simp del: json_marshal.simps\<close>)
    then show ?thesis
      using t assms(4) by (simp add: m p_value.simps(2) json_marshal_JObj t_def[symmetric] del: json_marshal.simps)
  qed
qed

lemma json_raw_parses_back: "json_raw v \<Longrightarrow> parses_back v"
proof (induction v)
  case (JNum l)
  then have "num_literal l" by simp
  from num_literal_head[OF this] obtain c t where l: "l = c # t" "c = CHR ''-'' \<or> is_digit c"
    by blast
  note st = digit_value_start[OF l(2)]
  have "p_value n d (l @ r) = Some (JNum l, r)" if le: "2 * length l \<le> n" and dl: "delim r" for n d r
  proof -
    obtain m where "n = Suc m" using le l by (cases n) auto
    then show ?thesis
      using JNum dl num_literal_append[of l r] st l(1)
      by (simp add: p_value.simps(2) has_prefix_Cons)
  qed
  then show ?case by (simp add: parses_back_def)
next
  case (JArr vs)
  show ?case
    unfolding parses_back_def
  proof (intro allI impI)
    fix n d r
    assume a: "2 * length (json_marshal (JArr vs)) \<le> n" "json_depth (JArr vs) \<le> d" "delim r"
    then obtain m where m: "n = Suc m" by (cases n) auto
    show "p_value n d (json_marshal (JArr vs) @ r) = Some (JArr vs, r)"
    proof (cases "vs = []")
      case True
      with a m show ?thesis by (simp add: p_value.simps(2))
    next
      case False
      define t where "t = join_with (CHR '','') (map json_marshal vs)"
      obtain w ws where vs: "vs = w # ws" using False by (cases vs) auto
      then have "\<exists>u. t = json_marshal w @ u" by (cases ws) (auto simp: t_def)
      then obtain c u where t: "t = c # u" "value_start c"
        using json_marshal_head[of w] JArr.prems vs by auto
      have "foldr max (map json_depth vs) 0 \<le> d - 1" using a(2) by simp
      then have "\<forall>v \<in> set vs. json_depth v \<le> d - 1" by (simp add: foldr_max_le)
      then have "p_elems m (d - 1) (t @ CHR '']'' # r) = Some (vs, r)"
        unfolding t_def
        by (intro p_elems_marshal) (use JArr a m False in \<open>auto simp: list_all_iff\<close>)
      then show ?thesis
        using t a by (simp add: m p_value.simps(2) t_def[symmetric] skip_ws_value value_start_def)
    qed
  qed
next
  case (JObj ms)
  have "\<forall>e \<in> set ms. parses_back (snd e)"
    using JObj.prems by (auto simp: list_all_iff intro: JObj.IH snds.intros)
  then show ?case using p_value_JObj[OF JObj.prems] by (simp add: parses_back_def)
next
  case (JStr s)
  have "p_value n d (enc_string s @ r) = Some (JStr s, r)" if "2 * length (enc_string s) \<le> n" for n d r
    using that JStr p_chars_enc_chars[of s r]
    by (cases n) (simp_all add: enc_string_def p_value.simps(2))
  then show ?case by (simp add: parses_back_def)
next
  case JNull
  show ?case unfolding parses_back_def
    by (intro allI impI, case_tac n) (auto simp: p_value.simps(2) has_prefix_Cons)
next
  case (JBool b)
  show ?case unfolding parses_back_def
    by (intro allI impI, case_tac n)
       (auto simp: p_value.simps(2) has_prefix_Cons split: if_splits)
qed

theorem json_parse_marshal:
  assumes "json_raw v" "json_depth v \<le> max_nesting"
  shows "json_parse (json_marshal v) = Some v"
proof -
  have "p_value (2 * length (json_marshal v)) max_nesting (json_marshal v @ []) = Some (v, [])"
    using json_raw_parses_back[OF assms(1)] assms(2) unfolding parses_back_def
    by (metis delim_Cons(4) order_refl)
  moreover have "skip_ws (json_marshal v) = json_marshal v"
    using skip_ws_marshal[OF assms(1), of "[]"] by simp
  ultimately show ?thesis
    by (simp add: json_parse_def skip_ws_def)
qed

text \<open>\<open>json.Encoder\<close> ends a value with a line break, which the parser skips.\<close>

lemma json_parse_object_line:
  assumes "json_raw (JObj ms)" "json_depth (JObj ms) \<le> max_nesting" "skip_ws r = []"
  shows "json_parse (json_marshal (JObj ms) @ r) = Some (JObj ms)"
proof -
  have "\<forall>e \<in> set ms. parses_back (snd e)"
    using assms(1) json_raw_parses_back by (auto simp: list_all_iff)
  then have "p_value (2 * length (json_marshal (JObj ms) @ r)) max_nesting (json_marshal (JObj ms) @ r) = Some (JObj ms, r)"
    using assms(1,2) by (intro p_value_JObj) (simp_all del: json_marshal.simps json_depth.simps)
  then show ?thesis
    using assms(3) skip_ws_marshal[OF assms(1), of r]
    by (simp add: json_parse_def Let_def del: json_marshal.simps)
qed

subsection \<open>Decoding into an interface value\<close>

text \<open>
  What is assumed of \<open>strconv\<close> and of the float printing of \<open>encoding/json\<close>, where it is a
  parameter: the printed text is a number literal, and parsing and printing it again changes nothing
  (Go prints the shortest text that reads back as the same value).
\<close>

definition float_text_ok :: "(string \<Rightarrow> string option) \<Rightarrow> bool" where
  "float_text_ok flt = (\<forall>l s. flt l = Some s \<longrightarrow> num_literal s \<and> num_canon flt s = Some s)"

lemma all_some_eq_Some: "all_some xs = Some ys \<longleftrightarrow> xs = map Some ys"
  by (induction xs arbitrary: ys rule: all_some.induct) (auto simp: Cons_eq_map_conv)

lemma map_Some_zipD:
  "map f ms = map Some ws \<Longrightarrow> (k, x) \<in> set (zip (map g ms) ws) \<Longrightarrow> \<exists>m \<in> set ms. g m = k \<and> f m = Some x"
proof (induction ms arbitrary: ws)
  case (Cons m ms)
  then show ?case by (cases ws) auto
qed simp

lemma map_Some_memD:
  "map f ms = map Some ws \<Longrightarrow> x \<in> set ws \<Longrightarrow> \<exists>m \<in> set ms. f m = Some x"
  by (metis image_iff image_set)

lemma set_mput_all_subset: "set (mput_all kvs m) \<subseteq> set kvs \<union> set m"
proof (induction kvs arbitrary: m)
  case (Cons e kvs)
  have "set (mput k v m') \<subseteq> insert (k, v) (set m')" for k and v :: 'a and m'
    by (induction k v m' rule: mput.induct) auto
  then show ?case using Cons[of "mput (fst e) (snd e) m"]
    by (cases e) (fastforce simp: mput_all_def)
qed (simp add: mput_all_def)

lemma mput_all_sorted: "gomap_ok ms \<Longrightarrow> mput_all ms mempty = ms"
  by (rule gomap_ext) (auto simp: mget_mput_all_gomap split: option.splits)

lemma iface_norm: "json_norm flt v \<Longrightarrow> iface flt v = Some v"
proof (induction v)
  case (JArr vs)
  then have "map (iface flt) vs = map Some vs"
    by (simp add: list_all_iff)
  then show ?case by (simp add: all_some_eq_Some)
next
  case (JObj ms)
  have "iface flt (snd m) = Some (snd m)" if "m \<in> set ms" for m
    using JObj.IH[OF that, of "snd m"] JObj.prems that by (auto simp: list_all_iff snds.simps)
  then have "all_some (map (\<lambda>m. iface flt (snd m)) ms) = Some (map snd ms)"
    by (simp add: all_some_eq_Some)
  then show ?case using JObj.prems by (simp add: zip_map_fst_snd mput_all_sorted)
qed auto

text \<open>Decoding what Marshal printed gives the value back.\<close>

theorem json_unmarshal_marshal:
  "json_norm flt v \<Longrightarrow> json_depth v \<le> max_nesting \<Longrightarrow>
   Option.bind (json_parse (json_marshal v)) (iface flt) = Some v"
  by (simp add: json_parse_marshal iface_norm json_norm_raw)

interpretation js: codec json_marshal json_parse "\<lambda>v. json_raw v \<and> json_depth v \<le> max_nesting"
  by unfold_locales (simp add: json_parse_marshal)

lemma iface_JObjD:
  assumes "iface flt (JObj ms) = Some w"
  shows "\<exists>ws. w = JObj (mput_all (zip (map fst ms) ws) mempty) \<and>
    map (\<lambda>m. iface flt (snd m)) ms = map Some ws"
proof -
  obtain ws where "all_some (map (\<lambda>m. iface flt (snd m)) ms) = Some ws"
    "w = JObj (mput_all (zip (map fst ms) ws) mempty)"
    using assms unfolding iface.simps map_option_eq_Some by blast
  then show ?thesis unfolding all_some_eq_Some by blast
qed

lemma iface_depth: "iface flt v = Some w \<Longrightarrow> json_depth w \<le> json_depth v"
proof (induction v arbitrary: w)
  case (JArr vs)
  then obtain ws where w: "w = JArr ws" "map (iface flt) vs = map Some ws"
    by (auto simp: all_some_eq_Some)
  have "json_depth x \<le> foldr max (map json_depth vs) 0" if x: "x \<in> set ws" for x
  proof -
    obtain v where v: "v \<in> set vs" "iface flt v = Some x" using map_Some_memD[OF w(2) x] by blast
    then have "json_depth x \<le> json_depth v" using JArr.IH by blast
    moreover have "json_depth v \<le> foldr max (map json_depth vs) 0"
      using v(1) by (simp add: le_foldr_max)
    ultimately show ?thesis by (rule order_trans)
  qed
  then show ?case using w(1) by (simp add: foldr_max_le)
next
  case (JObj ms)
  obtain ws where w: "w = JObj (mput_all (zip (map fst ms) ws) mempty)"
    "map (\<lambda>m. iface flt (snd m)) ms = map Some ws"
    using iface_JObjD[OF JObj.prems] by blast
  have "json_depth (snd e) \<le> foldr max (map (\<lambda>m. json_depth (snd m)) ms) 0"
    if e: "e \<in> set (mput_all (zip (map fst ms) ws) mempty)" for e
  proof -
    have kv: "(fst e, snd e) \<in> set (zip (map fst ms) ws)"
      using subsetD[OF set_mput_all_subset e] by simp
    have ex: "\<exists>m\<in>set ms. fst m = fst e \<and> iface flt (snd m) = Some (snd e)"
      by (rule map_Some_zipD[where f = "\<lambda>m. iface flt (snd m)", OF w(2) kv])
    from ex obtain m where m: "m \<in> set ms" "iface flt (snd m) = Some (snd e)" by blast
    then have "json_depth (snd e) \<le> json_depth (snd m)" using JObj.IH snds.intros by metis
    moreover have "json_depth (snd m) \<le> foldr max (map (\<lambda>m. json_depth (snd m)) ms) 0"
      using m(1) by (intro le_foldr_max) auto
    ultimately show ?thesis by (rule order_trans)
  qed
  then show ?case using w(1) by (simp add: foldr_max_le)
qed auto

lemma float_text_okD:
  "float_text_ok flt \<Longrightarrow> flt l = Some s \<Longrightarrow> num_literal s \<and> num_canon flt s = Some s"
  by (simp add: float_text_ok_def)

text \<open>What the parser returns: every string is valid UTF-8, and no more containers nest than allowed.\<close>

fun json_text :: "json \<Rightarrow> bool" where
  "json_text (JStr s) = utf8_ok s"
| "json_text (JArr vs) = list_all json_text vs"
| "json_text (JObj ms) = list_all (\<lambda>m. utf8_ok (fst m) \<and> json_text (snd m)) ms"
| "json_text _ = True"

lemma small_int_num_literal: "small_int_literal l \<Longrightarrow> num_literal l"
proof -
  assume sm: "small_int_literal l"
  define sg where "sg = (if has_prefix l ''-'' then ''-'' else [])"
  define ds where "ds = drop (length sg) l"
  have ds: "list_all is_digit ds" "ds \<noteq> []" "hd ds = CHR ''0'' \<longrightarrow> length ds = 1"
    using sm by (auto simp: small_int_literal_def ds_def sg_def Let_def split: if_splits)
  have l: "l = sg @ ds"
    by (auto simp: sg_def ds_def has_prefix_iff)
  obtain c r where c: "ds = c # r" using ds(2) by (cases ds) auto
  have tw: "takeWhile is_digit ds = ds" "dropWhile is_digit ds = []"
    using ds(1) by (auto simp: takeWhile_eq_all_conv dropWhile_eq_Nil_conv list_all_iff)
  have "p_int ds = Some (ds, [])"
  proof (cases "c = CHR ''0''")
    case True
    with c ds(3) have "r = []" by simp
    with c True show ?thesis by (simp add: p_int_def)
  next
    case False
    with c ds(1) tw show ?thesis by (simp add: p_int_def take_digits_def)
  qed
  then have "p_number l = Some (sg @ ds, [])"
    by (simp add: p_number_def sg_def[symmetric] ds_def[symmetric] p_frac_def p_exp_def Let_def)
  then show ?thesis using l by (simp add: num_literal_def)
qed

lemma Suc_foldr_max_le: "0 < d \<Longrightarrow> \<forall>x \<in> set xs. x \<le> d - Suc 0 \<Longrightarrow> Suc (foldr max xs 0) \<le> d"
  using foldr_max_le[of xs "d - Suc 0"] by simp

lemma p_rest_wf:
  "(\<forall>d s v r. p_value n d s = Some (v, r) \<longrightarrow> json_text v \<and> json_depth v \<le> d) \<and>
   (\<forall>d s vs r. p_elems n d s = Some (vs, r) \<longrightarrow> (\<forall>v \<in> set vs. json_text v \<and> json_depth v \<le> d)) \<and>
   (\<forall>d s ms r. p_members n d s = Some (ms, r) \<longrightarrow>
      (\<forall>m \<in> set ms. utf8_ok (fst m) \<and> json_text (snd m) \<and> json_depth (snd m) \<le> d))"
proof (induction n)
  case (Suc n)
  have V: "json_text v \<and> json_depth v \<le> d" if "p_value (Suc n) d s = Some (v, r)" for d s v r
    using that
  proof (cases rule: p_value_SucE)
    case (arr t e t' vs)
    then have "\<forall>v \<in> set vs. json_text v \<and> json_depth v \<le> d - 1" using Suc.IH by blast
    then show ?thesis using arr by (simp add: list_all_iff Suc_foldr_max_le)
  next
    case (obj t e t' ms)
    then have "\<forall>m \<in> set ms. utf8_ok (fst m) \<and> json_text (snd m) \<and> json_depth (snd m) \<le> d - 1"
      using Suc.IH by blast
    then show ?thesis using obj by (simp add: list_all_iff Suc_foldr_max_le)
  qed (auto dest: p_chars_utf8)
  have E: "\<forall>v \<in> set vs. json_text v \<and> json_depth v \<le> d"
    if "p_elems (Suc n) d s = Some (vs, r)" for d s vs r
    using that
  proof (cases rule: p_elems_SucE)
    case (last v r1)
    then show ?thesis using Suc.IH by simp blast
  next
    case (more v r1 r2 vs')
    then have "json_text v \<and> json_depth v \<le> d" "\<forall>v \<in> set vs'. json_text v \<and> json_depth v \<le> d"
      using Suc.IH by blast+
    then show ?thesis using more by simp
  qed
  have M: "\<forall>m \<in> set ms. utf8_ok (fst m) \<and> json_text (snd m) \<and> json_depth (snd m) \<le> d"
    if "p_members (Suc n) d s = Some (ms, r)" for d s ms r
    using that
  proof (cases rule: p_members_SucE)
    case (last t k r1 r2 v r3)
    then have "json_text v \<and> json_depth v \<le> d" using Suc.IH by blast
    then show ?thesis using last by (auto dest: p_chars_utf8)
  next
    case (more t k r1 r2 v r3 r4 ms')
    then have "json_text v \<and> json_depth v \<le> d"
      "\<forall>m \<in> set ms'. utf8_ok (fst m) \<and> json_text (snd m) \<and> json_depth (snd m) \<le> d"
      using Suc.IH by blast+
    then show ?thesis using more by (auto dest: p_chars_utf8)
  qed
  show ?case using V E M by blast
qed simp

lemma p_value_wf: "p_value n d s = Some (v, r) \<Longrightarrow> json_text v \<and> json_depth v \<le> d"
  using p_rest_wf by blast

lemma iface_is_norm:
  assumes "float_text_ok flt"
  shows "json_text v \<Longrightarrow> iface flt v = Some w \<Longrightarrow> json_norm flt w"
proof (induction v arbitrary: w)
  case (JNum l)
  show ?case
  proof (cases "small_int_literal l")
    case True
    with JNum show ?thesis by (auto simp: num_canon_def small_int_num_literal)
  next
    case False
    with JNum obtain z where "flt l = Some z" "w = JNum z" by (auto simp: num_canon_def)
    then show ?thesis using float_text_okD[OF assms] by simp
  qed
next
  case (JArr vs)
  then obtain ws where w: "w = JArr ws" "map (iface flt) vs = map Some ws"
    by (auto simp: all_some_eq_Some)
  have "json_norm flt x" if "x \<in> set ws" for x
    using map_Some_memD[OF w(2) that] JArr by (auto simp: list_all_iff)
  then show ?case using w(1) by (simp add: list_all_iff)
next
  case (JObj ms)
  obtain ws where w: "w = JObj (mput_all (zip (map fst ms) ws) mempty)"
    "map (\<lambda>m. iface flt (snd m)) ms = map Some ws"
    using iface_JObjD[OF JObj.prems(2)] by blast
  have "utf8_ok (fst e) \<and> json_norm flt (snd e)"
    if e: "e \<in> set (mput_all (zip (map fst ms) ws) mempty)" for e
  proof -
    have kv: "(fst e, snd e) \<in> set (zip (map fst ms) ws)"
      using subsetD[OF set_mput_all_subset e] by simp
    have ex: "\<exists>m\<in>set ms. fst m = fst e \<and> iface flt (snd m) = Some (snd e)"
      by (rule map_Some_zipD[where f = "\<lambda>m. iface flt (snd m)", OF w(2) kv])
    from ex obtain m where m: "m \<in> set ms" "fst m = fst e" "iface flt (snd m) = Some (snd e)" by blast
    have raw: "utf8_ok (fst m)" "json_text (snd m)"
      using JObj.prems(1) m(1) by (simp_all add: list_all_iff)
    have "json_norm flt (snd e)"
      by (rule JObj.IH[OF m(1) _ raw(2) m(3)]) (simp add: snds.simps)
    then show ?thesis using raw(1) m(2) by simp
  qed
  then show ?case using w(1) by (simp add: list_all_iff)
qed auto

lemma json_parse_wf: "json_parse b = Some v \<Longrightarrow> json_text v \<and> json_depth v \<le> max_nesting"
  by (auto simp: json_parse_def Let_def dest: p_value_wf split: option.splits if_splits)

end
