(* ===== verification/Externals.thy ===== *)
theory Externals
  imports GoJSONLaws
begin

section \<open>Code that is not in the repository\<close>

text \<open>
  The components take what they call outside the repository as arguments. \<open>ext\<close> gathers the
  pure library functions: the two conversions of \<open>sigs.k8s.io/yaml\<close>, and the parts of Go's
  standard library that \<open>GoStrings\<close>, \<open>GoPath\<close> and \<open>GoJSON\<close> leave open (lower-casing of a string
  with a non-ASCII byte, \<open>text/template\<close> beyond the fragment of \<open>ExportPath\<close>, the text of a
  \<open>float64\<close>, which strings \<open>net/url\<close> parses). \<open>unstr\<close> is the API of \<open>unstructured.Unstructured\<close>, \<open>client\<close> the
  Kubernetes client and the HTTP client, both over a state \<open>'w\<close> of the world outside. Every call
  that reaches the world is also recorded in a log, so that a property can speak of the effects.
\<close>

datatype gvk = GVK (gvk_group: string) (gvk_version: string) (gvk_kind: string)

datatype tmpl_error = TmplParse string | TmplExec string

record ext =
  x_lower :: "string \<Rightarrow> string"
  x_template :: "string \<Rightarrow> string \<Rightarrow> string \<Rightarrow> string \<Rightarrow> tmpl_error + string"
  x_float :: "string \<Rightarrow> string option"
  x_y2j :: "bytes \<Rightarrow> bytes option"
  x_j2y :: "bytes \<Rightarrow> bytes option"
  x_url_ok :: "string \<Rightarrow> bool"

record 'o unstr =
  u_empty :: 'o
  u_unmarshal :: "bytes \<Rightarrow> 'o option"
  u_marshal :: "'o \<Rightarrow> bytes option"
  u_apiversion :: "'o \<Rightarrow> string"
  u_kind :: "'o \<Rightarrow> string"
  u_namespace :: "'o \<Rightarrow> string"
  u_name :: "'o \<Rightarrow> string"
  u_annotations :: "'o \<Rightarrow> string gomap option"
  u_set_annotations :: "string gomap \<Rightarrow> 'o \<Rightarrow> 'o"
  u_set_gvk :: "gvk \<Rightarrow> 'o \<Rightarrow> 'o"
  u_set_namespace :: "string \<Rightarrow> 'o \<Rightarrow> 'o"
  u_set_name :: "string \<Rightarrow> 'o \<Rightarrow> 'o"

text \<open>An error of the API server: \<open>apierrors.IsNotFound\<close> separates the two.\<close>

datatype api_error = ApiNotFound | ApiOther string

record http_request =
  rq_url :: string
  rq_headers :: "(string \<times> string) list"

record http_response =
  rs_status :: int
  rs_body :: bytes
  rs_read_error :: bool

datatype 'o call =
    PatchCall 'o string bool
  | DeleteCall 'o
  | GetCall gvk string string
  | HttpCall http_request

text \<open>
  The clients. \<open>c_patch\<close> is server-side apply with its field owner and the force flag;
  \<open>c_http\<close> is \<open>httpClient.Do\<close>: no response when the transport fails.
\<close>

record ('o, 'w) client =
  c_get :: "gvk \<Rightarrow> string \<Rightarrow> string \<Rightarrow> 'w \<Rightarrow> (api_error + 'o) \<times> 'w"
  c_patch :: "'o \<Rightarrow> string \<Rightarrow> bool \<Rightarrow> 'w \<Rightarrow> api_error option \<times> 'w"
  c_delete :: "'o \<Rightarrow> 'w \<Rightarrow> api_error option \<times> 'w"
  c_http :: "http_request \<Rightarrow> 'w \<Rightarrow> http_response option \<times> 'w"

record ('o, 'w) world =
  w_state :: 'w
  w_calls :: "'o call list"

definition do_patch ::
  "('o, 'w) client \<Rightarrow> 'o \<Rightarrow> string \<Rightarrow> bool \<Rightarrow> ('o, 'w) world \<Rightarrow> api_error option \<times> ('o, 'w) world" where
  "do_patch C ob owner force w =
     (let (r, s) = c_patch C ob owner force (w_state w)
      in (r, \<lparr> w_state = s, w_calls = w_calls w @ [PatchCall ob owner force] \<rparr>))"

definition do_delete ::
  "('o, 'w) client \<Rightarrow> 'o \<Rightarrow> ('o, 'w) world \<Rightarrow> api_error option \<times> ('o, 'w) world" where
  "do_delete C ob w =
     (let (r, s) = c_delete C ob (w_state w)
      in (r, \<lparr> w_state = s, w_calls = w_calls w @ [DeleteCall ob] \<rparr>))"

definition do_get ::
  "('o, 'w) client \<Rightarrow> gvk \<Rightarrow> string \<Rightarrow> string \<Rightarrow> ('o, 'w) world \<Rightarrow> (api_error + 'o) \<times> ('o, 'w) world" where
  "do_get C g ns n w =
     (let (r, s) = c_get C g ns n (w_state w)
      in (r, \<lparr> w_state = s, w_calls = w_calls w @ [GetCall g ns n] \<rparr>))"

definition do_http ::
  "('o, 'w) client \<Rightarrow> http_request \<Rightarrow> ('o, 'w) world \<Rightarrow> http_response option \<times> ('o, 'w) world" where
  "do_http C q w =
     (let (r, s) = c_http C q (w_state w)
      in (r, \<lparr> w_state = s, w_calls = w_calls w @ [HttpCall q] \<rparr>))"

lemma do_calls [simp]:
  "w_calls (snd (do_patch C ob ow f w)) = w_calls w @ [PatchCall ob ow f]"
  "w_calls (snd (do_delete C ob w)) = w_calls w @ [DeleteCall ob]"
  "w_calls (snd (do_get C g ns n w)) = w_calls w @ [GetCall g ns n]"
  "w_calls (snd (do_http C q w)) = w_calls w @ [HttpCall q]"
  by (simp_all add: do_patch_def do_delete_def do_get_def do_http_def split: prod.splits)

text \<open>The laws of the annotation accessors the loop break relies on (documented getters and setters).\<close>

definition unstr_laws :: "'o unstr \<Rightarrow> bool" where
  "unstr_laws U =
     (\<forall>a ob. a \<noteq> mempty \<longrightarrow> u_annotations U (u_set_annotations U a ob) = Some a)"

lemma unstr_lawsD:
  "unstr_laws U \<Longrightarrow> a \<noteq> mempty \<Longrightarrow> u_annotations U (u_set_annotations U a ob) = Some a"
  unfolding unstr_laws_def by blast

end
