(* ===== verification/ExportPath.thy ===== *)
theory ExportPath
  imports Externals Config
begin

section \<open>internal/inventory/export_path.go and gvk.go: where an object is exported\<close>

text \<open>
  The plural directory segment of a kind and the rendering of \<open>EXPORT_PATH_TEMPLATE\<close>. The model
  contains the fragment of \<open>text/template\<close> made of literal text and actions \<open>{{.Field}}\<close> with
  optional blanks inside the braces (every template the documentation shows); any other template is
  handed to \<open>x_template\<close>, so \<open>RenderExportPath\<close> is defined on every template.
\<close>

definition ApplicationGVK :: gvk where
  "ApplicationGVK = GVK ''argoproj.io'' ''v1alpha1'' ''Application''"

definition ApplicationSetGVK :: gvk where
  "ApplicationSetGVK = GVK ''argoproj.io'' ''v1alpha1'' ''ApplicationSet''"

definition lower_ascii :: "char \<Rightarrow> char" where
  "lower_ascii c = (if 65 \<le> bval c \<and> bval c \<le> 90 then byte (bval c + 32) else c)"

definition to_lower :: "ext \<Rightarrow> string \<Rightarrow> string" where
  "to_lower X s = (if list_all (\<lambda>c. bval c < 128) s then map lower_ascii s else x_lower X s)"

definition ArgoPluralKind :: "ext \<Rightarrow> string \<Rightarrow> string" where
  "ArgoPluralKind X kind =
     (if kind = ''Application'' then ''applications''
      else if kind = ''ApplicationSet'' then ''applicationsets''
      else to_lower X kind @ ''s'')"

record exportPathData =
  PluralKind :: string
  Namespace :: string
  Name :: string

subsection \<open>Templates\<close>

datatype tmpl_seg = Lit string | Field string

definition tmpl_blank :: "char \<Rightarrow> bool" where
  "tmpl_blank c = (c \<in> {CHR 0x20, CHR 0x09, CHR 0x0A, CHR 0x0D})"

definition strip_blanks :: "string \<Rightarrow> string" where
  "strip_blanks s = rev (dropWhile tmpl_blank (rev (dropWhile tmpl_blank s)))"

definition tmpl_fields :: "string list" where
  "tmpl_fields = [''PluralKind'', ''Namespace'', ''Name'']"

definition tmpl_action :: "string \<Rightarrow> tmpl_seg option" where
  "tmpl_action s =
     (let t = strip_blanks s in
      if has_prefix t ''.'' \<and> drop 1 t \<in> set tmpl_fields then Some (Field (drop 1 t)) else None)"

function tmpl_segs :: "string \<Rightarrow> tmpl_seg list option" where
  "tmpl_segs s =
     (case index_of s ''{{'' of
        None \<Rightarrow> Some [Lit s]
      | Some i \<Rightarrow>
          (case index_of (drop (i + 2) s) ''}}'' of
             None \<Rightarrow> None
           | Some j \<Rightarrow>
               (case tmpl_action (take j (drop (i + 2) s)) of
                  None \<Rightarrow> None
                | Some f \<Rightarrow> map_option (\<lambda>r. Lit (take i s) # f # r)
                                      (tmpl_segs (drop (i + 2 + j + 2) s)))))"
  by auto
termination
proof (relation "measure length")
  fix s i j f
  assume "index_of s ''{{'' = Some i"
  then have "i + 2 \<le> length s" using index_of_bound[of s "''{{''" i] by simp
  then show "(drop (i + 2 + j + 2) s, s) \<in> measure length" by simp
qed simp

declare tmpl_segs.simps [simp del]

definition field_value :: "exportPathData \<Rightarrow> string \<Rightarrow> string" where
  "field_value d f =
     (if f = ''PluralKind'' then PluralKind d
      else if f = ''Namespace'' then Namespace d
      else Name d)"

primrec exec_seg :: "exportPathData \<Rightarrow> tmpl_seg \<Rightarrow> string" where
  "exec_seg d (Lit s) = s"
| "exec_seg d (Field f) = field_value d f"

definition RenderExportPath :: "ext \<Rightarrow> string \<Rightarrow> string \<Rightarrow> string \<Rightarrow> string \<Rightarrow> tmpl_error + string" where
  "RenderExportPath X tmplStr kind namespace name =
     (let d = \<lparr> PluralKind = ArgoPluralKind X kind, Namespace = namespace, Name = name \<rparr>
      in case tmpl_segs tmplStr of
           Some segs \<Rightarrow> Inr (concat (map (exec_seg d) segs))
         | None \<Rightarrow> x_template X tmplStr (PluralKind d) (Namespace d) (Name d))"

subsection \<open>The default template\<close>

lemma tmpl_segs_default:
  "tmpl_segs defaultExportPathTemplate =
     Some [Lit ''inventory/'', Field ''PluralKind'', Lit ''/'', Field ''Namespace'', Lit ''/'',
           Field ''Name'', Lit ''.yaml'']"
  by code_simp

lemma render_default:
  "RenderExportPath X defaultExportPathTemplate kind ns name =
     Inr (''inventory/'' @ ArgoPluralKind X kind @ ''/'' @ ns @ ''/'' @ name @ ''.yaml'')"
  by (simp add: RenderExportPath_def tmpl_segs_default field_value_def)

lemma plural_Application [simp]: "ArgoPluralKind X ''Application'' = ''applications''"
  and plural_ApplicationSet [simp]: "ArgoPluralKind X ''ApplicationSet'' = ''applicationsets''"
  by (simp_all add: ArgoPluralKind_def)

text \<open>The kinds the two reconcilers pass.\<close>

definition argo_kind :: "string \<Rightarrow> bool" where
  "argo_kind k = (k = ''Application'' \<or> k = ''ApplicationSet'')"

lemma plural_inject:
  "argo_kind k \<Longrightarrow> argo_kind k' \<Longrightarrow> ArgoPluralKind X k = ArgoPluralKind X k' \<longleftrightarrow> k = k'"
  by (auto simp: argo_kind_def)

lemma plural_proper: "argo_kind k \<Longrightarrow> proper_elem (ArgoPluralKind X k)"
  by (auto simp: argo_kind_def proper_elem_def)

lemma join_slash_3: "join_slash [a, b, c] = a @ ''/'' @ b @ ''/'' @ c"
  by simp

lemma triple_inject:
  assumes "CHR ''/'' \<notin> set a" "CHR ''/'' \<notin> set b" "CHR ''/'' \<notin> set c"
    "CHR ''/'' \<notin> set a'" "CHR ''/'' \<notin> set b'" "CHR ''/'' \<notin> set c'"
  shows "a @ ''/'' @ b @ ''/'' @ c = a' @ ''/'' @ b' @ ''/'' @ c' \<longleftrightarrow> a = a' \<and> b = b' \<and> c = c'"
proof -
  have "split_slash (join_slash [a, b, c]) = [a, b, c]"
    by (rule split_join_slash) (use assms in auto)
  moreover have "split_slash (join_slash [a', b', c']) = [a', b', c']"
    by (rule split_join_slash) (use assms in auto)
  ultimately show ?thesis by (metis join_slash_3 list.inject)
qed

lemma proper_no_slash: "proper_elem x \<Longrightarrow> CHR ''/'' \<notin> set x"
  by (simp add: proper_elem_def)

lemma proper_not_Nil: "proper_elem x \<Longrightarrow> x \<noteq> []"
  by (simp add: proper_elem_def)

end
