(* ===== verification/GoOS.thy ===== *)
theory GoOS
  imports GoPath "HOL-Library.Sublist"
begin

section \<open>The file system calls of os and path/filepath\<close>

text \<open>
  A file system is a partial map from absolute paths, as lists of elements, to files and
  directories. The calls are those the Git worker makes, with the errors that depend on the tree
  (a missing element, a file where a directory is needed, a directory where a file is); symbolic
  links, permissions and device errors are outside the model, so the calls resolve a path by its
  elements. \<open>os.IsNotExist\<close> is \<open>ENOENT\<close>.
\<close>

datatype node = File bytes | Dir

datatype errno = ENOENT | ENOTDIR | EISDIR | ENOTEMPTY

type_synonym fs = "string list \<Rightarrow> node option"

text \<open>\<open>filepath.Join(dir, rel)\<close> and the elements of an absolute path.\<close>

definition filepath_join :: "string \<Rightarrow> string \<Rightarrow> string" where
  "filepath_join d rel = path_join [d, rel]"

definition fs_path :: "string \<Rightarrow> string list" where
  "fs_path p = path_elems p"

text \<open>Path resolution: every element but the last has to be a directory.\<close>

fun walk :: "fs \<Rightarrow> string list \<Rightarrow> string list \<Rightarrow> errno option" where
  "walk f pre [] = None"
| "walk f pre (x # xs) =
     (case f pre of
        None \<Rightarrow> Some ENOENT
      | Some (File _) \<Rightarrow> Some ENOTDIR
      | Some Dir \<Rightarrow> walk f (pre @ [x]) xs)"

definition fs_stat :: "fs \<Rightarrow> string list \<Rightarrow> errno + node" where
  "fs_stat f p =
     (case walk f [] p of
        Some e \<Rightarrow> Inl e
      | None \<Rightarrow> (case f p of None \<Rightarrow> Inl ENOENT | Some n \<Rightarrow> Inr n))"

text \<open>\<open>os.MkdirAll\<close>: the missing elements are made, from the root down.\<close>

fun mkdirs :: "string list \<Rightarrow> string list \<Rightarrow> fs \<Rightarrow> errno + fs" where
  "mkdirs pre xs f =
     (case f pre of
        Some (File _) \<Rightarrow> Inl ENOTDIR
      | _ \<Rightarrow> (let g = f(pre \<mapsto> Dir) in
             case xs of [] \<Rightarrow> Inr g | x # r \<Rightarrow> mkdirs (pre @ [x]) r g))"

declare mkdirs.simps [simp del]

definition fs_mkdir_all :: "string list \<Rightarrow> fs \<Rightarrow> errno + fs" where
  "fs_mkdir_all p f = mkdirs [] p f"

definition fs_write_file :: "string list \<Rightarrow> bytes \<Rightarrow> fs \<Rightarrow> errno + fs" where
  "fs_write_file p c f =
     (case walk f [] p of
        Some e \<Rightarrow> Inl e
      | None \<Rightarrow> (case f p of Some Dir \<Rightarrow> Inl EISDIR | _ \<Rightarrow> Inr (f(p \<mapsto> File c))))"

text \<open>
  \<open>os.Remove\<close> of a file or an empty directory. A directory is empty when nothing
  exists below it.
\<close>

definition fs_dir_empty :: "fs \<Rightarrow> string list \<Rightarrow> bool" where
  "fs_dir_empty f p = (\<forall>q. strict_prefix p q \<longrightarrow> f q = None)"

definition fs_remove :: "string list \<Rightarrow> fs \<Rightarrow> errno + fs" where
  "fs_remove p f =
     (case fs_stat f p of
        Inl e \<Rightarrow> Inl e
      | Inr (File _) \<Rightarrow> Inr (f(p := None))
      | Inr Dir \<Rightarrow> if fs_dir_empty f p then Inr (f(p := None)) else Inl ENOTEMPTY)"

text \<open>\<open>os.Rename\<close> of a file (the worker renames nothing else).\<close>

definition fs_rename_file :: "string list \<Rightarrow> string list \<Rightarrow> fs \<Rightarrow> errno + fs" where
  "fs_rename_file p q f =
     (case fs_stat f p of
        Inl e \<Rightarrow> Inl e
      | Inr n \<Rightarrow>
          (case walk f [] q of
             Some e \<Rightarrow> Inl e
           | None \<Rightarrow>
               (case f q of
                  Some Dir \<Rightarrow> Inl EISDIR
                | _ \<Rightarrow> Inr ((f(p := None))(q \<mapsto> n)))))"

definition fs_remove_all :: "string list \<Rightarrow> fs \<Rightarrow> fs" where
  "fs_remove_all p f = (\<lambda>q. if prefix p q then None else f q)"

subsection \<open>Resolution on trees\<close>

text \<open>A tree: whatever exists has directories above it.\<close>

definition fs_tree :: "fs \<Rightarrow> bool" where
  "fs_tree f = (\<forall>p q. strict_prefix p q \<longrightarrow> f q \<noteq> None \<longrightarrow> f p = Some Dir)"

lemma walk_None_iff:
  "walk f pre xs = None \<longleftrightarrow> (\<forall>ys. strict_prefix ys xs \<longrightarrow> f (pre @ ys) = Some Dir)"
proof (induction xs arbitrary: pre)
  case (Cons x xs)
  have split: "(\<forall>ys. strict_prefix ys (x # xs) \<longrightarrow> P ys) \<longleftrightarrow>
      P [] \<and> (\<forall>ys. strict_prefix ys xs \<longrightarrow> P (x # ys))" for P
    by (metis list.exhaust strict_prefix_simps(2) strict_prefix_simps(3))
  show ?case
    unfolding split using Cons.IH[of "pre @ [x]"] by (auto split: option.splits node.splits)
qed simp

lemma walk_tree:
  assumes "fs_tree f" "f p \<noteq> None"
  shows "walk f [] p = None"
  using assms by (auto simp: walk_None_iff fs_tree_def)

lemma fs_stat_tree:
  assumes "fs_tree f"
  shows "fs_stat f p = Inr n \<longleftrightarrow> f p = Some n"
  using walk_tree[OF assms, of p] by (auto simp: fs_stat_def split: option.splits)

text \<open>No file stands where a directory above \<open>p\<close> has to be.\<close>

definition no_file_above :: "fs \<Rightarrow> string list \<Rightarrow> bool" where
  "no_file_above f p = (\<forall>q c. strict_prefix q p \<longrightarrow> f q \<noteq> Some (File c))"

lemma walk_first_error:
  "\<forall>q c. strict_prefix q xs \<longrightarrow> f (pre @ q) \<noteq> Some (File c) \<Longrightarrow>
   walk f pre xs = None \<or> walk f pre xs = Some ENOENT"
proof (induction xs arbitrary: pre)
  case (Cons x xs)
  have "\<forall>q c. strict_prefix q xs \<longrightarrow> f ((pre @ [x]) @ q) \<noteq> Some (File c)"
    using Cons.prems by (metis strict_prefix_simps(3) append.assoc append_Cons append_Nil)
  moreover have "\<forall>c. f pre \<noteq> Some (File c)"
    using Cons.prems by (metis append_Nil2 strict_prefix_simps(2))
  ultimately show ?case
    using Cons.IH by (auto split: option.splits node.splits)
qed simp

lemma fs_stat_absent:
  "no_file_above f p \<Longrightarrow> f p = None \<Longrightarrow> fs_stat f p = Inl ENOENT"
  using walk_first_error[of p f "[]"]
  by (auto simp: fs_stat_def no_file_above_def split: option.splits)

subsection \<open>The calls as functional updates\<close>

definition make_dirs :: "string list \<Rightarrow> fs \<Rightarrow> fs" where
  "make_dirs p f = (\<lambda>q. if prefix q p then Some Dir else f q)"

definition put_file :: "string list \<Rightarrow> bytes \<Rightarrow> fs \<Rightarrow> fs" where
  "put_file p c f = (\<lambda>q. if q = p then Some (File c) else if strict_prefix q p then Some Dir else f q)"

lemma mkdirs_eq:
  assumes "\<forall>q c. prefix q xs \<longrightarrow> f (pre @ q) \<noteq> Some (File c)"
  shows "mkdirs pre xs f = Inr (\<lambda>q. if (\<exists>r. prefix r xs \<and> q = pre @ r) then Some Dir else f q)"
  using assms
proof (induction xs arbitrary: pre f)
  case Nil
  then have "\<forall>c. f pre \<noteq> Some (File c)" by simp
  then show ?case
    by (subst mkdirs.simps) (auto simp: fun_eq_iff split: option.splits node.splits)
next
  case (Cons x xs)
  let ?g = "f(pre \<mapsto> Dir)"
  have nf: "\<forall>c. f pre \<noteq> Some (File c)" using Cons.prems by (metis Nil_prefix append_Nil2)
  have g: "\<forall>q c. prefix q xs \<longrightarrow> ?g ((pre @ [x]) @ q) \<noteq> Some (File c)"
    using Cons.prems by (auto simp: prefix_Cons)
  have "mkdirs pre (x # xs) f = mkdirs (pre @ [x]) xs ?g"
    using nf by (subst mkdirs.simps) (auto split: option.splits node.splits)
  also have "\<dots> = Inr (\<lambda>q. if (\<exists>r. prefix r xs \<and> q = (pre @ [x]) @ r) then Some Dir else ?g q)"
    by (rule Cons.IH[OF g])
  also have "\<dots> = Inr (\<lambda>q. if (\<exists>r. prefix r (x # xs) \<and> q = pre @ r) then Some Dir else f q)"
    by (auto simp: fun_eq_iff prefix_Cons)
  finally show ?case .
qed

lemma fs_mkdir_all_eq:
  "\<forall>q c. prefix q p \<longrightarrow> f q \<noteq> Some (File c) \<Longrightarrow> fs_mkdir_all p f = Inr (make_dirs p f)"
  using mkdirs_eq[of p f "[]"] by (simp add: fs_mkdir_all_def make_dirs_def)

lemma strict_prefix_butlast: "p \<noteq> [] \<Longrightarrow> prefix q (butlast p) \<longleftrightarrow> strict_prefix q p"
proof
  assume p: "p \<noteq> []" "prefix q (butlast p)"
  have "strict_prefix (butlast p) p"
    using p(1) by (metis append_butlast_last_id not_Cons_self2 prefixI self_append_conv strict_prefix_def)
  then show "strict_prefix q p" using p(2) by auto
next
  assume p: "p \<noteq> []" "strict_prefix q p"
  obtain r where "p = q @ r" "r \<noteq> []"
    using p(2) by (auto simp: strict_prefix_def prefix_def)
  then show "prefix q (butlast p)" by (simp add: butlast_append)
qed

text \<open>\<open>MkdirAll(Dir(p))\<close> followed by \<open>WriteFile(p, c)\<close> where nothing is in the way.\<close>

lemma mkdir_write:
  assumes "p \<noteq> []" "no_file_above f p" "f p \<noteq> Some Dir"
  shows "bind_res (fs_mkdir_all (butlast p) f) (fs_write_file p c) = Inr (put_file p c f)"
proof -
  have "\<forall>q d. prefix q (butlast p) \<longrightarrow> f q \<noteq> Some (File d)"
    using assms(1,2) by (simp add: strict_prefix_butlast no_file_above_def)
  then have m: "fs_mkdir_all (butlast p) f = Inr (make_dirs (butlast p) f)"
    by (rule fs_mkdir_all_eq)
  have w: "walk (make_dirs (butlast p) f) [] p = None"
    using assms(1) by (auto simp: walk_None_iff make_dirs_def strict_prefix_butlast)
  have n: "make_dirs (butlast p) f p = f p"
    using assms(1) by (simp add: make_dirs_def strict_prefix_butlast)
  have e: "(make_dirs (butlast p) f)(p \<mapsto> File c) = put_file p c f"
    using assms(1) by (auto simp: fun_eq_iff make_dirs_def put_file_def strict_prefix_butlast)
  show ?thesis
    using assms(3) by (simp add: m fs_write_file_def w n e split: option.splits node.splits)
qed

lemma fs_tree_put_file:
  assumes "fs_tree f" "no_file_above f p" "\<forall>q. strict_prefix p q \<longrightarrow> f q = None"
  shows "fs_tree (put_file p c f)"
  unfolding fs_tree_def
proof (intro allI impI)
  fix a b
  assume ab: "strict_prefix a b" "put_file p c f b \<noteq> None"
  show "put_file p c f a = Some Dir"
  proof (cases "strict_prefix a p")
    case True
    then show ?thesis by (auto simp: put_file_def)
  next
    case False
    then have "\<not> prefix b p" using ab(1) by (meson prefix_order.less_le_trans)
    then have fb: "f b \<noteq> None" using ab(2) by (auto simp: put_file_def split: if_splits)
    moreover have "a \<noteq> p" using fb ab(1) assms(3) by auto
    ultimately show ?thesis
      using False ab(1) assms(1) by (simp add: put_file_def fs_tree_def)
  qed
qed

lemma put_file_commute:
  assumes "a \<noteq> b" "\<not> prefix a b" "\<not> prefix b a"
  shows "put_file a c (put_file b d f) = put_file b d (put_file a c f)"
  using assms by (auto simp: put_file_def fun_eq_iff)

subsection \<open>The elements of joined paths\<close>

lemma split_slash_join: "split_slash (a @ CHR ''/'' # b) = split_slash a @ split_slash b"
proof (induction "length a" arbitrary: a rule: less_induct)
  case less
  show ?case
  proof (cases a rule: slash_cases)
    case 1
    then show ?thesis by (simp add: split_slash_append split_slash_no)
  next
    case (2 x r)
    with less show ?thesis by (simp add: split_slash_append)
  qed
qed

lemma path_elems_rooted: "path_elems (CHR ''/'' # s) = clean_elems True (split_slash s)"
  by (simp add: path_elems_def rooted_path_def has_prefix_Cons split_slash_Cons_slash clean_elems_def
      clean_step_def)

lemma split_slash_Nil [simp]: "split_slash [] = [[]]"
  by (simp add: split_slash_no)

lemma clean_elems_blank: "clean_elems rooted (xs @ [[]]) = clean_elems rooted xs"
  by (simp add: clean_elems_def clean_step_def)

lemma clean_elems_proper_join:
  "\<forall>x \<in> set xs. proper_elem x \<Longrightarrow> clean_elems True (split_slash (join_slash xs)) = xs"
  by (cases "xs = []")
     (simp_all add: clean_elems_def clean_step_def[of True "[]" "[]"] split_join_slash foldl_clean_proper
       proper_elem_def[abs_def] clean_elems_proper[unfolded clean_elems_def])

lemma rooted_elems: "\<forall>x \<in> set xs. proper_elem x \<Longrightarrow> path_elems (CHR ''/'' # join_slash xs) = xs"
  by (simp add: path_elems_rooted clean_elems_proper_join)

lemma rooted_elems_proper:
  assumes "rooted_path p"
  shows "\<forall>x \<in> set (path_elems p). proper_elem x"
proof
  fix x
  assume "x \<in> set (path_elems p)"
  then have "x \<in> set (rev (path_elems p))" by simp
  from stack_ok_elem[OF path_elems_ok[of p] this] show "proper_elem x"
    using assms by simp
qed

lemma path_clean_rooted: "rooted_path p \<Longrightarrow> path_clean p = CHR ''/'' # join_slash (path_elems p)"
  by (simp add: path_clean_def Let_def)

lemma path_elems_clean: "rooted_path p \<Longrightarrow> path_elems (path_clean p) = path_elems p"
  by (simp add: path_clean_rooted rooted_elems rooted_elems_proper)

lemma filepath_join_elems:
  assumes "rooted_path d" "xs \<noteq> []" "\<forall>x \<in> set xs. proper_elem x"
  shows "filepath_join d (join_slash xs) = CHR ''/'' # join_slash (path_elems d @ xs)"
proof -
  obtain d' where d: "d = CHR ''/'' # d'"
    using assms(1) by (cases d) (auto simp: rooted_path_def has_prefix_Cons)
  have ne: "join_slash xs \<noteq> []"
    using assms(2,3) by (cases xs) (auto simp: join_slash_eq_Nil proper_elem_def)
  have r: "rooted_path (d @ CHR ''/'' # join_slash xs)"
    by (simp add: d rooted_path_def has_prefix_Cons)
  have sp: "split_slash (join_slash xs) = xs"
    using assms(2,3) by (auto intro!: split_join_slash simp: proper_elem_def)
  have "path_elems (d @ CHR ''/'' # join_slash xs) = path_elems d @ xs"
    unfolding d append_Cons path_elems_rooted split_slash_join sp clean_elems_def
    using assms(3) by (simp add: foldl_clean_proper)
  then have "path_clean (d @ CHR ''/'' # join_slash xs) = CHR ''/'' # join_slash (path_elems d @ xs)"
    using path_clean_rooted[OF r] by simp
  then show ?thesis
    using ne d by (simp add: filepath_join_def path_join_def)
qed

lemma fs_path_join:
  "rooted_path d \<Longrightarrow> xs \<noteq> [] \<Longrightarrow> \<forall>x \<in> set xs. proper_elem x \<Longrightarrow>
   fs_path (filepath_join d (join_slash xs)) = fs_path d @ xs"
  by (simp add: fs_path_def filepath_join_elems rooted_elems rooted_elems_proper ball_Un)

lemma join_slash_snoc:
  "join_slash (xs @ [b]) = (if xs = [] then b else join_slash xs @ CHR ''/'' # b)"
  using join_slash_append[of xs "[b]"] by simp

lemma fs_path_dir:
  assumes "es \<noteq> []" "\<forall>x \<in> set es. proper_elem x"
  shows "fs_path (path_dir (CHR ''/'' # join_slash es)) = butlast es"
proof -
  obtain xs b where es: "es = xs @ [b]" using assms(1) by (metis append_butlast_last_id)
  have b: "CHR ''/'' \<notin> set b" using assms(2) by (simp add: es proper_elem_def)
  define a where "a = (if xs = [] then [] else CHR ''/'' # join_slash xs)"
  have p: "CHR ''/'' # join_slash es = a @ CHR ''/'' # b"
    by (simp add: es a_def join_slash_snoc)
  have "dropWhile (\<lambda>c. c \<noteq> CHR ''/'') (rev b @ CHR ''/'' # rev a) = CHR ''/'' # rev a"
    using b by (subst dropWhile_append2) auto
  then have cut: "rev (dropWhile (\<lambda>c. c \<noteq> CHR ''/'') (rev (a @ CHR ''/'' # b))) = a @ ''/''"
    by simp
  have r: "rooted_path (a @ ''/'')" by (simp add: a_def rooted_path_def has_prefix_Cons)
  have "path_elems (a @ ''/'') = xs"
  proof (cases "xs = []")
    case True
    then show ?thesis by (simp add: a_def path_elems_rooted clean_elems_def clean_step_def)
  next
    case False
    have "path_elems (a @ ''/'') = clean_elems True (split_slash (join_slash xs) @ [[]])"
      using False split_slash_join[of "join_slash xs" "[]"] by (simp add: a_def path_elems_rooted)
    then show ?thesis
      using assms(2) by (simp add: clean_elems_blank clean_elems_proper_join es)
  qed
  then show ?thesis
    unfolding p fs_path_def path_dir_def cut by (simp add: path_elems_clean[OF r] es)
qed

end
