(* ===== verification/GitArchive.thy ===== *)
theory GitArchive
  imports GoOS
begin

section \<open>internal/git/archive_path.go and archiveInventoryFileInClone of worker.go\<close>

text \<open>
  Where the file of a deleted object moves, and the move inside the clone. \<open>move_file\<close> is the
  abstract operation; the lemmas show that the code performs it when nothing stands in the way, that
  a file which was never exported is left alone, and the errors.
\<close>

definition inventoryPrefix :: string where
  "inventoryPrefix = ''inventory/''"

datatype archive_error =
    NotUnderInventory string
  | StatFailed errno
  | ArchiveIsDirectory string
  | ArchiveMkdirFailed string errno
  | ArchiveRenameFailed errno

definition ArchiveRelativePath :: "string \<Rightarrow> archive_error + string" where
  "ArchiveRelativePath inventoryRel =
     (if \<not> has_prefix inventoryRel inventoryPrefix then Inl (NotUnderInventory inventoryRel)
      else (let rest = trim_prefix inventoryRel inventoryPrefix
            in Inr (inventoryPrefix @ ''archive/'' @ rest)))"

definition resourceNameFromInventoryPath :: "string \<Rightarrow> string" where
  "resourceNameFromInventoryPath inventoryRel = trim_suffix (path_base inventoryRel) ''.yaml''"

text \<open>\<open>filepath.FromSlash\<close> is the identity on Unix; the result of \<open>os.Remove\<close> is discarded.\<close>

definition archiveInventoryFileInClone :: "string \<Rightarrow> string \<Rightarrow> fs \<Rightarrow> archive_error + fs" where
  "archiveInventoryFileInClone repoRoot inventoryRel f =
     bind_res (ArchiveRelativePath inventoryRel) (\<lambda>destRel.
       let src = filepath_join repoRoot inventoryRel;
           dest = filepath_join repoRoot destRel
       in case fs_stat f (fs_path src) of
            Inl e \<Rightarrow> if e = ENOENT then Inr f else Inl (StatFailed e)
          | Inr Dir \<Rightarrow> Inl (ArchiveIsDirectory inventoryRel)
          | Inr (File _) \<Rightarrow>
              bind_res (map_err (ArchiveMkdirFailed destRel) (fs_mkdir_all (fs_path (path_dir dest)) f)) (\<lambda>f1.
                let f2 = (case fs_remove (fs_path dest) f1 of Inl _ \<Rightarrow> f1 | Inr g \<Rightarrow> g)
                in map_err ArchiveRenameFailed (fs_rename_file (fs_path src) (fs_path dest) f2)))"

subsection \<open>The archive path\<close>

lemma archive_path_ok:
  "ArchiveRelativePath (''inventory/'' @ rest) = Inr (''inventory/archive/'' @ rest)"
proof -
  have "has_prefix (inventoryPrefix @ rest) inventoryPrefix" by simp
  then have "ArchiveRelativePath (inventoryPrefix @ rest) = Inr (inventoryPrefix @ ''archive/'' @ rest)"
    by (simp add: ArchiveRelativePath_def)
  then show ?thesis by (simp add: inventoryPrefix_def)
qed

lemma archive_path_iff:
  "ArchiveRelativePath p = Inr q \<longleftrightarrow> (\<exists>r. p = ''inventory/'' @ r \<and> q = ''inventory/archive/'' @ r)"
proof
  assume a: "ArchiveRelativePath p = Inr q"
  then obtain r where "p = inventoryPrefix @ r"
    by (auto simp: ArchiveRelativePath_def has_prefix_iff split: if_splits)
  then show "\<exists>r. p = ''inventory/'' @ r \<and> q = ''inventory/archive/'' @ r"
    using a archive_path_ok[of r] by (auto simp: inventoryPrefix_def)
next
  assume "\<exists>r. p = ''inventory/'' @ r \<and> q = ''inventory/archive/'' @ r"
  then show "ArchiveRelativePath p = Inr q" using archive_path_ok by blast
qed

subsection \<open>The move\<close>

definition move_file :: "string list \<Rightarrow> string list \<Rightarrow> fs \<Rightarrow> fs" where
  "move_file p q f =
     (case f p of Some (File c) \<Rightarrow> (put_file q c f)(p := None) | _ \<Rightarrow> f)"

text \<open>
  The live path with elements \<open>inventory, x, ...\<close> under the clone's root \<open>d\<close>, and its archive path.
\<close>

definition live_elems :: "string list \<Rightarrow> string list" where
  "live_elems xs = ''inventory'' # xs"

definition archive_elems :: "string list \<Rightarrow> string list" where
  "archive_elems xs = ''inventory'' # ''archive'' # xs"

lemma proper_inventory [simp]: "proper_elem ''inventory''" "proper_elem ''archive''"
  by (simp_all add: proper_elem_def)

lemma join_live: "xs \<noteq> [] \<Longrightarrow> join_slash (live_elems xs) = ''inventory/'' @ join_slash xs"
  by (cases xs) (simp_all add: live_elems_def)

lemma join_archive: "xs \<noteq> [] \<Longrightarrow> join_slash (archive_elems xs) = ''inventory/archive/'' @ join_slash xs"
  by (cases xs) (simp_all add: archive_elems_def)

lemma archive_path_elems:
  "xs \<noteq> [] \<Longrightarrow> ArchiveRelativePath (join_slash (live_elems xs)) = Inr (join_slash (archive_elems xs))"
proof -
  assume xs: "xs \<noteq> []"
  show ?thesis unfolding join_live[OF xs] join_archive[OF xs] by (rule archive_path_ok)
qed

lemma fs_path_live:
  assumes "rooted_path d" "\<forall>x \<in> set xs. proper_elem x"
  shows "fs_path (filepath_join d (join_slash (live_elems xs))) = fs_path d @ live_elems xs"
    and "fs_path (filepath_join d (join_slash (archive_elems xs))) = fs_path d @ archive_elems xs"
  using assms fs_path_join[OF assms(1), of "live_elems xs"] fs_path_join[OF assms(1), of "archive_elems xs"]
  unfolding live_elems_def archive_elems_def by auto

lemma fs_path_dir_join:
  assumes "rooted_path d" "ys \<noteq> []" "\<forall>x \<in> set ys. proper_elem x"
  shows "fs_path (path_dir (filepath_join d (join_slash ys))) = butlast (fs_path d @ ys)"
  using assms(2,3) rooted_elems_proper[OF assms(1)]
  unfolding filepath_join_elems[OF assms] by (subst fs_path_dir) (auto simp: fs_path_def)

lemma archive_ready:
  assumes "rooted_path d" "xs \<noteq> []" "\<forall>x \<in> set xs. proper_elem x" "fs_tree f"
    "no_file_above f (fs_path d @ live_elems xs)" "f (fs_path d @ live_elems xs) \<noteq> Some Dir"
    "no_file_above f (fs_path d @ archive_elems xs)" "f (fs_path d @ archive_elems xs) \<noteq> Some Dir"
    "\<not> prefix (live_elems xs) (archive_elems xs)"
  shows "archiveInventoryFileInClone d (join_slash (live_elems xs)) f
           = Inr (move_file (fs_path d @ live_elems xs) (fs_path d @ archive_elems xs) f)"
proof (cases "f (fs_path d @ live_elems xs)")
  case None
  then show ?thesis
    using fs_stat_absent[OF assms(5)]
    by (simp add: archiveInventoryFileInClone_def archive_path_elems assms fs_path_live move_file_def)
next
  case (Some n)
  then obtain c where n: "f (fs_path d @ live_elems xs) = Some (File c)"
    using assms(6) by (cases n) auto
  let ?p = "fs_path d @ live_elems xs" and ?q = "fs_path d @ archive_elems xs"
  let ?f1 = "make_dirs (butlast ?q) f"
  have q: "?q \<noteq> []" by (simp add: archive_elems_def)
  have st: "fs_stat f ?p = Inr (File c)" using fs_stat_tree[OF assms(4)] n by simp
  have dir: "fs_path (path_dir (filepath_join d (join_slash (archive_elems xs)))) = butlast ?q"
    using assms(1,3) by (intro fs_path_dir_join) (auto simp: archive_elems_def)
  have mk: "fs_mkdir_all (butlast ?q) f = Inr ?f1"
    using assms(7) by (intro fs_mkdir_all_eq) (simp add: strict_prefix_butlast[OF q] no_file_above_def)
  have wq: "walk g [] ?q = None" if "\<forall>r. strict_prefix r ?q \<longrightarrow> g r = ?f1 r" for g
    using that by (auto simp: walk_None_iff make_dirs_def strict_prefix_butlast[OF q])
  have f1q: "?f1 ?q = f ?q" by (simp add: make_dirs_def strict_prefix_butlast[OF q])
  have pq: "\<not> prefix ?p ?q" using assms(9) by simp
  have f1p: "?f1 ?p = Some (File c)"
    using pq n by (simp add: make_dirs_def strict_prefix_butlast[OF q] strict_prefix_def)
  define f2 where "f2 = (case fs_remove ?q ?f1 of Inl _ \<Rightarrow> ?f1 | Inr g \<Rightarrow> g)"
  have f2: "f2 = ?f1(?q := None)"
  proof (cases "f ?q")
    case None
    have "fs_remove ?q ?f1 = Inl ENOENT"
      using wq[of ?f1] f1q None by (simp add: fs_remove_def fs_stat_def)
    then show ?thesis using f1q None by (auto simp: f2_def fun_eq_iff)
  next
    case (Some m)
    then obtain e where "f ?q = Some (File e)" using assms(8) by (cases m) auto
    then show ?thesis
      using wq[of ?f1] f1q by (simp add: f2_def fs_remove_def fs_stat_def)
  qed
  have wp: "walk f2 [] ?p = None"
  proof -
    have "f2 r = Some Dir" if "strict_prefix r ?p" for r
    proof -
      have "f r = Some Dir" using that assms(4) n by (auto simp: fs_tree_def)
      moreover have "r \<noteq> ?q" using calculation assms(8) by auto
      ultimately show ?thesis by (simp add: f2 make_dirs_def)
    qed
    then show ?thesis by (simp add: walk_None_iff)
  qed
  have ne: "?p \<noteq> ?q" using pq by auto
  have "fs_rename_file ?p ?q f2 = Inr ((f2(?p := None))(?q \<mapsto> File c))"
    using wp wq[of f2] ne f1p by (simp add: fs_rename_file_def fs_stat_def f2)
  also have "(f2(?p := None))(?q \<mapsto> File c) = (put_file ?q c f)(?p := None)"
    using ne pq by (auto simp: fun_eq_iff f2 make_dirs_def put_file_def strict_prefix_butlast[OF q])
  finally have rn: "fs_rename_file ?p ?q f2 = Inr (move_file ?p ?q f)"
    by (simp add: move_file_def n fun_upd_def)
  show ?thesis
    by (simp add: archiveInventoryFileInClone_def archive_path_elems assms(1-3) fs_path_live st dir mk
        f2_def[symmetric] rn)
qed

lemma move_file_lookup:
  assumes "f p = Some (File c)" "p \<noteq> q" "\<not> prefix p q"
  shows "move_file p q f q = Some (File c)" "move_file p q f p = None"
    "r \<noteq> p \<Longrightarrow> \<not> prefix r q \<Longrightarrow> move_file p q f r = f r"
  using assms by (auto simp: move_file_def put_file_def)

end
