(* ===== verification/SyncPath.thy ===== *)
theory SyncPath
  imports ExportPath GitArchive
begin

section \<open>internal/sync/path.go: which Git paths name an object\<close>

text \<open>
  \<open>ParseInventoryExportPath\<close> as the source computes it, characterised by the elements of the
  cleaned path: it accepts exactly four elements \<open>inventory\<close>, a plural, a namespace and a YAML file
  with a stem. The lemmas relate it to the exporter: it inverts the default template (but for names
  that end in \<open>.yml\<close>), and accepts no archive path.
\<close>

definition WebhookPath :: string where
  "WebhookPath = ''/api/v1/webhook''"

record ParsedInventoryPath =
  pp_PluralKind :: string
  pp_Namespace :: string
  pp_Name :: string

definition yaml_stem :: "string \<Rightarrow> string" where
  "yaml_stem file = trim_suffix (trim_suffix file ''.yaml'') ''.yml''"

text \<open>The checks on the elements below \<open>inventory/\<close>.\<close>

definition parse_parts :: "string list \<Rightarrow> ParsedInventoryPath option" where
  "parse_parts parts =
     (case parts of
        [plural, ns, file] \<Rightarrow>
          if plural \<noteq> ''applications'' \<and> plural \<noteq> ''applicationsets'' then None
          else if \<not> has_suffix file ''.yaml'' \<and> \<not> has_suffix file ''.yml'' then None
          else (let name = yaml_stem file in
                if ns = [] \<or> name = [] \<or> name = ''.'' \<or> ns = ''.'' then None
                else Some \<lparr> pp_PluralKind = plural, pp_Namespace = ns, pp_Name = name \<rparr>)
      | _ \<Rightarrow> None)"

definition ParseInventoryExportPath :: "string \<Rightarrow> ParsedInventoryPath option" where
  "ParseInventoryExportPath gitPath =
     (let p = trim_prefix (path_clean (trim_space gitPath)) ''/'' in
      if \<not> has_prefix p ''inventory/'' then None
      else (let rest = trim_prefix p ''inventory/'' in parse_parts (split_slash rest)))"

definition ArgoKindFromPlural :: "string \<Rightarrow> string + string" where
  "ArgoKindFromPlural plural =
     (if plural = ''applications'' then Inr ''Application''
      else if plural = ''applicationsets'' then Inr ''ApplicationSet''
      else Inl plural)"

subsection \<open>What is accepted\<close>

definition argo_plural :: "string \<Rightarrow> bool" where
  "argo_plural p = (p = ''applications'' \<or> p = ''applicationsets'')"

definition yaml_file :: "string \<Rightarrow> bool" where
  "yaml_file f = (has_suffix f ''.yaml'' \<or> has_suffix f ''.yml'')"

definition parsed_elems :: "string list \<Rightarrow> ParsedInventoryPath \<Rightarrow> bool" where
  "parsed_elems es r =
     (\<exists>file. es = [''inventory'', pp_PluralKind r, pp_Namespace r, file] \<and>
        argo_plural (pp_PluralKind r) \<and> yaml_file file \<and> pp_Name r = yaml_stem file \<and>
        pp_Name r \<noteq> [] \<and> pp_Name r \<noteq> ''.'')"

lemma clean_as_join:
  "trim_prefix (path_clean p) ''/'' =
     (if path_elems p = [] \<and> \<not> rooted_path p then ''.'' else join_slash (path_elems p))"
proof (cases "rooted_path p")
  case True
  then have "path_clean p = ''/'' @ join_slash (path_elems p)" by (simp add: path_clean_def Let_def)
  then show ?thesis using True by (simp only: trim_prefix_append) simp
next
  case False
  have c: "path_clean p = (if path_elems p = [] then ''.'' else join_slash (path_elems p))"
  proof (cases "path_elems p")
    case (Cons e es)
    then have "e \<noteq> []" using path_elems_no_slash[of e p] by simp
    then show ?thesis using False Cons by (simp add: path_clean_def Let_def join_slash_eq_Nil)
  qed (use False in \<open>simp add: path_clean_def Let_def\<close>)
  have "\<not> has_prefix (path_clean p) ''/''"
  proof (cases "path_elems p")
    case (Cons e es)
    then have "e \<noteq> [] \<and> CHR ''/'' \<notin> set e" using path_elems_no_slash[of e p] by simp
    then show ?thesis using c Cons by (cases e; cases es) (auto simp: has_prefix_Cons)
  qed (simp add: c has_prefix_Cons)
  then show ?thesis using c False by (simp add: trim_prefix_id)
qed

lemma inventory_join:
  assumes "\<forall>e \<in> set es. CHR ''/'' \<notin> set e" "es \<noteq> []" "join_slash es = ''inventory/'' @ r"
  shows "es = ''inventory'' # split_slash r"
proof -
  have "''inventory/'' @ r = ''inventory'' @ CHR ''/'' # r" by simp
  then have "split_slash (join_slash es) = ''inventory'' # split_slash r"
    unfolding assms(3) by (simp only:) (rule split_slash_append, simp)
  then show ?thesis using split_join_slash[OF assms(2,1)] by simp
qed

lemma join_inventory: "xs \<noteq> [] \<Longrightarrow> join_slash (''inventory'' # xs) = ''inventory/'' @ join_slash xs"
  using join_live[of xs] by (simp add: live_elems_def)

lemma parse_parts_iff:
  assumes "\<forall>x \<in> set xs. x \<noteq> [] \<and> x \<noteq> ''.''"
  shows "parse_parts xs = Some r \<longleftrightarrow> parsed_elems (''inventory'' # xs) r"
proof (cases "\<exists>a b c. xs = [a, b, c]")
  case True
  then obtain a b c where xs: "xs = [a, b, c]" by blast
  have b: "b \<noteq> []" "b \<noteq> ''.''" using assms by (simp_all add: xs)
  have "parse_parts xs = (if argo_plural a \<and> yaml_file c \<and> yaml_stem c \<noteq> [] \<and> yaml_stem c \<noteq> ''.''
      then Some \<lparr> pp_PluralKind = a, pp_Namespace = b, pp_Name = yaml_stem c \<rparr> else None)"
    using b unfolding parse_parts_def xs argo_plural_def yaml_file_def Let_def by auto
  then show ?thesis
    by (cases r) (auto simp: xs parsed_elems_def)
next
  case False
  then have "parse_parts xs = None" by (auto simp: parse_parts_def split: list.splits)
  then show ?thesis using False by (auto simp: parsed_elems_def)
qed

theorem parse_iff: "ParseInventoryExportPath gp = Some r \<longleftrightarrow> parsed_elems (path_elems (trim_space gp)) r"
proof -
  define es where "es = path_elems (trim_space gp)"
  define p where "p = trim_prefix (path_clean (trim_space gp)) ''/''"
  have sl: "\<forall>e \<in> set es. CHR ''/'' \<notin> set e \<and> e \<noteq> []" using path_elems_no_slash by (auto simp: es_def)
  have p: "p = (if es = [] \<and> \<not> rooted_path (trim_space gp) then ''.'' else join_slash es)"
    by (simp add: p_def es_def clean_as_join)
  show ?thesis
  proof (cases "\<exists>xs. es = ''inventory'' # xs \<and> xs \<noteq> []")
    case False
    have "\<not> has_prefix p ''inventory/''"
    proof
      assume "has_prefix p ''inventory/''"
      then obtain t where t: "p = ''inventory/'' @ t" by (auto simp: has_prefix_iff)
      then have "p \<noteq> ''.''" by auto
      then have j: "join_slash es = ''inventory/'' @ t" using p t by (auto split: if_splits)
      then have "es \<noteq> []" by auto
      then have "es = ''inventory'' # split_slash t" using inventory_join[OF _ _ j] sl by blast
      then show False using False by simp
    qed
    then have "ParseInventoryExportPath gp = None"
      by (simp add: ParseInventoryExportPath_def p_def[symmetric])
    moreover have "\<not> parsed_elems es r" using False by (auto simp: parsed_elems_def)
    ultimately show ?thesis by (simp add: es_def)
  next
    case True
    then obtain xs where xs: "es = ''inventory'' # xs" "xs \<noteq> []" by blast
    have "\<forall>x \<in> set xs. CHR ''/'' \<notin> set x" using sl xs(1) by simp
    then have parts: "split_slash (join_slash xs) = xs" by (rule split_join_slash[OF xs(2)])
    have pj: "p = ''inventory/'' @ join_slash xs" 
      using p xs unfolding join_inventory[OF xs(2), symmetric] by simp
    have pre: "has_prefix p ''inventory/''" "trim_prefix p ''inventory/'' = join_slash xs"
      unfolding pj by (simp_all only: has_prefix_append trim_prefix_append)
    have ne: "x \<noteq> [] \<and> x \<noteq> ''.''" if "x \<in> set xs" for x
      using path_elems_proper[of "trim_space gp" "''inventory''" xs x] xs(1) that
      by (auto simp: es_def proper_elem_def)
    have "ParseInventoryExportPath gp = parse_parts xs"
      by (simp only: ParseInventoryExportPath_def p_def[symmetric] pre parts Let_def) simp
    then show ?thesis
      using parse_parts_iff[of xs r] ne by (simp add: es_def[symmetric] xs(1))
  qed
qed

subsection \<open>Paths the exporter writes\<close>

lemma visible_literals: "visible_ascii (CHR ''i'')" "visible_ascii (CHR ''l'')"
  by (simp_all add: visible_ascii_def)

lemma trim_space_export:
  "trim_space (''inventory/'' @ a @ ''/'' @ ns @ ''/'' @ name @ ''.yaml'')
     = ''inventory/'' @ a @ ''/'' @ ns @ ''/'' @ name @ ''.yaml''"
  by (intro trim_visible) (simp_all add: visible_literals)

lemma export_elems:
  assumes "\<forall>x \<in> set xs. proper_elem x" "xs \<noteq> []"
    "trim_space (join_slash (''inventory'' # xs)) = join_slash (''inventory'' # xs)"
  shows "path_elems (trim_space (join_slash (''inventory'' # xs))) = ''inventory'' # xs"
  unfolding assms(3) by (rule path_elems_join) (use assms in auto)

lemma proper_yaml: "CHR ''/'' \<notin> set n \<Longrightarrow> proper_elem (n @ ''.yaml'')"
  by (cases n; cases "tl n") (auto simp: proper_elem_def)

text \<open>A name the exporter can be asked for: one path element that is not a dot.\<close>

definition object_name :: "string \<Rightarrow> bool" where
  "object_name n = (n \<noteq> [] \<and> n \<noteq> ''.'' \<and> CHR ''/'' \<notin> set n)"

lemma parse_export:
  assumes "argo_plural pl" "proper_elem ns" "object_name n"
  shows "ParseInventoryExportPath (''inventory/'' @ pl @ ''/'' @ ns @ ''/'' @ n @ ''.yaml'') =
    (let stem = trim_suffix n ''.yml'' in
     if stem = [] \<or> stem = ''.'' then None
     else Some \<lparr> pp_PluralKind = pl, pp_Namespace = ns, pp_Name = stem \<rparr>)"
proof -
  let ?p = "''inventory/'' @ pl @ ''/'' @ ns @ ''/'' @ n @ ''.yaml''"
  have j: "?p = join_slash (''inventory'' # [pl, ns, n @ ''.yaml''])" by simp
  have pr: "\<forall>x \<in> set [pl, ns, n @ ''.yaml'']. proper_elem x"
    using assms proper_yaml[of n] by (auto simp: argo_plural_def object_name_def proper_elem_def)
  have es: "path_elems (trim_space ?p) = [''inventory'', pl, ns, n @ ''.yaml'']"
    using export_elems[OF pr] trim_space_export[of pl ns n] unfolding j by blast
  have st: "yaml_stem (n @ ''.yaml'') = trim_suffix n ''.yml''"
    by (simp add: yaml_stem_def)
  have yf: "yaml_file (n @ ''.yaml'')" by (simp add: yaml_file_def)
  have iff: "ParseInventoryExportPath ?p = Some r \<longleftrightarrow>
      pp_PluralKind r = pl \<and> pp_Namespace r = ns \<and> pp_Name r = trim_suffix n ''.yml'' \<and>
      trim_suffix n ''.yml'' \<noteq> [] \<and> trim_suffix n ''.yml'' \<noteq> ''.''" for r
    unfolding parse_iff es parsed_elems_def using assms(1) st yf by auto
  show ?thesis
  proof (cases "ParseInventoryExportPath ?p")
    case None
    then have "trim_suffix n ''.yml'' = [] \<or> trim_suffix n ''.yml'' = ''.''"
      using iff[of "\<lparr> pp_PluralKind = pl, pp_Namespace = ns, pp_Name = trim_suffix n ''.yml'' \<rparr>"] by auto
    then show ?thesis unfolding None by (auto simp: Let_def)
  next
    case (Some r)
    show ?thesis using iff[of r] unfolding Some by (cases r) (auto simp: Let_def)
  qed
qed

lemma plural_of_kind: "argo_kind k \<Longrightarrow> argo_plural (ArgoPluralKind X k)"
  by (auto simp: argo_kind_def argo_plural_def)

lemma kind_of_plural: "argo_kind k \<Longrightarrow> ArgoKindFromPlural (ArgoPluralKind X k) = Inr k"
  by (auto simp: argo_kind_def ArgoKindFromPlural_def)

lemma parse_render:
  assumes "argo_kind k" "proper_elem ns" "object_name n" "\<not> has_suffix n ''.yml''"
  shows "\<exists>p. RenderExportPath X defaultExportPathTemplate k ns n = Inr p \<and>
     ParseInventoryExportPath p =
       Some \<lparr> pp_PluralKind = ArgoPluralKind X k, pp_Namespace = ns, pp_Name = n \<rparr>"
  using parse_export[OF plural_of_kind[OF assms(1)] assms(2,3), of X] assms(3,4)
  by (simp add: render_default trim_suffix_id object_name_def)

lemma parse_kind: "ParseInventoryExportPath gp = Some r \<Longrightarrow>
   \<exists>k. argo_kind k \<and> ArgoKindFromPlural (pp_PluralKind r) = Inr k"
  by (auto simp: parse_iff parsed_elems_def argo_plural_def ArgoKindFromPlural_def argo_kind_def)

lemma parse_archive_none:
  assumes "path_elems (trim_space gp) = ''inventory'' # ''archive'' # xs"
  shows "ParseInventoryExportPath gp = None"
proof (cases "ParseInventoryExportPath gp")
  case (Some r)
  then show ?thesis using assms by (auto simp: parse_iff parsed_elems_def argo_plural_def)
qed simp

subsection \<open>The exporter's path as a codec\<close>

text \<open>The default template as a function of the object, and the object an accepted path names.\<close>

definition export_path :: "ext \<Rightarrow> string \<times> string \<times> string \<Rightarrow> string" where
  "export_path X ob =
     (case ob of (kind, ns, n) \<Rightarrow> ''inventory/'' @ ArgoPluralKind X kind @ ''/'' @ ns @ ''/'' @ n @ ''.yaml'')"

definition path_object :: "string \<Rightarrow> (string \<times> string \<times> string) option" where
  "path_object p =
     (case ParseInventoryExportPath p of
        None \<Rightarrow> None
      | Some r \<Rightarrow> (case ArgoKindFromPlural (pp_PluralKind r) of
                    Inl e \<Rightarrow> None | Inr k \<Rightarrow> Some (k, pp_Namespace r, pp_Name r)))"

definition exportable :: "string \<times> string \<times> string \<Rightarrow> bool" where
  "exportable ob =
     (case ob of (kind, ns, n) \<Rightarrow> argo_kind kind \<and> proper_elem ns \<and> object_name n \<and> \<not> has_suffix n ''.yml'')"

lemma export_path_render: "RenderExportPath X defaultExportPathTemplate kind ns n = Inr (export_path X (kind, ns, n))"
  by (simp add: render_default export_path_def)

interpretation ep: codec "export_path X" path_object exportable for X
proof unfold_locales
  fix ob assume ok: "exportable ob"
  obtain k ns n where ob: "ob = (k, ns, n)" by (cases ob)
  have h: "argo_kind k" "proper_elem ns" "object_name n" "\<not> has_suffix n ''.yml''"
    using ok by (simp_all add: ob exportable_def)
  show "path_object (export_path X ob) = Some ob"
    using parse_render[OF h, of X] kind_of_plural[OF h(1), of X]
    by (simp add: ob path_object_def export_path_render)
qed

end
