(* ===== verification/GoCrypto.thy ===== *)
theory GoCrypto
  imports GoUtf8 "HOL-Library.Word"
begin

section \<open>crypto/sha256, crypto/hmac and encoding/hex\<close>

text \<open>
  SHA-256 on 32-bit words as FIPS 180-4 gives it and Go implements it (padding, message schedule,
  64 rounds, digest of 32 bytes), HMAC over it, and the two hex functions. The digests are values
  of an executable function: nothing about collisions is assumed or proved. What is proved is what
  the program relies on by itself: a digest has 32 bytes and 64 lower-case hex digits, and
  \<open>DecodeString\<close> undoes \<open>EncodeToString\<close>.
\<close>

unbundle bit_operations_syntax

type_synonym u32 = "32 word"

subsection \<open>SHA-256\<close>

definition be32 :: "bytes \<Rightarrow> u32" where
  "be32 bs = foldl (\<lambda>a c. push_bit 8 a OR word_of_nat (bval c)) 0 bs"

definition bytes_be :: "nat \<Rightarrow> nat \<Rightarrow> bytes" where
  "bytes_be n x = map (\<lambda>i. byte (x div 256 ^ (n - 1 - i) mod 256)) [0..<n]"

definition rotr :: "nat \<Rightarrow> u32 \<Rightarrow> u32" where
  "rotr n x = drop_bit n x OR push_bit (32 - n) x"

text \<open>The round constants of the standard, in decimal.\<close>

definition sha_k :: "u32 list" where
  "sha_k =
    [1116352408, 1899447441, 3049323471, 3921009573, 961987163, 1508970993, 2453635748, 2870763221,
     3624381080, 310598401, 607225278, 1426881987, 1925078388, 2162078206, 2614888103, 3248222580,
     3835390401, 4022224774, 264347078, 604807628, 770255983, 1249150122, 1555081692, 1996064986,
     2554220882, 2821834349, 2952996808, 3210313671, 3336571891, 3584528711, 113926993, 338241895,
     666307205, 773529912, 1294757372, 1396182291, 1695183700, 1986661051, 2177026350, 2456956037,
     2730485921, 2820302411, 3259730800, 3345764771, 3516065817, 3600352804, 4094571909, 275423344,
     430227734, 506948616, 659060556, 883997877, 958139571, 1322822218, 1537002063, 1747873779,
     1955562222, 2024104815, 2227730452, 2361852424, 2428436474, 2756734187, 3204031479, 3329325298]"

record sha_state =
  sA :: u32
  sB :: u32
  sC :: u32
  sD :: u32
  sE :: u32
  sF :: u32
  sG :: u32
  sH :: u32

definition sha_init :: sha_state where
  "sha_init = \<lparr> sA = 0x6a09e667, sB = 0xbb67ae85, sC = 0x3c6ef372, sD = 0xa54ff53a,
                sE = 0x510e527f, sF = 0x9b05688c, sG = 0x1f83d9ab, sH = 0x5be0cd19 \<rparr>"

text \<open>The message schedule, newest word first: 16 words of the block, then 48 derived ones.\<close>

fun sha_schedule :: "nat \<Rightarrow> u32 list \<Rightarrow> u32 list" where
  "sha_schedule 0 w = rev w"
| "sha_schedule (Suc n) w =
     (let v1 = w ! 1; v2 = w ! 14;
          t1 = rotr 17 v1 XOR rotr 19 v1 XOR drop_bit 10 v1;
          t2 = rotr 7 v2 XOR rotr 18 v2 XOR drop_bit 3 v2
      in sha_schedule n ((t1 + w ! 6 + t2 + w ! 15) # w))"

definition sha_round :: "sha_state \<Rightarrow> u32 \<times> u32 \<Rightarrow> sha_state" where
  "sha_round s kw =
     (let e = sE s; a = sA s;
          t1 = sH s + (rotr 6 e XOR rotr 11 e XOR rotr 25 e) + ((e AND sF s) XOR (NOT e AND sG s))
               + fst kw + snd kw;
          t2 = (rotr 2 a XOR rotr 13 a XOR rotr 22 a)
               + ((a AND sB s) XOR (a AND sC s) XOR (sB s AND sC s))
      in \<lparr> sA = t1 + t2, sB = a, sC = sB s, sD = sC s,
           sE = sD s + t1, sF = e, sG = sF s, sH = sG s \<rparr>)"

fun chunks :: "nat \<Rightarrow> nat \<Rightarrow> bytes \<Rightarrow> bytes list" where
  "chunks 0 n s = []"
| "chunks (Suc k) n s = take n s # chunks k n (drop n s)"

definition sha_block :: "sha_state \<Rightarrow> bytes \<Rightarrow> sha_state" where
  "sha_block s blk =
     (let w = sha_schedule 48 (rev (map be32 (chunks 16 4 blk)));
          r = foldl sha_round s (zip sha_k w)
      in \<lparr> sA = sA s + sA r, sB = sB s + sB r, sC = sC s + sC r, sD = sD s + sD r,
           sE = sE s + sE r, sF = sF s + sF r, sG = sG s + sG r, sH = sH s + sH r \<rparr>)"

definition sha_pad :: "bytes \<Rightarrow> bytes" where
  "sha_pad m =
     (let z = (119 - length m mod 64) mod 64
      in m @ byte 0x80 # replicate z (byte 0) @ bytes_be 8 (8 * length m))"

definition sha256 :: "bytes \<Rightarrow> bytes" where
  "sha256 m =
     (let p = sha_pad m;
          s = foldl sha_block sha_init (chunks (length p div 64) 64 p)
      in concat (map (\<lambda>w. bytes_be 4 (unat w)) [sA s, sB s, sC s, sD s, sE s, sF s, sG s, sH s]))"

lemma bytes_be_length [simp]: "length (bytes_be n x) = n"
  by (simp add: bytes_be_def)

lemma sha256_length [simp]: "length (sha256 m) = 32"
  by (simp add: sha256_def Let_def)

text \<open>The padded message is a whole number of 64-byte blocks, so no byte is dropped.\<close>

lemma sha_pad_length: "64 dvd length (sha_pad m)"
proof -
  have len: "length (sha_pad m) = length m + 1 + (119 - length m mod 64) mod 64 + 8"
    by (simp add: sha_pad_def Let_def)
  have md: "(n + 1 + (119 - n mod 64) mod 64 + 8) mod 64 = 0" for n :: nat
  proof -
    define q r where "q = n div 64" and "r = n mod 64"
    have n: "n = 64 * q + r" and r: "r < 64" by (simp_all add: q_def r_def)
    have m: "n mod 64 = r" by (simp add: r_def)
    have z: "(119 - r) mod 64 = (if r \<le> 55 then 55 - r else 119 - r)"
    proof (cases "r \<le> 55")
      case True
      then have "119 - r = 55 - r + 64" by linarith
      then have "(119 - r) mod 64 = (55 - r) mod 64" by (simp only: mod_add_self2)
      then show ?thesis using True by simp
    qed (use r in simp)
    have "n + 1 + (if r \<le> 55 then 55 - r else 119 - r) + 8 = 64 * (if r \<le> 55 then q + 1 else q + 2)"
      unfolding n using r by simp
    then have "n + 1 + (119 - n mod 64) mod 64 + 8 = 64 * (if r \<le> 55 then q + 1 else q + 2)"
      unfolding m z .
    then show ?thesis by (simp only: mod_mult_self1_is_0)
  qed
  show ?thesis unfolding dvd_eq_mod_eq_0 len by (rule md)
qed

lemma chunks_concat: "length s = k * n \<Longrightarrow> concat (chunks k n s) = s"
  by (induction k arbitrary: s) auto

subsection \<open>HMAC\<close>

definition xor_pad :: "nat \<Rightarrow> bytes \<Rightarrow> bytes" where
  "xor_pad p k = map (\<lambda>c. byte (bval c XOR p)) (k @ replicate (64 - length k) (byte 0))"

definition hmac_sha256 :: "bytes \<Rightarrow> bytes \<Rightarrow> bytes" where
  "hmac_sha256 key msg =
     (let k = (if 64 < length key then sha256 key else key)
      in sha256 (xor_pad 0x5C k @ sha256 (xor_pad 0x36 k @ msg)))"

lemma hmac_length [simp]: "length (hmac_sha256 k m) = 32"
  by (simp add: hmac_sha256_def Let_def)

subsection \<open>Hex\<close>

fun hex_encode :: "bytes \<Rightarrow> string" where
  "hex_encode [] = []"
| "hex_encode (c # cs) = hex_digit (bval c div 16) # hex_digit (bval c mod 16) # hex_encode cs"

datatype hex_error = InvalidByte char | OddLength

text \<open>\<open>hex.DecodeString\<close>: the pairs from the left, then a last digit on its own.\<close>

fun hex_decode :: "string \<Rightarrow> hex_error + bytes" where
  "hex_decode [] = Inr []"
| "hex_decode [p] = (case hex_val p of None \<Rightarrow> Inl (InvalidByte p) | Some _ \<Rightarrow> Inl OddLength)"
| "hex_decode (p # q # r) =
     (case hex_val p of
        None \<Rightarrow> Inl (InvalidByte p)
      | Some a \<Rightarrow>
          (case hex_val q of
             None \<Rightarrow> Inl (InvalidByte q)
           | Some b \<Rightarrow> bind_res (hex_decode r) (\<lambda>bs. Inr (byte (a * 16 + b) # bs))))"

lemma hex_encode_length [simp]: "length (hex_encode s) = 2 * length s"
  by (induction s) auto

lemma hex_decode_encode [simp]: "hex_decode (hex_encode s) = Inr s"
proof (induction s)
  case (Cons c s)
  have "bval c < 16 * 16" by simp
  then have "bval c div 16 < 16" "bval c mod 16 < 16"
    by (simp_all only: less_mult_imp_div_less mod_less_divisor zero_less_numeral)
  then show ?case
    using Cons by (simp add: hex_val_hex_digit byte_def mult.commute)
qed simp

text \<open>The decoder without its errors reads the encoder back.\<close>

definition hex_decoded :: "string \<Rightarrow> bytes option" where
  "hex_decoded s = (case hex_decode s of Inl e \<Rightarrow> None | Inr b \<Rightarrow> Some b)"

interpretation hx: codec hex_encode hex_decoded "\<lambda>b. True"
  by unfold_locales (simp add: hex_decoded_def)

lemma hex_encode_inject: "hex_encode s = hex_encode t \<longleftrightarrow> s = t"
  by (rule hx.enc_inject) simp_all

definition hex_alphabet :: string where
  "hex_alphabet = ''0123456789abcdef''"

lemma hex_encode_digits: "c \<in> set (hex_encode s) \<Longrightarrow> c \<in> set hex_alphabet"
proof (induction s)
  case (Cons d s)
  have h: "hex_digit k \<in> set hex_alphabet" if "k < 16" for k
  proof -
    have "\<forall>k \<in> set [0..<16]. hex_digit k \<in> set hex_alphabet" by code_simp
    then show ?thesis using that by auto
  qed
  have "bval d < 16 * 16" by simp
  then have "bval d div 16 < 16" "bval d mod 16 < 16"
    by (simp_all only: less_mult_imp_div_less mod_less_divisor zero_less_numeral)
  with h[of "bval d div 16"] h[of "bval d mod 16"] Cons show ?case by auto
qed simp

text \<open>What decodes: an even number of hex digits, of either case; the length halves.\<close>

lemma hex_decode_length: "hex_decode s = Inr b \<Longrightarrow> length s = 2 * length b"
  by (induction s arbitrary: b rule: hex_decode.induct)
     (auto simp: bind_res_eq_Inr split: option.splits)

lemma hex_decode_ok_iff:
  "(\<exists>b. hex_decode s = Inr b) \<longleftrightarrow> even (length s) \<and> (\<forall>c \<in> set s. hex_val c \<noteq> None)"
  by (induction s rule: hex_decode.induct)
     (auto simp: bind_res_eq_Inr split: option.splits)

definition sha256_hex :: "bytes \<Rightarrow> string" where
  "sha256_hex b = hex_encode (sha256 b)"

lemma sha256_hex_length [simp]: "length (sha256_hex b) = 64"
  by (simp add: sha256_hex_def)

lemma sha256_hex_not_Nil [simp]: "sha256_hex b \<noteq> []"
  by (metis list.size(3) sha256_hex_length zero_neq_numeral)

end
