(* ===== verification/ConfigMapMaterial.thy ===== *)
theory ConfigMapMaterial
  imports GoJSONLaws GoCrypto
begin

section \<open>internal/configmapmaterial/material.go: the digest of a ConfigMap\<close>

text \<open>
  The fields of a ConfigMap the package reads (\<open>None\<close> is a nil map), the canonical struct in
  its field order with \<open>omitempty\<close>, and the digest. \<open>cm_material\<close> is the abstract
  content a digest is about; the lemmas show that the canonical JSON determines it and is determined
  by it.
\<close>

definition SyncContentHashAnnotationKey :: string where
  "SyncContentHashAnnotationKey = ''accord.io/sync-content-hash''"

definition InventoryLabelKey :: string where
  "InventoryLabelKey = ''accord.io/inventory''"

definition InventoryLabelValue :: string where
  "InventoryLabelValue = ''true''"

record ConfigMap =
  cm_Namespace :: string
  cm_Name :: string
  cm_Labels :: "string gomap option"
  cm_Annotations :: "string gomap option"
  cm_Data :: "string gomap option"

record configMapCanonical =
  cc_APIVersion :: string
  cc_Kind :: string
  cc_Namespace :: string
  cc_Name :: string
  cc_Labels :: "string gomap option"
  cc_Annotations :: "string gomap option"
  cc_Data :: "string gomap option"

definition go_len :: "'v gomap option \<Rightarrow> nat" where
  "go_len m = (case m of None \<Rightarrow> 0 | Some es \<Rightarrow> length es)"

text \<open>\<open>json.Marshal\<close> of the struct: fields in order, an \<open>omitempty\<close> map left out when empty.\<close>

definition json_strmap :: "string gomap \<Rightarrow> json" where
  "json_strmap m = JObj (map (\<lambda>(k, v). (k, JStr v)) m)"

definition omitempty :: "string \<Rightarrow> string gomap option \<Rightarrow> (string \<times> json) list" where
  "omitempty k m = (case m of None \<Rightarrow> [] | Some es \<Rightarrow> if es = [] then [] else [(k, json_strmap es)])"

definition canonical_json :: "configMapCanonical \<Rightarrow> json" where
  "canonical_json c =
     JObj ([(''apiVersion'', JStr (cc_APIVersion c)), (''kind'', JStr (cc_Kind c)),
            (''metadata'',
              JObj ([(''namespace'', JStr (cc_Namespace c)), (''name'', JStr (cc_Name c))]
                    @ omitempty ''labels'' (cc_Labels c) @ omitempty ''annotations'' (cc_Annotations c)))]
           @ omitempty ''data'' (cc_Data c))"

definition materialView :: "ConfigMap \<Rightarrow> ConfigMap" where
  "materialView cm =
     (case cm_Annotations cm of
        None \<Rightarrow> cm
      | Some ann \<Rightarrow> cm \<lparr> cm_Annotations := Some (mdel SyncContentHashAnnotationKey ann) \<rparr>)"

definition MaterialCanonicalJSON :: "ConfigMap \<Rightarrow> string + bytes" where
  "MaterialCanonicalJSON cm =
     (let v = materialView cm;
          c = \<lparr> cc_APIVersion = ''v1'', cc_Kind = ''ConfigMap'',
                cc_Namespace = cm_Namespace v, cc_Name = cm_Name v,
                cc_Labels = (if 0 < go_len (cm_Labels v) then cm_Labels v else None),
                cc_Annotations = (if 0 < go_len (cm_Annotations v) then cm_Annotations v else None),
                cc_Data = (if 0 < go_len (cm_Data v) then cm_Data v else None) \<rparr>
      in Inr (json_marshal (canonical_json c)))"

definition MaterialSHA256Hex :: "ConfigMap \<Rightarrow> string + string" where
  "MaterialSHA256Hex cm =
     bind_res (map_err (\<lambda>e. ''failed to marshal canonical ConfigMap: '' @ e) (MaterialCanonicalJSON cm))
       (\<lambda>b. Inr (hex_encode (sha256 b)))"

subsection \<open>The content a digest stands for\<close>

definition map_or_empty :: "'v gomap option \<Rightarrow> 'v gomap" where
  "map_or_empty m = (case m of None \<Rightarrow> mempty | Some es \<Rightarrow> es)"

definition cm_material :: "ConfigMap \<Rightarrow> string \<times> string \<times> string gomap \<times> string gomap \<times> string gomap" where
  "cm_material cm =
     (cm_Namespace cm, cm_Name cm, map_or_empty (cm_Labels cm),
      mdel SyncContentHashAnnotationKey (map_or_empty (cm_Annotations cm)), map_or_empty (cm_Data cm))"

definition utf8_map :: "string gomap option \<Rightarrow> bool" where
  "utf8_map m = list_all (\<lambda>e. utf8_ok (fst e) \<and> utf8_ok (snd e)) (map_or_empty m)"

definition cm_utf8 :: "ConfigMap \<Rightarrow> bool" where
  "cm_utf8 cm =
     (utf8_ok (cm_Namespace cm) \<and> utf8_ok (cm_Name cm) \<and> utf8_map (cm_Labels cm) \<and>
      utf8_map (cm_Annotations cm) \<and> utf8_map (cm_Data cm))"

definition omit_map :: "string \<Rightarrow> string gomap \<Rightarrow> (string \<times> json) list" where
  "omit_map k m = (if m = [] then [] else [(k, json_strmap m)])"

definition material_json ::
  "string \<times> string \<times> string gomap \<times> string gomap \<times> string gomap \<Rightarrow> json" where
  "material_json = (\<lambda>(ns, n, labels, ann, data).
     JObj ([(''apiVersion'', JStr ''v1''), (''kind'', JStr ''ConfigMap''),
            (''metadata'',
              JObj ([(''namespace'', JStr ns), (''name'', JStr n)]
                    @ omit_map ''labels'' labels @ omit_map ''annotations'' ann))]
           @ omit_map ''data'' data))"

lemma canonical_is_material:
  "MaterialCanonicalJSON cm = Inr (json_marshal (material_json (cm_material cm)))"
  by (auto simp: MaterialCanonicalJSON_def materialView_def material_json_def cm_material_def
      canonical_json_def omitempty_def omit_map_def go_len_def map_or_empty_def mdel_def Let_def
      split: option.splits)

lemma json_strmap_inject: "json_strmap m = json_strmap m' \<longleftrightarrow> m = m'"
proof -
  have "inj (\<lambda>(k :: string, v). (k, JStr v))" by (auto simp: inj_on_def)
  then show ?thesis by (simp add: json_strmap_def inj_map_eq_map)
qed

lemma material_json_inject: "material_json a = material_json b \<longleftrightarrow> a = b"
  by (cases a; cases b)
     (auto simp: material_json_def omit_map_def json_strmap_inject split: if_splits)

lemma ascii_utf8 [simp]:
  "utf8_ok ''apiVersion''" "utf8_ok ''v1''" "utf8_ok ''kind''" "utf8_ok ''ConfigMap''"
  "utf8_ok ''metadata''" "utf8_ok ''namespace''" "utf8_ok ''name''" "utf8_ok ''labels''"
  "utf8_ok ''annotations''" "utf8_ok ''data''"
  by (simp_all add: utf8_ok_ascii)

lemma material_json_raw: "cm_utf8 cm \<Longrightarrow> json_raw (material_json (cm_material cm))"
  by (auto simp: cm_utf8_def utf8_map_def material_json_def cm_material_def omit_map_def
      json_strmap_def list_all_iff mdel_def)

lemma json_strmap_depth: "json_depth (json_strmap m) = 1"
proof -
  have "foldr max (map (\<lambda>e. json_depth (snd e)) (map (\<lambda>(k, v). (k, JStr v)) m)) 0 = 0"
    by (induction m) auto
  then show ?thesis by (simp add: json_strmap_def)
qed

lemma material_json_depth: "json_depth (material_json x) \<le> max_nesting"
  by (cases x) (simp add: material_json_def omit_map_def json_strmap_depth max_nesting_def)

end
