(* ===== verification/Normalize.thy ===== *)
theory Normalize
  imports Externals ConfigMapMaterial
begin

section \<open>internal/inventory/normalize.go: the material part of an object and its digest\<close>

text \<open>
  A decoded object is a Go map: the members of a \<open>JObj\<close> in key order, \<open>None\<close> for the nil map
  a document \<open>null\<close> decodes to. \<open>normalizeKubernetesObject\<close> works on it as the source does (the
  source mutates the nested maps in place; they are not shared, so the result is the value).
  The lemmas give the normal form by its lookups, that it is a fixed point, that the fields the
  cluster and the sync operator write do not reach it, and that the YAML exported for an object has
  the digest computed from the object itself.
\<close>

definition stripMetadataKeys :: "string list" where
  "stripMetadataKeys =
     [''uid'', ''resourceVersion'', ''creationTimestamp'', ''deletionTimestamp'', ''generation'',
      ''managedFields'', ''selfLink'']"

definition lastAppliedAnnotation :: string where
  "lastAppliedAnnotation = ''kubectl.kubernetes.io/last-applied-configuration''"

datatype normalize_error =
    YAMLToJSONFailed
  | UnmarshalObjectFailed
  | MarshalRuntimeObjectFailed
  | JSONToYAMLFailed

text \<open>\<open>var m map[string]interface{}; json.Unmarshal(b, &m)\<close>: an object, or \<open>null\<close> for the nil map.\<close>

definition unmarshal_map :: "ext \<Rightarrow> bytes \<Rightarrow> json gomap option option" where
  "unmarshal_map X b =
     (case json_parse b of
        Some JNull \<Rightarrow> Some None
      | Some (JObj ms) \<Rightarrow>
          (case iface (x_float X) (JObj ms) of Some (JObj m) \<Rightarrow> Some (Some m) | _ \<Rightarrow> None)
      | _ \<Rightarrow> None)"

definition map_json :: "json gomap option \<Rightarrow> json" where
  "map_json m = (case m of None \<Rightarrow> JNull | Some es \<Rightarrow> JObj es)"

definition strip_annotations :: "json gomap \<Rightarrow> json gomap" where
  "strip_annotations meta =
     (case mget meta ''annotations'' of
        Some (JObj ann) \<Rightarrow>
          (let ann2 = mdel SyncContentHashAnnotationKey (mdel lastAppliedAnnotation ann)
           in if ann2 = [] then mdel ''annotations'' meta else mput ''annotations'' (JObj ann2) meta)
      | _ \<Rightarrow> meta)"

definition strip_metadata :: "json gomap \<Rightarrow> json gomap" where
  "strip_metadata meta = strip_annotations (foldl (\<lambda>m k. mdel k m) meta stripMetadataKeys)"

definition normalizeKubernetesObject :: "json gomap \<Rightarrow> json gomap" where
  "normalizeKubernetesObject obj0 =
     (let obj = mdel ''status'' obj0 in
      case mget obj ''metadata'' of
        Some (JObj meta) \<Rightarrow>
          (let meta2 = strip_metadata meta
           in if meta2 = [] then mdel ''metadata'' obj else mput ''metadata'' (JObj meta2) obj)
      | _ \<Rightarrow> obj)"

definition firstYAMLDocument :: "bytes \<Rightarrow> bytes" where
  "firstYAMLDocument src =
     (let s = trim_space src in
      if s = [] then [] else trim_space (hd (split_on (CHR 0x0A) ''---'' s)))"

definition FirstYAMLDocument :: "bytes \<Rightarrow> bytes" where
  "FirstYAMLDocument src = firstYAMLDocument src"

definition MaterialHashFromNormalizedYAML :: "ext \<Rightarrow> bytes \<Rightarrow> normalize_error + string" where
  "MaterialHashFromNormalizedYAML X src =
     (case x_y2j X (firstYAMLDocument src) of
        None \<Rightarrow> Inl YAMLToJSONFailed
      | Some jsonBytes \<Rightarrow>
          (case unmarshal_map X jsonBytes of
             None \<Rightarrow> Inl UnmarshalObjectFailed
           | Some obj \<Rightarrow>
               (let out = json_marshal (map_json (map_option normalizeKubernetesObject obj))
                in Inr (hex_encode (sha256 out)))))"

definition normalizedMapFromRuntimeObject ::
  "ext \<Rightarrow> 'o unstr \<Rightarrow> 'o \<Rightarrow> normalize_error + json gomap option" where
  "normalizedMapFromRuntimeObject X U ob =
     (case u_marshal U ob of
        None \<Rightarrow> Inl MarshalRuntimeObjectFailed
      | Some b \<Rightarrow>
          (case unmarshal_map X b of
             None \<Rightarrow> Inl UnmarshalObjectFailed
           | Some m \<Rightarrow> Inr (map_option normalizeKubernetesObject m)))"

definition NormalizedYAMLAndMaterialHash ::
  "ext \<Rightarrow> 'o unstr \<Rightarrow> 'o \<Rightarrow> normalize_error + bytes \<times> string" where
  "NormalizedYAMLAndMaterialHash X U ob =
     bind_res (normalizedMapFromRuntimeObject X U ob) (\<lambda>m.
       let j = json_marshal (map_json m);
           h = hex_encode (sha256 j)
       in case x_j2y X j of
            None \<Rightarrow> Inl JSONToYAMLFailed
          | Some yb \<Rightarrow> Inr (yb, h))"

subsection \<open>The normal form by its lookups\<close>

lemma mget_foldl_mdel:
  "mget (foldl (\<lambda>m k. mdel k m) m ks) k = (if k \<in> set ks then None else mget m k)"
  by (induction ks arbitrary: m) (auto simp: mget_mdel)

lemma gomap_ok_foldl_mdel: "gomap_ok m \<Longrightarrow> gomap_ok (foldl (\<lambda>m k. mdel k m) m ks)"
  by (induction ks arbitrary: m) auto

definition strip_ann :: "json gomap \<Rightarrow> json gomap" where
  "strip_ann ann = mdel SyncContentHashAnnotationKey (mdel lastAppliedAnnotation ann)"

definition keep_map :: "json gomap \<Rightarrow> json option" where
  "keep_map m = (if m = [] then None else Some (JObj m))"

definition on_obj :: "(json gomap \<Rightarrow> json gomap) \<Rightarrow> json option \<Rightarrow> json option" where
  "on_obj f v = (case v of Some (JObj m) \<Rightarrow> keep_map (f m) | _ \<Rightarrow> v)"

lemma annotations_not_stripped: "''annotations'' \<notin> set stripMetadataKeys"
  by (simp add: stripMetadataKeys_def)

lemma mget_strip_metadata:
  "mget (strip_metadata meta) k =
     (if k \<in> set stripMetadataKeys then None
      else if k = ''annotations'' then on_obj strip_ann (mget meta k)
      else mget meta k)"
proof -
  define m1 where "m1 = foldl (\<lambda>m k. mdel k m) meta stripMetadataKeys"
  have g: "mget m1 k' = (if k' \<in> set stripMetadataKeys then None else mget meta k')" for k'
    by (simp add: m1_def mget_foldl_mdel)
  have ga: "mget m1 ''annotations'' = mget meta ''annotations''"
    using annotations_not_stripped by (simp add: g)
  have "mget (strip_annotations m1) k =
      (if k = ''annotations'' then on_obj strip_ann (mget m1 k) else mget m1 k)"
    by (auto simp: strip_annotations_def on_obj_def keep_map_def strip_ann_def mget_mdel mget_mput Let_def
        split: option.splits json.splits)
  then show ?thesis
    using annotations_not_stripped by (auto simp: strip_metadata_def m1_def[symmetric] g ga)
qed

lemma mget_normalize:
  "mget (normalizeKubernetesObject ob) k =
     (if k = ''status'' then None
      else if k = ''metadata'' then on_obj strip_metadata (mget ob k)
      else mget ob k)"
  by (auto simp: normalizeKubernetesObject_def on_obj_def keep_map_def mget_mdel mget_mput Let_def
      split: option.splits json.splits)

lemma gomap_ok_strip_metadata: "gomap_ok m \<Longrightarrow> gomap_ok (strip_metadata m)"
  by (auto simp: strip_metadata_def strip_annotations_def gomap_ok_foldl_mdel Let_def
      split: option.splits json.splits)

lemma gomap_ok_normalize: "gomap_ok m \<Longrightarrow> gomap_ok (normalizeKubernetesObject m)"
  by (auto simp: normalizeKubernetesObject_def Let_def split: option.splits json.splits)

text \<open>Two objects normalise alike when they agree on what the normal form keeps.\<close>

lemma normalize_eqI:
  assumes "gomap_ok a" "gomap_ok b"
    "\<And>k. k \<noteq> ''status'' \<Longrightarrow> k \<noteq> ''metadata'' \<Longrightarrow> mget a k = mget b k"
    "on_obj strip_metadata (mget a ''metadata'') = on_obj strip_metadata (mget b ''metadata'')"
  shows "normalizeKubernetesObject a = normalizeKubernetesObject b"
  by (rule gomap_ext) (use assms in \<open>auto simp: gomap_ok_normalize mget_normalize\<close>)

lemma strip_metadata_eqI:
  assumes "gomap_ok a" "gomap_ok b"
    "\<And>k. k \<notin> set stripMetadataKeys \<Longrightarrow> k \<noteq> ''annotations'' \<Longrightarrow> mget a k = mget b k"
    "on_obj strip_ann (mget a ''annotations'') = on_obj strip_ann (mget b ''annotations'')"
  shows "strip_metadata a = strip_metadata b"
  by (rule gomap_ext) (use assms in \<open>auto simp: gomap_ok_strip_metadata mget_strip_metadata\<close>)

lemma strip_ann_idem [simp]: "strip_ann (strip_ann a) = strip_ann a"
  by (simp add: strip_ann_def mdel_comm[of SyncContentHashAnnotationKey lastAppliedAnnotation])

lemma on_obj_idem: "f [] = [] \<Longrightarrow> (\<And>m. v = Some (JObj m) \<Longrightarrow> f (f m) = f m) \<Longrightarrow> on_obj f (on_obj f v) = on_obj f v"
  by (auto simp: on_obj_def keep_map_def split: option.splits json.splits)

lemma strip_metadata_idem: "gomap_ok m \<Longrightarrow> strip_metadata (strip_metadata m) = strip_metadata m"
  by (rule strip_metadata_eqI)
     (auto simp: gomap_ok_strip_metadata mget_strip_metadata annotations_not_stripped
       intro!: on_obj_idem, simp add: strip_ann_def mdel_def)

lemma strip_metadata_Nil [simp]: "strip_metadata [] = []"
  by (simp add: strip_metadata_def strip_annotations_def stripMetadataKeys_def mdel_def)

lemma normalize_idem_aux:
  assumes "gomap_ok ob" "\<And>meta. mget ob ''metadata'' = Some (JObj meta) \<Longrightarrow> gomap_ok meta"
  shows "normalizeKubernetesObject (normalizeKubernetesObject ob) = normalizeKubernetesObject ob"
proof (rule normalize_eqI)
  show "on_obj strip_metadata (mget (normalizeKubernetesObject ob) ''metadata'')
      = on_obj strip_metadata (mget ob ''metadata'')"
    using assms(2) by (auto simp: mget_normalize intro!: on_obj_idem strip_metadata_idem)
qed (use assms(1) in \<open>auto simp: gomap_ok_normalize mget_normalize\<close>)

subsection \<open>Decoded values stay decoded values\<close>

lemma json_norm_gomap: "json_norm flt (JObj m) \<Longrightarrow> gomap_ok m"
  by simp

lemma json_norm_mget: "json_norm flt (JObj m) \<Longrightarrow> mget m k = Some v \<Longrightarrow> json_norm flt v"
  by (auto simp: mget_in_set list_all_iff)

lemma json_norm_mdel: "json_norm flt (JObj m) \<Longrightarrow> json_norm flt (JObj (mdel k m))"
  by (auto simp: list_all_iff mdel_def) (metis gomap_ok_mdel mdel_def)

lemma set_mput_subset: "set (mput k v m) \<subseteq> insert (k, v) (set m)"
  by (induction k v m rule: mput.induct) auto

lemma json_norm_mput:
  "json_norm flt (JObj m) \<Longrightarrow> utf8_ok k \<Longrightarrow> json_norm flt v \<Longrightarrow> json_norm flt (JObj (mput k v m))"
  using set_mput_subset[of k v m] by (auto simp: list_all_iff)

lemma json_depth_mget: "gomap_ok m \<Longrightarrow> mget m k = Some v \<Longrightarrow> json_depth v < json_depth (JObj m)"
proof -
  assume "gomap_ok m" "mget m k = Some v"
  then have "(k, v) \<in> set m" by (simp add: mget_in_set)
  then have "json_depth v \<in> set (map (\<lambda>e. json_depth (snd e)) m)" by force
  then have "json_depth v \<le> foldr max (map (\<lambda>e. json_depth (snd e)) m) 0" by (rule le_foldr_max)
  then show ?thesis by simp
qed

lemma json_depth_obj_le: "json_depth (JObj m) \<le> Suc d \<longleftrightarrow> (\<forall>e \<in> set m. json_depth (snd e) \<le> d)"
  by (auto simp: foldr_max_le)

lemma json_depth_obj_pos: "json_depth (JObj m) \<noteq> 0"
  by simp

lemma json_depth_mdel: "json_depth (JObj m) \<le> d \<Longrightarrow> json_depth (JObj (mdel k m)) \<le> d"
  by (cases d) (auto simp: json_depth_obj_le json_depth_obj_pos mdel_def simp del: json_depth.simps(2))

lemma json_depth_mput:
  "json_depth (JObj m) \<le> d \<Longrightarrow> json_depth v < d \<Longrightarrow> json_depth (JObj (mput k v m)) \<le> d"
  using set_mput_subset[of k v m]
  by (cases d) (auto simp: json_depth_obj_le simp del: json_depth.simps(2))

text \<open>Everything the normalisation does keeps a decoded map of bounded depth one.\<close>

definition norm_map :: "(string \<Rightarrow> string option) \<Rightarrow> nat \<Rightarrow> json gomap \<Rightarrow> bool" where
  "norm_map flt d m = (json_norm flt (JObj m) \<and> json_depth (JObj m) \<le> d)"

lemma norm_map_mdel: "norm_map flt d m \<Longrightarrow> norm_map flt d (mdel k m)"
  unfolding norm_map_def using json_norm_mdel json_depth_mdel by blast

lemma norm_map_mput:
  "norm_map flt d m \<Longrightarrow> utf8_ok k \<Longrightarrow> norm_map flt e v \<Longrightarrow> e < d \<Longrightarrow> norm_map flt d (mput k (JObj v) m)"
  unfolding norm_map_def using json_norm_mput json_depth_mput by (metis order_le_less_trans)

lemma norm_map_child:
  "norm_map flt d m \<Longrightarrow> mget m k = Some (JObj v) \<Longrightarrow> norm_map flt (d - 1) v \<and> 0 < d"
  unfolding norm_map_def using json_norm_mget json_depth_mget[of m k "JObj v"] json_norm_gomap by fastforce

lemma norm_map_foldl_mdel: "norm_map flt d m \<Longrightarrow> norm_map flt d (foldl (\<lambda>m k. mdel k m) m ks)"
  by (induction ks arbitrary: m) (auto intro: norm_map_mdel)

lemma norm_map_strip_annotations:
  assumes "norm_map flt d m"
  shows "norm_map flt d (strip_annotations m)"
proof (cases "\<exists>ann. mget m ''annotations'' = Some (JObj ann)")
  case True
  then obtain ann where a: "mget m ''annotations'' = Some (JObj ann)" by blast
  have c: "norm_map flt (d - 1) (strip_ann ann)" "0 < d"
    using norm_map_child[OF assms a] by (auto simp: strip_ann_def intro: norm_map_mdel)
  show ?thesis
    using norm_map_mput[OF assms _ c(1), of "''annotations''"] norm_map_mdel[OF assms] c(2) a
    by (simp add: strip_annotations_def strip_ann_def Let_def)
qed (use assms in \<open>auto simp: strip_annotations_def split: option.splits json.splits\<close>)

lemma norm_map_strip_metadata: "norm_map flt d m \<Longrightarrow> norm_map flt d (strip_metadata m)"
  by (simp add: strip_metadata_def norm_map_strip_annotations norm_map_foldl_mdel)

lemma norm_map_normalize:
  assumes "norm_map flt d m"
  shows "norm_map flt d (normalizeKubernetesObject m)"
proof -
  define ob where "ob = mdel ''status'' m"
  have ob: "norm_map flt d ob" using assms by (simp add: ob_def norm_map_mdel)
  show ?thesis
  proof (cases "\<exists>meta. mget ob ''metadata'' = Some (JObj meta)")
    case True
    then obtain meta where a: "mget ob ''metadata'' = Some (JObj meta)" by blast
    have c: "norm_map flt (d - 1) (strip_metadata meta)" "0 < d"
      using norm_map_child[OF ob a] by (auto intro: norm_map_strip_metadata)
    show ?thesis
      using norm_map_mput[OF ob _ c(1), of "''metadata''"] norm_map_mdel[OF ob] c(2) a
      by (simp add: normalizeKubernetesObject_def ob_def[symmetric] Let_def)
  qed (use ob in \<open>auto simp: normalizeKubernetesObject_def ob_def[symmetric] Let_def
         split: option.splits json.splits\<close>)
qed

lemma normalize_idem:
  assumes "norm_map flt d m"
  shows "normalizeKubernetesObject (normalizeKubernetesObject m) = normalizeKubernetesObject m"
proof (rule normalize_idem_aux)
  show "gomap_ok m" using assms by (simp add: norm_map_def)
  show "gomap_ok meta" if "mget m ''metadata'' = Some (JObj meta)" for meta
    using norm_map_child[OF assms that] by (simp add: norm_map_def)
qed

subsection \<open>Decoding and printing objects\<close>

definition norm_opt :: "(string \<Rightarrow> string option) \<Rightarrow> json gomap option \<Rightarrow> bool" where
  "norm_opt flt m = (case m of None \<Rightarrow> True | Some es \<Rightarrow> norm_map flt max_nesting es)"

lemma unmarshal_map_wf:
  assumes "float_text_ok (x_float X)" "unmarshal_map X b = Some m"
  shows "norm_opt (x_float X) m"
proof (cases m)
  case (Some es)
  then obtain ms where ms: "json_parse b = Some (JObj ms)"
    "iface (x_float X) (JObj ms) = Some (JObj es)"
    using assms(2) by (auto simp: unmarshal_map_def split: option.splits json.splits)
  have wf: "json_text (JObj ms) \<and> json_depth (JObj ms) \<le> max_nesting"
    using ms(1) by (rule json_parse_wf)
  have "json_norm (x_float X) (JObj es)"
    using iface_is_norm[OF assms(1)] wf ms(2) by blast
  moreover have "json_depth (JObj es) \<le> max_nesting"
    using iface_depth[OF ms(2)] wf by linarith
  ultimately show ?thesis by (simp add: norm_opt_def norm_map_def Some)
qed (simp add: norm_opt_def)

lemma unmarshal_marshal_map:
  assumes "norm_opt (x_float X) m"
  shows "unmarshal_map X (json_marshal (map_json m)) = Some m"
proof (cases m)
  case None
  have "json_parse (json_marshal JNull) = Some JNull" by code_simp
  then show ?thesis by (simp add: None unmarshal_map_def map_json_def del: json_marshal.simps)
next
  case (Some es)
  with assms have n: "json_norm (x_float X) (JObj es)" "json_depth (JObj es) \<le> max_nesting"
    by (simp_all add: norm_opt_def norm_map_def)
  have "json_parse (json_marshal (JObj es)) = Some (JObj es)"
    by (rule json_parse_marshal[OF json_norm_raw[OF n(1)] n(2)])
  moreover have "iface (x_float X) (JObj es) = Some (JObj es)"
    by (rule iface_norm[OF n(1)])
  ultimately show ?thesis
    by (simp add: Some unmarshal_map_def map_json_def del: json_marshal.simps iface.simps)
qed

lemma normalize_opt_wf: "norm_opt flt m \<Longrightarrow> norm_opt flt (map_option normalizeKubernetesObject m)"
  by (cases m) (auto simp: norm_opt_def norm_map_normalize)

lemma normalize_opt_idem:
  "norm_opt flt m \<Longrightarrow> map_option normalizeKubernetesObject (map_option normalizeKubernetesObject m)
     = map_option normalizeKubernetesObject m"
  by (cases m) (auto simp: norm_opt_def normalize_idem)

text \<open>
  What the code relies on of \<open>sigs.k8s.io/yaml\<close>: the YAML text \<open>yb\<close> printed for the JSON text
  \<open>j\<close> converts back to a JSON text that decodes to the same object. It is stated for one
  document, and for what \<open>firstYAMLDocument\<close> keeps of it, since that function also drops blank
  lines at the end.
\<close>

definition yaml_faithful :: "ext \<Rightarrow> bytes \<Rightarrow> bytes \<Rightarrow> bool" where
  "yaml_faithful X j yb =
     (case x_y2j X (firstYAMLDocument yb) of
        None \<Rightarrow> False
      | Some j' \<Rightarrow> unmarshal_map X j' = unmarshal_map X j)"

lemma normalized_map_wf:
  assumes "float_text_ok (x_float X)" "normalizedMapFromRuntimeObject X U ob = Inr m"
  shows "norm_opt (x_float X) m" "map_option normalizeKubernetesObject m = m"
proof -
  obtain m0 where m0: "norm_opt (x_float X) m0" "m = map_option normalizeKubernetesObject m0"
    using assms unmarshal_map_wf[OF assms(1)]
    by (auto simp: normalizedMapFromRuntimeObject_def split: option.splits)
  show "norm_opt (x_float X) m" using m0 by (simp add: normalize_opt_wf)
  show "map_option normalizeKubernetesObject m = m"
    using normalize_opt_idem[OF m0(1)] m0(2) by simp
qed

lemma normalized_yaml_hash:
  "NormalizedYAMLAndMaterialHash X U ob = Inr (yb, h) \<longleftrightarrow>
   (\<exists>m. normalizedMapFromRuntimeObject X U ob = Inr m \<and>
        x_j2y X (json_marshal (map_json m)) = Some yb \<and>
        h = sha256_hex (json_marshal (map_json m)))"
  by (auto simp: NormalizedYAMLAndMaterialHash_def bind_res_eq_Inr sha256_hex_def Let_def
      split: option.splits)

lemma hash_of_yaml:
  "MaterialHashFromNormalizedYAML X src = Inr h \<longleftrightarrow>
   (\<exists>j m. x_y2j X (firstYAMLDocument src) = Some j \<and> unmarshal_map X j = Some m \<and>
          h = sha256_hex (json_marshal (map_json (map_option normalizeKubernetesObject m))))"
  by (auto simp: MaterialHashFromNormalizedYAML_def sha256_hex_def Let_def split: option.splits)

lemma exported_yaml_hash:
  assumes "float_text_ok (x_float X)" "NormalizedYAMLAndMaterialHash X U ob = Inr (yb, h)"
    "normalizedMapFromRuntimeObject X U ob = Inr m" "yaml_faithful X (json_marshal (map_json m)) yb"
  shows "MaterialHashFromNormalizedYAML X yb = Inr h"
proof -
  note wf = normalized_map_wf[OF assms(1,3)]
  obtain j where j: "x_y2j X (firstYAMLDocument yb) = Some j" "unmarshal_map X j = Some m"
    using assms(4) unmarshal_marshal_map[OF wf(1)]
    by (auto simp: yaml_faithful_def split: option.splits)
  have h: "h = sha256_hex (json_marshal (map_json m))"
    using assms(2,3) unfolding normalized_yaml_hash by auto
  show ?thesis
    unfolding hash_of_yaml using j wf(2) h by auto
qed

subsection \<open>What does not reach the digest\<close>

text \<open>Writing an annotation, a metadata field or the status of a decoded object.\<close>

definition obj_or_empty :: "json option \<Rightarrow> json gomap" where
  "obj_or_empty v = (case v of Some (JObj m) \<Rightarrow> m | _ \<Rightarrow> mempty)"

definition set_metadata :: "string \<Rightarrow> json \<Rightarrow> json gomap \<Rightarrow> json gomap" where
  "set_metadata k v ob = mput ''metadata'' (JObj (mput k v (obj_or_empty (mget ob ''metadata'')))) ob"

definition set_annotation :: "string \<Rightarrow> string \<Rightarrow> json gomap \<Rightarrow> json gomap" where
  "set_annotation k v ob =
     set_metadata ''annotations''
       (JObj (mput k (JStr v) (obj_or_empty (mget (obj_or_empty (mget ob ''metadata'')) ''annotations'')))) ob"

definition map_or_absent :: "json option \<Rightarrow> bool" where
  "map_or_absent v = (case v of None \<Rightarrow> True | Some (JObj m) \<Rightarrow> gomap_ok m | _ \<Rightarrow> False)"

lemma strip_ann_mput:
  "gomap_ok a \<Longrightarrow> k = SyncContentHashAnnotationKey \<or> k = lastAppliedAnnotation \<Longrightarrow>
   strip_ann (mput k v a) = strip_ann a"
  by (rule gomap_ext) (auto simp: strip_ann_def mget_mdel mget_mput)

lemma keep_map_strip:
  "map_or_absent v \<Longrightarrow> f [] = [] \<Longrightarrow> keep_map (f (obj_or_empty v)) = on_obj f v"
  by (auto simp: map_or_absent_def obj_or_empty_def on_obj_def keep_map_def split: option.splits json.splits)

lemma normalize_set_metadata:
  assumes "gomap_ok ob" "map_or_absent (mget ob ''metadata'')"
    "strip_metadata (mput k v (obj_or_empty (mget ob ''metadata'')))
       = strip_metadata (obj_or_empty (mget ob ''metadata''))"
  shows "normalizeKubernetesObject (set_metadata k v ob) = normalizeKubernetesObject ob"
proof (rule normalize_eqI)
  show "on_obj strip_metadata (mget (set_metadata k v ob) ''metadata'')
      = on_obj strip_metadata (mget ob ''metadata'')"
    using keep_map_strip[OF assms(2), of strip_metadata] assms(3)
    by (simp add: set_metadata_def mget_mput on_obj_def)
qed (use assms in \<open>auto simp: set_metadata_def mget_mput\<close>)

lemma gomap_ok_obj_or_empty: "map_or_absent v \<Longrightarrow> gomap_ok (obj_or_empty v)"
  by (auto simp: map_or_absent_def obj_or_empty_def split: option.splits json.splits)

lemma normalize_ignores_system_field:
  assumes "gomap_ok ob" "map_or_absent (mget ob ''metadata'')" "k \<in> set stripMetadataKeys"
  shows "normalizeKubernetesObject (set_metadata k v ob) = normalizeKubernetesObject ob"
  using assms
  by (intro normalize_set_metadata strip_metadata_eqI)
     (auto simp: mget_mput gomap_ok_obj_or_empty annotations_not_stripped)

lemma normalize_ignores_stamp:
  assumes "gomap_ok ob" "map_or_absent (mget ob ''metadata'')"
    "map_or_absent (mget (obj_or_empty (mget ob ''metadata'')) ''annotations'')"
    "k = SyncContentHashAnnotationKey \<or> k = lastAppliedAnnotation"
  shows "normalizeKubernetesObject (set_annotation k v ob) = normalizeKubernetesObject ob"
  unfolding set_annotation_def
proof (intro normalize_set_metadata strip_metadata_eqI)
  let ?meta = "obj_or_empty (mget ob ''metadata'')"
  let ?a = "obj_or_empty (mget ?meta ''annotations'')"
  have "keep_map (strip_ann (mput k (JStr v) ?a)) = on_obj strip_ann (mget ?meta ''annotations'')"
    using keep_map_strip[OF assms(3), of strip_ann] strip_ann_mput[OF gomap_ok_obj_or_empty[OF assms(3)] assms(4)]
    by (simp add: strip_ann_def mdel_def)
  then show "on_obj strip_ann (mget (mput ''annotations'' (JObj (mput k (JStr v) ?a)) ?meta) ''annotations'')
      = on_obj strip_ann (mget ?meta ''annotations'')"
    by (simp add: mget_mput on_obj_def)
qed (use assms in \<open>auto simp: mget_mput gomap_ok_obj_or_empty\<close>)

lemma normalize_ignores_status:
  "gomap_ok ob \<Longrightarrow> normalizeKubernetesObject (mput ''status'' v ob) = normalizeKubernetesObject ob"
  by (rule normalize_eqI) (auto simp: mget_mput)

end
