(* ===== verification/SyncApply.thy ===== *)
theory SyncApply
  imports SyncPath Normalize
begin

section \<open>internal/sync/apply.go: a Git file onto the cluster\<close>

text \<open>
  The identity check between path and manifest and the apply with the stamped annotation. Errors keep
  their structure; \<open>SyncReply\<close> gives their text. The lemmas give the check as an equivalence, the one
  effect a successful run has, and that a failing run before the patch has none.
\<close>

definition fieldOwner :: string where
  "fieldOwner = ''accord-sync-operator''"

definition argoExpectedAPIVersion :: string where
  "argoExpectedAPIVersion = ''argoproj.io/v1alpha1''"

record PathManifestMismatchError =
  mm_Field :: string
  mm_PathExpect :: string
  mm_ManifestSeen :: string

datatype apply_error =
    ComputeHash normalize_error
  | ConvertYAMLToJSON
  | ParseUnstructured
  | PathManifestMismatch PathManifestMismatchError
  | ResolveKind string
  | ServerSideApply api_error

definition IsPathManifestMismatch :: "apply_error \<Rightarrow> bool" where
  "IsPathManifestMismatch e = (case e of PathManifestMismatch _ \<Rightarrow> True | _ \<Rightarrow> False)"

definition mismatch :: "string \<Rightarrow> string \<Rightarrow> string \<Rightarrow> apply_error option" where
  "mismatch fld expect seen =
     Some (PathManifestMismatch \<lparr> mm_Field = fld, mm_PathExpect = expect, mm_ManifestSeen = seen \<rparr>)"

definition validatePathManifestIdentity :: "'o unstr \<Rightarrow> ParsedInventoryPath \<Rightarrow> 'o \<Rightarrow> apply_error option" where
  "validatePathManifestIdentity U parsed ob =
     (if u_apiversion U ob \<noteq> argoExpectedAPIVersion then
        mismatch ''apiVersion'' argoExpectedAPIVersion (u_apiversion U ob)
      else (case ArgoKindFromPlural (pp_PluralKind parsed) of
              Inl e \<Rightarrow> Some (ResolveKind e)
            | Inr expectedKind \<Rightarrow>
                if u_kind U ob \<noteq> expectedKind then mismatch ''kind'' expectedKind (u_kind U ob)
                else if u_namespace U ob \<noteq> pp_Namespace parsed then
                  mismatch ''namespace'' (pp_Namespace parsed) (u_namespace U ob)
                else if u_name U ob \<noteq> pp_Name parsed then
                  mismatch ''name'' (pp_Name parsed) (u_name U ob)
                else None))"

text \<open>The annotations to apply: a copy of the manifest's with the digest on top.\<close>

definition stamped_annotations :: "'o unstr \<Rightarrow> 'o \<Rightarrow> string \<Rightarrow> string gomap" where
  "stamped_annotations U ob h =
     mput SyncContentHashAnnotationKey h
       (mput_all (case u_annotations U ob of None \<Rightarrow> [] | Some ann \<Rightarrow> ann) mempty)"

definition ApplyInventoryYAML ::
  "ext \<Rightarrow> 'o unstr \<Rightarrow> ('o, 'w) client \<Rightarrow> ParsedInventoryPath \<Rightarrow> bytes \<Rightarrow> ('o, 'w) world
    \<Rightarrow> apply_error option \<times> ('o, 'w) world" where
  "ApplyInventoryYAML X U C parsed gitYAML w =
     (case MaterialHashFromNormalizedYAML X gitYAML of
        Inl e \<Rightarrow> (Some (ComputeHash e), w)
      | Inr incomingHash \<Rightarrow>
     (case x_y2j X (FirstYAMLDocument gitYAML) of
        None \<Rightarrow> (Some ConvertYAMLToJSON, w)
      | Some jsonBytes \<Rightarrow>
     (case u_unmarshal U jsonBytes of
        None \<Rightarrow> (Some ParseUnstructured, w)
      | Some ob \<Rightarrow>
     (case validatePathManifestIdentity U parsed ob of
        Some e \<Rightarrow> (Some e, w)
      | None \<Rightarrow>
     (let ob2 = u_set_annotations U (stamped_annotations U ob incomingHash) ob;
          (r, w1) = do_patch C ob2 fieldOwner True w
      in case r of
           Some e \<Rightarrow> (Some (ServerSideApply e), w1)
         | None \<Rightarrow> (None, w1))))))"

subsection \<open>The identity check\<close>

definition manifest_matches :: "'o unstr \<Rightarrow> ParsedInventoryPath \<Rightarrow> 'o \<Rightarrow> bool" where
  "manifest_matches U parsed ob =
     (u_apiversion U ob = argoExpectedAPIVersion \<and>
      ArgoKindFromPlural (pp_PluralKind parsed) = Inr (u_kind U ob) \<and>
      u_namespace U ob = pp_Namespace parsed \<and> u_name U ob = pp_Name parsed)"

lemma validate_iff: "validatePathManifestIdentity U parsed ob = None \<longleftrightarrow> manifest_matches U parsed ob"
  by (auto simp: validatePathManifestIdentity_def manifest_matches_def mismatch_def split: sum.splits)

lemma validate_field:
  assumes "validatePathManifestIdentity U parsed ob = Some (PathManifestMismatch m)"
  shows "mm_PathExpect m \<noteq> mm_ManifestSeen m"
    "mm_Field m \<in> {''apiVersion'', ''kind'', ''namespace'', ''name''}"
  using assms
  by (auto simp: validatePathManifestIdentity_def mismatch_def split: sum.splits if_splits)

text \<open>On a path the webhook accepted, the kind always resolves, so a refusal is a mismatch.\<close>

lemma validate_parsed:
  assumes "ParseInventoryExportPath gp = Some parsed" "validatePathManifestIdentity U parsed ob = Some e"
  shows "IsPathManifestMismatch e"
proof -
  obtain k where "ArgoKindFromPlural (pp_PluralKind parsed) = Inr k"
    using parse_kind[OF assms(1)] by blast
  then show ?thesis
    using assms(2)
    by (auto simp: validatePathManifestIdentity_def mismatch_def IsPathManifestMismatch_def split: if_splits)
qed

subsection \<open>The effect of an apply\<close>

lemma gomap_ok_stamped [simp]: "gomap_ok (stamped_annotations U ob h)"
  by (simp add: stamped_annotations_def)

lemma stamped_not_empty [simp]: "stamped_annotations U ob h \<noteq> mempty"
  by (simp add: stamped_annotations_def)

lemma mget_stamped:
  assumes "\<And>ann. u_annotations U ob = Some ann \<Longrightarrow> gomap_ok ann"
  shows "mget (stamped_annotations U ob h) k =
    (if k = SyncContentHashAnnotationKey then Some h
     else case u_annotations U ob of None \<Rightarrow> None | Some ann \<Rightarrow> mget ann k)"
  using assms
  by (auto simp: stamped_annotations_def mget_mput mget_mput_all_gomap mput_all_def[of "[]"]
      split: option.splits)

definition applies :: "ext \<Rightarrow> 'o unstr \<Rightarrow> ParsedInventoryPath \<Rightarrow> bytes \<Rightarrow> 'o \<Rightarrow> bool" where
  "applies X U parsed gitYAML ob2 =
     (\<exists>h j ob. MaterialHashFromNormalizedYAML X gitYAML = Inr h \<and>
        x_y2j X (firstYAMLDocument gitYAML) = Some j \<and> u_unmarshal U j = Some ob \<and>
        manifest_matches U parsed ob \<and> ob2 = u_set_annotations U (stamped_annotations U ob h) ob)"

lemma apply_cases:
  "(\<exists>ob2. applies X U parsed y ob2 \<and>
      ApplyInventoryYAML X U C parsed y w =
        (map_option ServerSideApply (fst (do_patch C ob2 fieldOwner True w)), snd (do_patch C ob2 fieldOwner True w)))
   \<or> (\<exists>e. (\<forall>a. e \<noteq> ServerSideApply a) \<and> ApplyInventoryYAML X U C parsed y w = (Some e, w))"
proof -
  have v: "\<forall>a. e \<noteq> ServerSideApply a" if "validatePathManifestIdentity U parsed ob = Some e" for ob e
    using that by (auto simp: validatePathManifestIdentity_def mismatch_def split: sum.splits if_splits)
  consider (hash) e where "MaterialHashFromNormalizedYAML X y = Inl e"
    | (conv) h where "MaterialHashFromNormalizedYAML X y = Inr h" "x_y2j X (firstYAMLDocument y) = None"
    | (parse) h j where "MaterialHashFromNormalizedYAML X y = Inr h" "x_y2j X (firstYAMLDocument y) = Some j"
        "u_unmarshal U j = None"
    | (obj) h j ob where "MaterialHashFromNormalizedYAML X y = Inr h" "x_y2j X (firstYAMLDocument y) = Some j"
        "u_unmarshal U j = Some ob"
    by (metis not_Some_eq old.sum.exhaust)
  then show ?thesis
  proof cases
    case obj
    show ?thesis
    proof (cases "validatePathManifestIdentity U parsed ob")
      case None
      let ?ob2 = "u_set_annotations U (stamped_annotations U ob h) ob"
      have "applies X U parsed y ?ob2"
        using obj None by (auto simp: applies_def validate_iff)
      moreover have "ApplyInventoryYAML X U C parsed y w =
          (map_option ServerSideApply (fst (do_patch C ?ob2 fieldOwner True w)), snd (do_patch C ?ob2 fieldOwner True w))"
        using obj None
        by (simp add: ApplyInventoryYAML_def FirstYAMLDocument_def Let_def split: prod.splits option.splits)
      ultimately show ?thesis by blast
    next
      case (Some e)
      then have "ApplyInventoryYAML X U C parsed y w = (Some e, w)"
        using obj by (simp add: ApplyInventoryYAML_def FirstYAMLDocument_def)
      then show ?thesis using v[OF Some] by blast
    qed
  qed (auto simp: ApplyInventoryYAML_def FirstYAMLDocument_def)
qed

lemma apply_calls:
  "w_calls (snd (ApplyInventoryYAML X U C parsed y w)) = w_calls w \<or>
   (\<exists>ob2. applies X U parsed y ob2 \<and>
      w_calls (snd (ApplyInventoryYAML X U C parsed y w)) = w_calls w @ [PatchCall ob2 fieldOwner True])"
  using apply_cases[of X U parsed y C w] by auto

lemma apply_success:
  "fst (ApplyInventoryYAML X U C parsed y w) = None \<Longrightarrow>
   \<exists>ob2. applies X U parsed y ob2 \<and>
      w_calls (snd (ApplyInventoryYAML X U C parsed y w)) = w_calls w @ [PatchCall ob2 fieldOwner True]"
  using apply_cases[of X U parsed y C w] by auto

end
