(* ===== verification/SyncFetch.thy ===== *)
theory SyncFetch
  imports Externals
begin

section \<open>internal/sync/fetch.go: the raw file of a commit\<close>

text \<open>
  One GET request. \<open>io.ReadAll(io.LimitReader(body, n))\<close> returns the first \<open>n\<close> bytes and sees a
  read error only when it comes before them. A nil client stands for \<open>http.DefaultClient\<close>, the
  argument \<open>C\<close> in both cases.
\<close>

datatype fetch_error =
    BuildRequestFailed
  | HttpGetFailed
  | ReadBodyFailed
  | RawFetchStatus int string

definition maxRawFile :: nat where
  "maxRawFile = 8 * 2 ^ 20"

definition read_limited :: "nat \<Rightarrow> bytes \<Rightarrow> bool \<Rightarrow> bytes option" where
  "read_limited n body broken = (if broken \<and> length body < n then None else Some (take n body))"

definition raw_url :: "string \<Rightarrow> string \<Rightarrow> string \<Rightarrow> string" where
  "raw_url fullName sha filePath =
     ''https://raw.githubusercontent.com/'' @ fullName @ ''/'' @ sha @ ''/''
       @ trim_prefix (trim_space filePath) ''/''"

definition raw_request :: "string \<Rightarrow> string \<Rightarrow> http_request" where
  "raw_request token u =
     \<lparr> rq_url = u,
       rq_headers = (if trim_space token \<noteq> '''' then [(''Authorization'', ''Bearer '' @ token)] else []) \<rparr>"

definition FetchGitHubRawFile ::
  "ext \<Rightarrow> ('o, 'w) client \<Rightarrow> string \<Rightarrow> string \<Rightarrow> string \<Rightarrow> string \<Rightarrow> ('o, 'w) world
    \<Rightarrow> (fetch_error + bytes) \<times> ('o, 'w) world" where
  "FetchGitHubRawFile X C token fullName sha filePath w =
     (let u = raw_url fullName sha filePath in
      if \<not> x_url_ok X u then (Inl BuildRequestFailed, w)
      else
        (let (resp, w1) = do_http C (raw_request token u) w in
         case resp of
           None \<Rightarrow> (Inl HttpGetFailed, w1)
         | Some r \<Rightarrow>
             (case read_limited maxRawFile (rs_body r) (rs_read_error r) of
                None \<Rightarrow> (Inl ReadBodyFailed, w1)
              | Some body \<Rightarrow>
                  if rs_status r \<noteq> 200 then (Inl (RawFetchStatus (rs_status r) u), w1)
                  else (Inr body, w1))))"

lemma read_limited_length: "read_limited n b e = Some r \<Longrightarrow> length r \<le> n"
  by (auto simp: read_limited_def split: if_splits)

lemma fetch_ok:
  "fst (FetchGitHubRawFile X C token fullName sha p w) = Inr b \<Longrightarrow>
   \<exists>r. fst (do_http C (raw_request token (raw_url fullName sha p)) w) = Some r \<and>
       rs_status r = 200 \<and> b = take maxRawFile (rs_body r)"
  by (auto simp: FetchGitHubRawFile_def read_limited_def Let_def
      split: prod.splits option.splits if_splits)

lemma fetch_bound:
  "fst (FetchGitHubRawFile X C token fullName sha p w) = Inr b \<Longrightarrow> length b \<le> maxRawFile"
  using fetch_ok by fastforce

lemma fetch_calls:
  "w_calls (snd (FetchGitHubRawFile X C token fullName sha p w)) =
     w_calls w @ (if x_url_ok X (raw_url fullName sha p)
                  then [HttpCall (raw_request token (raw_url fullName sha p))] else [])"
  using do_calls(4)[of C "raw_request token (raw_url fullName sha p)" w]
  by (auto simp: FetchGitHubRawFile_def Let_def simp del: do_calls split: prod.splits option.splits)

text \<open>A body longer than the limit comes back cut, with no error.\<close>

lemma fetch_truncates:
  assumes "x_url_ok X (raw_url fullName sha p)"
    "fst (do_http C (raw_request token (raw_url fullName sha p)) w) = Some r"
    "rs_status r = 200" "maxRawFile < length (rs_body r)"
  shows "fst (FetchGitHubRawFile X C token fullName sha p w) = Inr (take maxRawFile (rs_body r))"
  using assms by (auto simp: FetchGitHubRawFile_def read_limited_def Let_def split: prod.splits)

end
