(* ===== verification/SyncGithub.thy ===== *)
theory SyncGithub
  imports GoJSONLaws GoPath
begin

section \<open>internal/sync/github.go: the paths of a push event\<close>

text \<open>
  \<open>json.Unmarshal\<close> into \<open>githubPushEvent\<close> member by member, as \<open>encoding/json\<close> does it: a field is
  found by its exact name or by its folded name, \<open>null\<close> leaves a string or a struct as it is and
  clears a pointer or a slice, a member that comes twice is decoded over the first, a value of the
  wrong type makes the call fail. A slice keeps the cells it has been given: decoding a shorter array
  over it shortens it, and a later longer array finds the old cells again. Then the sets of paths and
  the sorted lists made from them.
\<close>

subsection \<open>Field names\<close>

definition upper_ascii :: "char \<Rightarrow> char" where
  "upper_ascii c = (let n = (of_char c :: nat) in if 97 \<le> n \<and> n \<le> 122 then byte (n - 32) else c)"

text \<open>\<open>foldName\<close>: upper case, and the two non-ASCII runes that fold to ASCII letters (K and long s).\<close>

fun fold_name :: "string \<Rightarrow> string" where
  "fold_name (a # b # c # r) =
     (if a = byte 0xE2 \<and> b = byte 0x84 \<and> c = byte 0xAA then CHR ''K'' # fold_name r
      else if a = byte 0xC5 \<and> b = byte 0xBF then CHR ''S'' # fold_name (c # r)
      else upper_ascii a # fold_name (b # c # r))"
| "fold_name [a, b] =
     (if a = byte 0xC5 \<and> b = byte 0xBF then [CHR ''S''] else [upper_ascii a, upper_ascii b])"
| "fold_name [a] = [upper_ascii a]"
| "fold_name [] = []"

definition is_field :: "string \<Rightarrow> string \<Rightarrow> bool" where
  "is_field name key = (key = name \<or> fold_name key = fold_name name)"

subsection \<open>Slices and decoding\<close>

record 'a slice =
  sl_cells :: "'a list"
  sl_len :: nat

definition slice_nil :: "'a slice" where
  "slice_nil = \<lparr> sl_cells = [], sl_len = 0 \<rparr>"

definition slice_list :: "'a slice \<Rightarrow> 'a list" where
  "slice_list s = take (sl_len s) (sl_cells s)"

text \<open>A decoder takes a JSON value and the value the target has; \<open>None\<close> is a type error.\<close>

definition dec_string :: "json \<Rightarrow> string \<Rightarrow> string option" where
  "dec_string v old = (case v of JNull \<Rightarrow> Some old | JStr s \<Rightarrow> Some s | _ \<Rightarrow> None)"

fun dec_cells :: "(json \<Rightarrow> 'a \<Rightarrow> 'a option) \<Rightarrow> 'a \<Rightarrow> json list \<Rightarrow> 'a list \<Rightarrow> 'a list option" where
  "dec_cells dec z [] cells = Some cells"
| "dec_cells dec z (v # vs) cells =
     (case dec v (case cells of [] \<Rightarrow> z | c # _ \<Rightarrow> c) of
        None \<Rightarrow> None
      | Some x \<Rightarrow> map_option ((#) x) (dec_cells dec z vs (drop 1 cells)))"

definition dec_slice :: "(json \<Rightarrow> 'a \<Rightarrow> 'a option) \<Rightarrow> 'a \<Rightarrow> json \<Rightarrow> 'a slice \<Rightarrow> 'a slice option" where
  "dec_slice dec z v old =
     (case v of
        JNull \<Rightarrow> Some slice_nil
      | JArr vs \<Rightarrow>
          if vs = [] then Some slice_nil
          else map_option (\<lambda>cs. \<lparr> sl_cells = cs, sl_len = length vs \<rparr>) (dec_cells dec z vs (sl_cells old))
      | _ \<Rightarrow> None)"

text \<open>A struct: the members in order, each handed to the field it names.\<close>

fun dec_members :: "(string \<Rightarrow> json \<Rightarrow> 'a \<Rightarrow> 'a option) \<Rightarrow> (string \<times> json) list \<Rightarrow> 'a \<Rightarrow> 'a option" where
  "dec_members fld [] old = Some old"
| "dec_members fld ((k, v) # ms) old =
     (case fld k v old of None \<Rightarrow> None | Some x \<Rightarrow> dec_members fld ms x)"

definition dec_struct :: "(string \<Rightarrow> json \<Rightarrow> 'a \<Rightarrow> 'a option) \<Rightarrow> json \<Rightarrow> 'a \<Rightarrow> 'a option" where
  "dec_struct fld v old =
     (case v of JNull \<Rightarrow> Some old | JObj ms \<Rightarrow> dec_members fld ms old | _ \<Rightarrow> None)"

subsection \<open>The event\<close>

record commit =
  c_Added :: "string slice"
  c_Modified :: "string slice"
  c_Removed :: "string slice"

record githubPushEvent =
  ev_FullName :: string
  ev_HeadCommit :: "string option"
  ev_After :: string
  ev_Commits :: "commit slice"

definition zero_commit :: commit where
  "zero_commit = \<lparr> c_Added = slice_nil, c_Modified = slice_nil, c_Removed = slice_nil \<rparr>"

definition zero_event :: githubPushEvent where
  "zero_event = \<lparr> ev_FullName = [], ev_HeadCommit = None, ev_After = [], ev_Commits = slice_nil \<rparr>"

definition full_name_field :: "string \<Rightarrow> json \<Rightarrow> string \<Rightarrow> string option" where
  "full_name_field k v old = (if is_field ''full_name'' k then dec_string v old else Some old)"

definition id_field :: "string \<Rightarrow> json \<Rightarrow> string \<Rightarrow> string option" where
  "id_field k v old = (if is_field ''id'' k then dec_string v old else Some old)"

definition commit_field :: "string \<Rightarrow> json \<Rightarrow> commit \<Rightarrow> commit option" where
  "commit_field k v c =
     (if is_field ''added'' k then
        map_option (\<lambda>s. c \<lparr> c_Added := s \<rparr>) (dec_slice dec_string [] v (c_Added c))
      else if is_field ''modified'' k then
        map_option (\<lambda>s. c \<lparr> c_Modified := s \<rparr>) (dec_slice dec_string [] v (c_Modified c))
      else if is_field ''removed'' k then
        map_option (\<lambda>s. c \<lparr> c_Removed := s \<rparr>) (dec_slice dec_string [] v (c_Removed c))
      else Some c)"

text \<open>The pointer field \<open>head_commit\<close>: \<open>null\<close> makes it nil, an object allocates what is missing.\<close>

definition dec_head :: "json \<Rightarrow> string option \<Rightarrow> string option option" where
  "dec_head v old =
     (if v = JNull then Some None
      else map_option Some (dec_struct id_field v (case old of None \<Rightarrow> [] | Some i \<Rightarrow> i)))"

definition event_field :: "string \<Rightarrow> json \<Rightarrow> githubPushEvent \<Rightarrow> githubPushEvent option" where
  "event_field k v ev =
     (if is_field ''repository'' k then
        map_option (\<lambda>s. ev \<lparr> ev_FullName := s \<rparr>) (dec_struct full_name_field v (ev_FullName ev))
      else if is_field ''head_commit'' k then
        map_option (\<lambda>h. ev \<lparr> ev_HeadCommit := h \<rparr>) (dec_head v (ev_HeadCommit ev))
      else if is_field ''after'' k then
        map_option (\<lambda>s. ev \<lparr> ev_After := s \<rparr>) (dec_string v (ev_After ev))
      else if is_field ''commits'' k then
        map_option (\<lambda>s. ev \<lparr> ev_Commits := s \<rparr>)
          (dec_slice (dec_struct commit_field) zero_commit v (ev_Commits ev))
      else Some ev)"

definition unmarshal_event :: "bytes \<Rightarrow> githubPushEvent option" where
  "unmarshal_event b =
     (case json_parse b of None \<Rightarrow> None | Some v \<Rightarrow> dec_struct event_field v zero_event)"

subsection \<open>ParseGitHubPushPaths\<close>

datatype push_error = DecodePushJSON | MissingFullName | MissingCommitSHA

definition zero_sha :: string where
  "zero_sha = replicate 40 (CHR ''0'')"

definition head_sha :: "githubPushEvent \<Rightarrow> string" where
  "head_sha ev =
     (let sha = (case ev_HeadCommit ev of None \<Rightarrow> [] | Some i \<Rightarrow> i)
      in if sha = [] then ev_After ev else sha)"

text \<open>\<open>for _, p := range ps { if p != "" { seen[p] = struct{}{} } }\<close>\<close>

definition see :: "string list \<Rightarrow> unit gomap \<Rightarrow> unit gomap" where
  "see ps seen = foldl (\<lambda>m p. if p \<noteq> [] then mput p () m else m) seen ps"

fun see_commits :: "commit list \<Rightarrow> unit gomap \<times> unit gomap \<Rightarrow> unit gomap \<times> unit gomap" where
  "see_commits [] s = s"
| "see_commits (c # cs) (added, removed) =
     see_commits cs
       (see (slice_list (c_Modified c)) (see (slice_list (c_Added c)) added),
        see (slice_list (c_Removed c)) removed)"

record push_paths =
  ps_FullName :: string
  ps_HeadSHA :: string
  ps_AddedModified :: "string list"
  ps_Removed :: "string list"

definition ParseGitHubPushPaths :: "bytes \<Rightarrow> push_error + push_paths" where
  "ParseGitHubPushPaths body =
     (case unmarshal_event body of
        None \<Rightarrow> Inl DecodePushJSON
      | Some ev \<Rightarrow>
          if ev_FullName ev = [] then Inl MissingFullName
          else (let sha = head_sha ev in
                if sha = [] \<or> sha = zero_sha then Inl MissingCommitSHA
                else (let (seenAdded, seenRemoved) = see_commits (slice_list (ev_Commits ev)) (mempty, mempty);
                          seenRemoved2 = foldl (\<lambda>m p. mdel p m) seenRemoved (mkeys seenAdded)
                      in Inr \<lparr> ps_FullName = ev_FullName ev, ps_HeadSHA = sha,
                               ps_AddedModified = sort_strings (mkeys seenAdded),
                               ps_Removed = sort_strings (mkeys seenRemoved2) \<rparr>)))"

subsection \<open>The sets of paths\<close>

lemma see_keys: "set (mkeys (see ps m)) = set (mkeys m) \<union> (set ps - {[]})"
  by (induction ps arbitrary: m) (auto simp: see_def mkeys_mput)

lemma see_ok: "gomap_ok m \<Longrightarrow> gomap_ok (see ps m)"
  by (induction ps arbitrary: m) (auto simp: see_def)

definition commit_adds :: "commit \<Rightarrow> string set" where
  "commit_adds c = set (slice_list (c_Added c)) \<union> set (slice_list (c_Modified c))"

definition commit_removes :: "commit \<Rightarrow> string set" where
  "commit_removes c = set (slice_list (c_Removed c))"

lemma see_commits_keys:
  "set (mkeys (fst (see_commits cs s))) = set (mkeys (fst s)) \<union> ((\<Union>c \<in> set cs. commit_adds c) - {[]})"
  "set (mkeys (snd (see_commits cs s))) = set (mkeys (snd s)) \<union> ((\<Union>c \<in> set cs. commit_removes c) - {[]})"
  by (induction cs s rule: see_commits.induct)
     (auto simp: see_keys commit_adds_def commit_removes_def)

lemma see_commits_ok:
  "gomap_ok (fst s) \<Longrightarrow> gomap_ok (snd s) \<Longrightarrow>
   gomap_ok (fst (see_commits cs s)) \<and> gomap_ok (snd (see_commits cs s))"
  by (induction cs s rule: see_commits.induct) (auto simp: see_ok)

lemma mkeys_foldl_mdel: "set (mkeys (foldl (\<lambda>m p. mdel p m) m ks)) = set (mkeys m) - set ks"
proof (induction ks arbitrary: m)
  case (Cons k ks)
  have "set (mkeys (mdel k m)) = set (mkeys m) - {k}" by (auto simp: mkeys_def mdel_def)
  then show ?case using Cons by auto
qed simp

lemma gomap_ok_foldl_mdel_keys: "gomap_ok m \<Longrightarrow> gomap_ok (foldl (\<lambda>m p. mdel p m) m ks)"
  by (induction ks arbitrary: m) auto

definition push_added :: "githubPushEvent \<Rightarrow> string set" where
  "push_added ev = (\<Union>c \<in> set (slice_list (ev_Commits ev)). commit_adds c) - {[]}"

definition push_removed :: "githubPushEvent \<Rightarrow> string set" where
  "push_removed ev = (\<Union>c \<in> set (slice_list (ev_Commits ev)). commit_removes c) - {[]} - push_added ev"

definition valid_sha :: "string \<Rightarrow> bool" where
  "valid_sha s = (s \<noteq> [] \<and> s \<noteq> zero_sha)"

lemma parse_push_iff:
  "ParseGitHubPushPaths body = Inr r \<longleftrightarrow>
   (\<exists>ev. unmarshal_event body = Some ev \<and> ev_FullName ev \<noteq> [] \<and> valid_sha (head_sha ev) \<and>
      ps_FullName r = ev_FullName ev \<and> ps_HeadSHA r = head_sha ev \<and>
      ps_AddedModified r = sorted_list_of_set (push_added ev) \<and>
      ps_Removed r = sorted_list_of_set (push_removed ev))"
proof -
  have lists: "sort_strings (mkeys a) = sorted_list_of_set (push_added ev) \<and>
      sort_strings (mkeys (foldl (\<lambda>m p. mdel p m) b (mkeys a))) = sorted_list_of_set (push_removed ev)"
    if ab: "see_commits (slice_list (ev_Commits ev)) (mempty, mempty) = (a, b)" for ev a b
  proof -
    have ok: "gomap_ok a" "gomap_ok b"
      using see_commits_ok[of "(mempty, mempty)" "slice_list (ev_Commits ev)"] ab by simp_all
    have keys: "set (mkeys a) = push_added ev" "set (mkeys b) - set (mkeys a) = push_removed ev"
      using see_commits_keys[of "slice_list (ev_Commits ev)" "(mempty, mempty)"] ab
      by (auto simp: push_added_def push_removed_def mkeys_def)
    have s: "sort_strings ks = sorted_list_of_set (set ks)" if "distinct ks" for ks
      using that by (simp add: sort_strings_def sorted_list_of_set_sort_remdups distinct_remdups_id)
    show ?thesis
      using s[OF gomap_ok_distinct[OF ok(1)]]
        s[OF gomap_ok_distinct[OF gomap_ok_foldl_mdel_keys[OF ok(2), of "mkeys a"]]] keys
      by (simp add: mkeys_foldl_mdel)
  qed
  show ?thesis
    by (cases r) (auto simp: ParseGitHubPushPaths_def valid_sha_def Let_def dest!: lists
        split: option.splits prod.splits if_splits)
qed

subsection \<open>Which field a member names\<close>

lemma fold_name_length: "list_all (\<lambda>c. bval c < 128) s \<Longrightarrow> length (fold_name s) = length s"
  by (induction s rule: fold_name.induct) (auto simp: byte_def)

lemma other_field:
  "length name \<noteq> length key \<Longrightarrow> list_all (\<lambda>c. bval c < 128) (name @ key) \<Longrightarrow> \<not> is_field name key"
  unfolding is_field_def using fold_name_length[of name] fold_name_length[of key] by auto

lemma same_field: "is_field name name"
  by (simp add: is_field_def)

subsection \<open>The strings of an event are valid UTF-8\<close>

text \<open>A decoder keeps a property of its target when the document is one the parser returns.\<close>

definition keeps :: "(json \<Rightarrow> 'a \<Rightarrow> 'a option) \<Rightarrow> ('a \<Rightarrow> bool) \<Rightarrow> bool" where
  "keeps dec P = (\<forall>v old x. json_text v \<longrightarrow> P old \<longrightarrow> dec v old = Some x \<longrightarrow> P x)"

lemma keepsD: "keeps dec P \<Longrightarrow> json_text v \<Longrightarrow> P old \<Longrightarrow> dec v old = Some x \<Longrightarrow> P x"
  by (auto simp: keeps_def)

lemma keeps_string: "keeps dec_string utf8_ok"
  by (auto simp: keeps_def dec_string_def split: json.splits)

lemma keeps_cells:
  assumes "keeps dec P" "P z"
  shows "dec_cells dec z vs cells = Some cs \<Longrightarrow> list_all json_text vs \<Longrightarrow> list_all P cells \<Longrightarrow> list_all P cs"
proof (induction vs arbitrary: cells cs)
  case (Cons v vs)
  have "P (case cells of [] \<Rightarrow> z | c # _ \<Rightarrow> c)" "list_all P (drop 1 cells)"
    using Cons.prems(3) assms(2) by (cases cells; simp)+
  then show ?case
    using Cons keepsD[OF assms(1)] by (auto split: option.splits)
qed simp

lemma keeps_slice:
  assumes "keeps dec P" "P z"
  shows "keeps (dec_slice dec z) (\<lambda>s. list_all P (sl_cells s))"
  using keeps_cells[OF assms]
  by (auto simp: keeps_def dec_slice_def slice_nil_def split: json.splits if_splits)

lemma keeps_struct:
  assumes "\<And>k. keeps (fld k) P"
  shows "keeps (dec_struct fld) P"
proof -
  have "P x" if "dec_members fld ms old = Some x" "P old" "list_all (\<lambda>m. utf8_ok (fst m) \<and> json_text (snd m)) ms"
    for ms old x
    using that
  proof (induction ms arbitrary: old)
    case (Cons m ms)
    obtain k v where m: "m = (k, v)" by (cases m)
    with Cons show ?case using keepsD[OF assms] by (auto split: option.splits)
  qed simp
  then show ?thesis by (auto simp: keeps_def dec_struct_def split: json.splits)
qed

definition utf8_slice :: "string slice \<Rightarrow> bool" where
  "utf8_slice s = list_all utf8_ok (sl_cells s)"

definition utf8_commit :: "commit \<Rightarrow> bool" where
  "utf8_commit c = (utf8_slice (c_Added c) \<and> utf8_slice (c_Modified c) \<and> utf8_slice (c_Removed c))"

definition utf8_event :: "githubPushEvent \<Rightarrow> bool" where
  "utf8_event ev =
     (utf8_ok (ev_FullName ev) \<and> utf8_ok (ev_After ev) \<and>
      pred_option utf8_ok (ev_HeadCommit ev) \<and> list_all utf8_commit (sl_cells (ev_Commits ev)))"

lemma keeps_string_slice: "keeps (dec_slice dec_string []) utf8_slice"
  using keeps_slice[OF keeps_string, of "[]"] by (simp add: utf8_slice_def[abs_def])

lemma keeps_commit: "keeps (commit_field k) utf8_commit"
  using keepsD[OF keeps_string_slice]
  by (auto simp: keeps_def commit_field_def utf8_commit_def split: if_splits)

lemma keeps_commits: "keeps (dec_slice (dec_struct commit_field) zero_commit) (\<lambda>s. list_all utf8_commit (sl_cells s))"
  by (intro keeps_slice keeps_struct keeps_commit)
     (simp add: zero_commit_def utf8_commit_def utf8_slice_def slice_nil_def)

lemma keeps_name: "keeps (full_name_field k) utf8_ok" "keeps (id_field k) utf8_ok"
  using keepsD[OF keeps_string] by (auto simp: keeps_def full_name_field_def id_field_def split: if_splits)

lemma keeps_head: "keeps dec_head (pred_option utf8_ok)"
  unfolding keeps_def
proof (intro allI impI)
  fix v old x
  assume v: "json_text v" and o: "pred_option utf8_ok old" and x: "dec_head v old = Some x"
  let ?o = "case old of None \<Rightarrow> [] | Some i \<Rightarrow> i"
  show "pred_option utf8_ok x"
  proof (cases "v = JNull")
    case False
    then obtain i where i: "dec_struct id_field v ?o = Some i" "x = Some i"
      using x by (auto simp: dec_head_def)
    have "utf8_ok ?o" using o by (cases old) simp_all
    then show ?thesis
      using keepsD[OF keeps_struct[of id_field, OF keeps_name(2)] v _ i(1)] i(2) by simp
  qed (use x in \<open>simp add: dec_head_def\<close>)
qed

lemma keeps_event: "keeps (event_field k) utf8_event"
  unfolding keeps_def
proof (intro allI impI)
  fix v old x
  assume v: "json_text v" and o: "utf8_event old" and x: "event_field k v old = Some x"
  consider (n) "is_field ''repository'' k"
    | (h) "\<not> is_field ''repository'' k" "is_field ''head_commit'' k"
    | (a) "\<not> is_field ''repository'' k" "\<not> is_field ''head_commit'' k" "is_field ''after'' k"
    | (c) "\<not> is_field ''repository'' k" "\<not> is_field ''head_commit'' k" "\<not> is_field ''after'' k"
        "is_field ''commits'' k"
    | (other) "x = old"
    using x by (metis event_field_def option.inject)
  then show "utf8_event x"
  proof cases
    case n
    then obtain s where s: "dec_struct full_name_field v (ev_FullName old) = Some s" "x = old \<lparr> ev_FullName := s \<rparr>"
      using x by (auto simp: event_field_def)
    then show ?thesis
      using o keepsD[OF keeps_struct[of full_name_field, OF keeps_name(1)] v _ s(1)] by (simp add: utf8_event_def)
  next
    case h
    then obtain c where c: "dec_head v (ev_HeadCommit old) = Some c" "x = old \<lparr> ev_HeadCommit := c \<rparr>"
      using x by (auto simp: event_field_def)
    have "pred_option utf8_ok c"
      using o keepsD[OF keeps_head v _ c(1)] by (simp add: utf8_event_def)
    then show ?thesis using o c(2) by (simp add: utf8_event_def)
  next
    case a
    then obtain s where s: "dec_string v (ev_After old) = Some s" "x = old \<lparr> ev_After := s \<rparr>"
      using x by (auto simp: event_field_def)
    then show ?thesis using o keepsD[OF keeps_string v _ s(1)] by (simp add: utf8_event_def)
  next
    case c
    then obtain s where s: "dec_slice (dec_struct commit_field) zero_commit v (ev_Commits old) = Some s"
      "x = old \<lparr> ev_Commits := s \<rparr>"
      using x by (auto simp: event_field_def)
    then show ?thesis using o keepsD[OF keeps_commits v _ s(1)] by (simp add: utf8_event_def)
  qed (use o in simp)
qed

lemma unmarshal_event_utf8: "unmarshal_event b = Some ev \<Longrightarrow> utf8_event ev"
  using keepsD[OF keeps_struct[of event_field, OF keeps_event], of _ zero_event ev] json_parse_wf[of b]
  by (auto simp: unmarshal_event_def zero_event_def utf8_event_def slice_nil_def split: option.splits)

lemma utf8_slice_list: "utf8_slice s \<Longrightarrow> p \<in> set (slice_list s) \<Longrightarrow> utf8_ok p"
  by (auto simp: utf8_slice_def slice_list_def list_all_iff dest: in_set_takeD)

lemma push_paths_utf8:
  assumes "ParseGitHubPushPaths body = Inr push"
  shows "utf8_ok (ps_FullName push)" "utf8_ok (ps_HeadSHA push)"
    "p \<in> set (ps_AddedModified push) \<union> set (ps_Removed push) \<Longrightarrow> utf8_ok p \<and> p \<noteq> []"
proof -
  obtain ev where ev: "unmarshal_event body = Some ev"
    "ps_FullName push = ev_FullName ev" "ps_HeadSHA push = head_sha ev"
    "ps_AddedModified push = sorted_list_of_set (push_added ev)"
    "ps_Removed push = sorted_list_of_set (push_removed ev)"
    using assms unfolding parse_push_iff by blast
  have u: "utf8_event ev" by (rule unmarshal_event_utf8[OF ev(1)])
  show "utf8_ok (ps_FullName push)" "utf8_ok (ps_HeadSHA push)"
    using u by (auto simp: ev utf8_event_def head_sha_def Let_def split: option.splits)
  have c: "utf8_commit c" if "c \<in> set (slice_list (ev_Commits ev))" for c
    using u that by (auto simp: utf8_event_def slice_list_def list_all_iff dest: in_set_takeD)
  have "finite (push_added ev)" "finite (push_removed ev)"
    by (auto simp: push_added_def push_removed_def commit_adds_def commit_removes_def)
  moreover have "utf8_ok q \<and> q \<noteq> []" if "q \<in> push_added ev \<union> push_removed ev" for q
    using that c utf8_slice_list
    by (fastforce simp: push_added_def push_removed_def commit_adds_def commit_removes_def utf8_commit_def)
  ultimately show "utf8_ok p \<and> p \<noteq> []" if "p \<in> set (ps_AddedModified push) \<union> set (ps_Removed push)"
    using that by (simp add: ev)
qed

end
