(* ===== verification/SyncHmac.thy ===== *)
theory SyncHmac
  imports GoCrypto GoPath
begin

section \<open>internal/sync/hmac.go: the webhook signature\<close>

text \<open>
  The check in its order of failures. \<open>hmac.Equal\<close> compares lengths and bytes; its constant running
  time is not modelled. \<open>github_signature\<close> is what a sender computes.
\<close>

definition SignatureHeader :: string where
  "SignatureHeader = ''X-Hub-Signature-256''"

definition signaturePrefix :: string where
  "signaturePrefix = ''sha256=''"

datatype hmac_error =
    SecretNotConfigured
  | MissingHeader
  | InvalidSignatureFormat
  | DecodeSignature hex_error
  | HmacMismatch

definition VerifyHMACSignature :: "string \<Rightarrow> string \<Rightarrow> bytes \<Rightarrow> hmac_error option" where
  "VerifyHMACSignature secret headerValue body =
     (if secret = '''' then Some SecretNotConfigured
      else if headerValue = '''' then Some MissingHeader
      else if \<not> has_prefix headerValue signaturePrefix then Some InvalidSignatureFormat
      else (case hex_decode (trim_prefix headerValue signaturePrefix) of
              Inl e \<Rightarrow> Some (DecodeSignature e)
            | Inr received \<Rightarrow>
                (let expected = hmac_sha256 secret body
                 in if received \<noteq> expected then Some HmacMismatch else None)))"

definition github_signature :: "string \<Rightarrow> bytes \<Rightarrow> string" where
  "github_signature secret body = signaturePrefix @ hex_encode (hmac_sha256 secret body)"

lemma signaturePrefix_not_Nil [simp]: "signaturePrefix \<noteq> []"
  by (simp add: signaturePrefix_def)

lemma verify_prefixed:
  "VerifyHMACSignature secret (signaturePrefix @ h) body = None \<longleftrightarrow>
   secret \<noteq> '''' \<and> hex_decode h = Inr (hmac_sha256 secret body)"
  by (simp add: VerifyHMACSignature_def Let_def split: sum.splits)

lemma verify_no_prefix:
  "\<not> has_prefix hv signaturePrefix \<Longrightarrow> VerifyHMACSignature secret hv body \<noteq> None"
  by (simp add: VerifyHMACSignature_def)

lemma verify_iff:
  "VerifyHMACSignature secret hv body = None \<longleftrightarrow>
   secret \<noteq> '''' \<and> (\<exists>h. hv = signaturePrefix @ h \<and> hex_decode h = Inr (hmac_sha256 secret body))"
proof (cases "has_prefix hv signaturePrefix")
  case True
  then obtain h where hv: "hv = signaturePrefix @ h" unfolding has_prefix_iff by blast
  show ?thesis unfolding hv verify_prefixed by simp
next
  case False
  then have "hv \<noteq> signaturePrefix @ h" for h by auto
  then show ?thesis using verify_no_prefix[OF False] by simp
qed

lemma verify_signed: "secret \<noteq> '''' \<Longrightarrow> VerifyHMACSignature secret (github_signature secret body) body = None"
  by (simp add: verify_prefixed github_signature_def)

lemma verify_length:
  "VerifyHMACSignature secret hv body = None \<Longrightarrow> length hv = length signaturePrefix + 64"
  by (auto simp: verify_iff dest: hex_decode_length)

end
