(* ===== verification/SyncWebhook.thy ===== *)
theory SyncWebhook
  imports SyncApply SyncFetch SyncGithub SyncHmac
begin

section \<open>internal/sync/webhook.go: the push handler\<close>

text \<open>
  \<open>ServeHTTP\<close> over a request and the world: the guards in order, one result per path, the response.
  A detail keeps the error it would print. \<open>http.DefaultClient\<close> and the deadline of the context are
  part of the client argument \<open>C\<close>. \<open>webhook_call\<close> says which calls a run may make; the lemmas show
  that it makes no other, and none at all before the signature is checked.
\<close>

record WebhookHandler =
  wh_GitHubToken :: string
  wh_WebhookSecret :: string

record web_request =
  wr_Method :: string
  wr_Headers :: "(string \<times> string) list"
  wr_Body :: bytes
  wr_BodyBroken :: bool

definition header_get :: "web_request \<Rightarrow> string \<Rightarrow> string" where
  "header_get r k = (case map_of (wr_Headers r) k of None \<Rightarrow> '''' | Some v \<Rightarrow> v)"

datatype detail =
    NoDetail
  | PathNotInventory
  | FetchFailed fetch_error
  | ApplyFailed apply_error
  | UnsupportedPlural string
  | AlreadyGone
  | DeleteFailed api_error

record webhookResult =
  wres_Path :: string
  wres_Status :: string
  wres_Detail :: detail

definition result_of :: "string \<Rightarrow> string \<Rightarrow> detail \<Rightarrow> webhookResult" where
  "result_of p status d = \<lparr> wres_Path = p, wres_Status = status, wres_Detail = d \<rparr>"

datatype web_response =
    RespMethodNotAllowed
  | RespBadBody
  | RespUnauthorized
  | RespBadRequest push_error
  | RespOK "webhookResult list"

definition response_status :: "web_response \<Rightarrow> int" where
  "response_status r =
     (case r of RespMethodNotAllowed \<Rightarrow> 405 | RespBadBody \<Rightarrow> 400 | RespUnauthorized \<Rightarrow> 401
      | RespBadRequest _ \<Rightarrow> 400 | RespOK _ \<Rightarrow> 200)"

definition maxWebhookBody :: nat where
  "maxWebhookBody = 32 * 2 ^ 20"

subsection \<open>One path\<close>

definition serve_added ::
  "ext \<Rightarrow> 'o unstr \<Rightarrow> ('o, 'w) client \<Rightarrow> WebhookHandler \<Rightarrow> string \<Rightarrow> string \<Rightarrow> string \<Rightarrow> ('o, 'w) world
    \<Rightarrow> webhookResult \<times> ('o, 'w) world" where
  "serve_added X U C h fullName sha p w =
     (case ParseInventoryExportPath p of
        None \<Rightarrow> (result_of p ''ignored'' PathNotInventory, w)
      | Some parsed \<Rightarrow>
          (let (fr, w1) = FetchGitHubRawFile X C (wh_GitHubToken h) fullName sha p w in
           case fr of
             Inl e \<Rightarrow> (result_of p ''error'' (FetchFailed e), w1)
           | Inr raw \<Rightarrow>
               (let (ar, w2) = ApplyInventoryYAML X U C parsed raw w1 in
                case ar of
                  Some e \<Rightarrow> (result_of p ''error'' (ApplyFailed e), w2)
                | None \<Rightarrow> (result_of p ''applied'' NoDetail, w2))))"

definition delete_object :: "'o unstr \<Rightarrow> string \<Rightarrow> string \<Rightarrow> string \<Rightarrow> 'o" where
  "delete_object U kind ns name =
     u_set_name U name (u_set_namespace U ns
       (u_set_gvk U (GVK ''argoproj.io'' ''v1alpha1'' kind) (u_empty U)))"

definition serve_removed ::
  "'o unstr \<Rightarrow> ('o, 'w) client \<Rightarrow> string \<Rightarrow> ('o, 'w) world \<Rightarrow> webhookResult \<times> ('o, 'w) world" where
  "serve_removed U C p w =
     (case ParseInventoryExportPath p of
        None \<Rightarrow> (result_of p ''ignored'' PathNotInventory, w)
      | Some parsed \<Rightarrow>
          (case ArgoKindFromPlural (pp_PluralKind parsed) of
             Inl e \<Rightarrow> (result_of p ''ignored'' (UnsupportedPlural e), w)
           | Inr k8sKind \<Rightarrow>
               (let (r, w1) = do_delete C (delete_object U k8sKind (pp_Namespace parsed) (pp_Name parsed)) w in
                case r of
                  None \<Rightarrow> (result_of p ''deleted'' NoDetail, w1)
                | Some ApiNotFound \<Rightarrow> (result_of p ''deleted'' AlreadyGone, w1)
                | Some e \<Rightarrow> (result_of p ''error'' (DeleteFailed e), w1))))"

text \<open>A \<open>for\<close> loop that appends one result per path.\<close>

fun serve_each ::
  "(string \<Rightarrow> ('o, 'w) world \<Rightarrow> webhookResult \<times> ('o, 'w) world) \<Rightarrow> string list \<Rightarrow> ('o, 'w) world
    \<Rightarrow> webhookResult list \<times> ('o, 'w) world" where
  "serve_each f [] w = ([], w)"
| "serve_each f (p # ps) w =
     (let (r, w1) = f p w; (rs, w2) = serve_each f ps w1 in (r # rs, w2))"

subsection \<open>ServeHTTP\<close>

definition ServeHTTP ::
  "ext \<Rightarrow> 'o unstr \<Rightarrow> ('o, 'w) client \<Rightarrow> WebhookHandler \<Rightarrow> web_request \<Rightarrow> ('o, 'w) world
    \<Rightarrow> web_response \<times> ('o, 'w) world" where
  "ServeHTTP X U C h r w =
     (if wr_Method r \<noteq> ''POST'' then (RespMethodNotAllowed, w)
      else
     (case read_limited maxWebhookBody (wr_Body r) (wr_BodyBroken r) of
        None \<Rightarrow> (RespBadBody, w)
      | Some body \<Rightarrow>
     (case VerifyHMACSignature (wh_WebhookSecret h) (header_get r SignatureHeader) body of
        Some e \<Rightarrow> (RespUnauthorized, w)
      | None \<Rightarrow>
     (case ParseGitHubPushPaths body of
        Inl e \<Rightarrow> (RespBadRequest e, w)
      | Inr push \<Rightarrow>
     (let (ra, w1) = serve_each (serve_added X U C h (ps_FullName push) (ps_HeadSHA push))
                       (ps_AddedModified push) w;
          (rr, w2) = serve_each (serve_removed U C) (ps_Removed push) w1
      in (RespOK (ra @ rr), w2))))))"

subsection \<open>The calls a run makes\<close>

text \<open>A request is authentic when its first 32 MiB carry a valid signature.\<close>

definition authentic :: "WebhookHandler \<Rightarrow> web_request \<Rightarrow> bytes \<Rightarrow> bool" where
  "authentic h r body =
     (wr_Method r = ''POST'' \<and> read_limited maxWebhookBody (wr_Body r) (wr_BodyBroken r) = Some body \<and>
      VerifyHMACSignature (wh_WebhookSecret h) (header_get r SignatureHeader) body = None)"

definition webhook_call ::
  "ext \<Rightarrow> 'o unstr \<Rightarrow> WebhookHandler \<Rightarrow> push_paths \<Rightarrow> 'o call \<Rightarrow> bool" where
  "webhook_call X U h push c =
     (case c of
        HttpCall q \<Rightarrow>
          (\<exists>p. p \<in> set (ps_AddedModified push) \<and> ParseInventoryExportPath p \<noteq> None \<and>
             q = raw_request (wh_GitHubToken h) (raw_url (ps_FullName push) (ps_HeadSHA push) p))
      | PatchCall ob owner force \<Rightarrow>
          (\<exists>p parsed raw. p \<in> set (ps_AddedModified push) \<and> ParseInventoryExportPath p = Some parsed \<and>
             applies X U parsed raw ob \<and> owner = fieldOwner \<and> force)
      | DeleteCall ob \<Rightarrow>
          (\<exists>p parsed kind. p \<in> set (ps_Removed push) \<and> ParseInventoryExportPath p = Some parsed \<and>
             argo_kind kind \<and> ArgoKindFromPlural (pp_PluralKind parsed) = Inr kind \<and>
             ob = delete_object U kind (pp_Namespace parsed) (pp_Name parsed))
      | GetCall g ns n \<Rightarrow> False)"

definition new_calls :: "('o, 'w) world \<Rightarrow> ('o, 'w) world \<Rightarrow> ('o call \<Rightarrow> bool) \<Rightarrow> bool" where
  "new_calls w w' P = (\<exists>cs. w_calls w' = w_calls w @ cs \<and> list_all P cs)"

lemma new_calls_refl [simp]: "new_calls w w P"
  by (simp add: new_calls_def)

lemma new_calls_trans: "new_calls w1 w2 P \<Longrightarrow> new_calls w2 w3 P \<Longrightarrow> new_calls w1 w3 P"
  by (auto simp: new_calls_def)

lemma new_calls_mono: "new_calls w w' P \<Longrightarrow> (\<And>c. P c \<Longrightarrow> Q c) \<Longrightarrow> new_calls w w' Q"
  by (auto simp: new_calls_def list_all_iff)

lemma new_calls_one: "w_calls w' = w_calls w @ [c] \<Longrightarrow> P c \<Longrightarrow> new_calls w w' P"
  by (auto simp: new_calls_def)

lemma new_calls_eq: "w_calls w' = w_calls w \<Longrightarrow> new_calls w w' P"
  by (simp add: new_calls_def)

lemma serve_each_calls:
  assumes "\<And>p w. p \<in> set ps \<Longrightarrow> new_calls w (snd (f p w)) P"
  shows "new_calls w (snd (serve_each f ps w)) P"
  using assms
proof (induction ps arbitrary: w)
  case (Cons p ps)
  obtain r w1 where f: "f p w = (r, w1)" by (cases "f p w")
  obtain rs w2 where e: "serve_each f ps w1 = (rs, w2)" by (cases "serve_each f ps w1")
  have "new_calls w w1 P" using Cons.prems[of p w] f by simp
  moreover have "new_calls w1 w2 P" using Cons.IH[of w1] Cons.prems e by simp
  ultimately show ?case using new_calls_trans by (auto simp: f e)
qed simp

lemma serve_each_length: "length (fst (serve_each f ps w)) = length ps"
  by (induction ps arbitrary: w) (auto split: prod.splits, metis fst_conv)

lemma serve_added_calls:
  assumes "p \<in> set (ps_AddedModified push)"
  shows "new_calls w (snd (serve_added X U C h (ps_FullName push) (ps_HeadSHA push) p w)) (webhook_call X U h push)"
proof (cases "ParseInventoryExportPath p")
  case (Some parsed)
  let ?P = "webhook_call X U h push"
  obtain fr w1 where f: "FetchGitHubRawFile X C (wh_GitHubToken h) (ps_FullName push) (ps_HeadSHA push) p w = (fr, w1)"
    by (cases "FetchGitHubRawFile X C (wh_GitHubToken h) (ps_FullName push) (ps_HeadSHA push) p w")
  have c1: "new_calls w w1 ?P"
    using fetch_calls[of X C "wh_GitHubToken h" "ps_FullName push" "ps_HeadSHA push" p w] f Some assms
    by (auto simp: webhook_call_def new_calls_def split: if_splits)
  show ?thesis
  proof (cases fr)
    case (Inl e)
    then show ?thesis using c1 Some f by (simp add: serve_added_def)
  next
    case (Inr raw)
    obtain ar w2 where a: "ApplyInventoryYAML X U C parsed raw w1 = (ar, w2)"
      by (cases "ApplyInventoryYAML X U C parsed raw w1")
    have c2: "new_calls w1 w2 ?P"
      using apply_calls[of X U C parsed raw w1] a Some assms
      by (force simp: webhook_call_def new_calls_def)
    have "snd (serve_added X U C h (ps_FullName push) (ps_HeadSHA push) p w) = w2"
      using Some f Inr a by (simp add: serve_added_def split: option.splits)
    then show ?thesis using new_calls_trans[OF c1 c2] by simp
  qed
qed (simp add: serve_added_def)

lemma serve_removed_calls:
  assumes "p \<in> set (ps_Removed push)"
  shows "new_calls w (snd (serve_removed U C p w)) (webhook_call X U h push)"
proof (cases "ParseInventoryExportPath p")
  case (Some parsed)
  obtain k where k: "argo_kind k" "ArgoKindFromPlural (pp_PluralKind parsed) = Inr k"
    using parse_kind[OF Some] by blast
  let ?ob = "delete_object U k (pp_Namespace parsed) (pp_Name parsed)"
  have s: "snd (serve_removed U C p w) = snd (do_delete C ?ob w)"
    by (simp add: serve_removed_def Some k split: prod.splits option.splits api_error.splits)
  show ?thesis
    unfolding s using assms Some k
    by (intro new_calls_one[where c = "DeleteCall ?ob"]) (auto simp: webhook_call_def)
qed (simp add: serve_removed_def)

lemma serve_rejects:
  assumes "\<nexists>body. authentic h r body"
  shows "snd (ServeHTTP X U C h r w) = w" "response_status (fst (ServeHTTP X U C h r w)) \<in> {400, 401, 405}"
  using assms
  by (auto simp: ServeHTTP_def authentic_def response_status_def split: option.splits)

lemma serve_authentic:
  assumes "authentic h r body"
  shows "ServeHTTP X U C h r w =
    (case ParseGitHubPushPaths body of
       Inl e \<Rightarrow> (RespBadRequest e, w)
     | Inr push \<Rightarrow>
         (let (ra, w1) = serve_each (serve_added X U C h (ps_FullName push) (ps_HeadSHA push))
                           (ps_AddedModified push) w;
              (rr, w2) = serve_each (serve_removed U C) (ps_Removed push) w1
          in (RespOK (ra @ rr), w2)))"
  using assms by (simp add: ServeHTTP_def authentic_def)

lemma serve_authentic_calls:
  assumes "authentic h r body" "ParseGitHubPushPaths body = Inr push"
  shows "new_calls w (snd (ServeHTTP X U C h r w)) (webhook_call X U h push)"
proof -
  let ?P = "webhook_call X U h push"
  let ?f = "serve_added X U C h (ps_FullName push) (ps_HeadSHA push)"
  obtain ra w1 where a: "serve_each ?f (ps_AddedModified push) w = (ra, w1)"
    by (cases "serve_each ?f (ps_AddedModified push) w")
  obtain rr w2 where b: "serve_each (serve_removed U C) (ps_Removed push) w1 = (rr, w2)"
    by (cases "serve_each (serve_removed U C) (ps_Removed push) w1")
  have "new_calls w w1 ?P"
    using serve_each_calls[of "ps_AddedModified push" ?f ?P w] serve_added_calls a by (metis snd_conv)
  moreover have "new_calls w1 w2 ?P"
    using serve_each_calls[of "ps_Removed push" "serve_removed U C" ?P w1] serve_removed_calls b
    by (metis snd_conv)
  ultimately show ?thesis
    using new_calls_trans by (simp add: serve_authentic[OF assms(1)] assms(2) a b) blast
qed

text \<open>One result for every path of the push, in order.\<close>

lemma serve_each_paths:
  assumes "\<And>p w. wres_Path (fst (f p w)) = p"
  shows "map wres_Path (fst (serve_each f ps w)) = ps"
proof (induction ps arbitrary: w)
  case (Cons p ps)
  obtain r w1 where f: "f p w = (r, w1)" by (cases "f p w")
  obtain rs w2 where e: "serve_each f ps w1 = (rs, w2)" by (cases "serve_each f ps w1")
  show ?case using assms[of p w] Cons[of w1] by (simp add: f e)
qed simp

lemma serve_added_path: "wres_Path (fst (serve_added X U C h fn sha p w)) = p"
  by (auto simp: serve_added_def result_of_def split: option.splits prod.splits sum.splits)

lemma serve_removed_path: "wres_Path (fst (serve_removed U C p w)) = p"
  by (auto simp: serve_removed_def result_of_def split: option.splits prod.splits sum.splits api_error.splits)

lemma serve_results_paths:
  assumes "authentic h r body" "ParseGitHubPushPaths body = Inr push"
  shows "\<exists>rs. fst (ServeHTTP X U C h r w) = RespOK rs \<and>
     map wres_Path rs = ps_AddedModified push @ ps_Removed push"
proof -
  let ?f = "serve_added X U C h (ps_FullName push) (ps_HeadSHA push)"
  obtain ra w1 where a: "serve_each ?f (ps_AddedModified push) w = (ra, w1)"
    by (cases "serve_each ?f (ps_AddedModified push) w")
  obtain rr w2 where b: "serve_each (serve_removed U C) (ps_Removed push) w1 = (rr, w2)"
    by (cases "serve_each (serve_removed U C) (ps_Removed push) w1")
  have "map wres_Path ra = ps_AddedModified push" "map wres_Path rr = ps_Removed push"
    using serve_each_paths[of ?f "ps_AddedModified push" w] serve_added_path a
      serve_each_paths[of "serve_removed U C" "ps_Removed push" w1] serve_removed_path b
    by (metis fst_conv)+
  then show ?thesis by (simp add: serve_authentic[OF assms(1)] assms(2) a b)
qed

end
