(* ===== verification/Cluster.thy ===== *)
theory Cluster
  imports SyncWebhook
begin

section \<open>The cluster under a push\<close>

text \<open>
  What the calls of the webhook do to the cluster behind the client. \<open>cl_at\<close> is the object stored under a kind,
  namespace and name, \<open>cl_merge\<close> the outcome of a server-side apply on what is stored, \<open>cl_bury\<close> what a delete
  leaves (nothing, or an object that waits for its finalizers), \<open>cl_file\<close> the file a raw URL names, which does not
  change because the URL names a commit. \<open>cluster_laws\<close> is what the API server and the file server document,
  with the webhook as the only writer while it runs; any call may fail, and a failed write may have taken effect.
  \<open>put_path\<close> and \<open>del_path\<close> say what a path of a push asks for; the lemmas show that \<open>ServeHTTP\<close> does that, path
  by path, up to the paths it reports as errors, and touches nothing else.
\<close>

type_synonym object_key = "string \<times> string \<times> string"

type_synonym 'o objects = "object_key \<Rightarrow> 'o option"

record ('o, 'w) cluster =
  cl_at :: "'w \<Rightarrow> 'o objects"
  cl_merge :: "'o \<Rightarrow> 'o option \<Rightarrow> 'o"
  cl_bury :: "'o \<Rightarrow> 'o option"
  cl_file :: "http_request \<Rightarrow> bytes"

definition ob_key :: "'o unstr \<Rightarrow> 'o \<Rightarrow> object_key" where
  "ob_key U ob = (u_kind U ob, u_namespace U ob, u_name U ob)"

definition put_object :: "('o, 'w) cluster \<Rightarrow> object_key \<Rightarrow> 'o \<Rightarrow> 'o objects \<Rightarrow> 'o objects" where
  "put_object K key ob M = M(key \<mapsto> cl_merge K ob (M key))"

definition del_object :: "('o, 'w) cluster \<Rightarrow> object_key \<Rightarrow> 'o objects \<Rightarrow> 'o objects" where
  "del_object K key M = M(key := Option.bind (M key) (cl_bury K))"

subsection \<open>Laws\<close>

definition patch_law :: "'o unstr \<Rightarrow> ('o, 'w) client \<Rightarrow> ('o, 'w) cluster \<Rightarrow> bool" where
  "patch_law U C K = (\<forall>ob owner s r s'. c_patch C ob owner True s = (r, s') \<longrightarrow>
     cl_at K s' = put_object K (ob_key U ob) ob (cl_at K s) \<or> r \<noteq> None \<and> cl_at K s' = cl_at K s)"

definition delete_law :: "'o unstr \<Rightarrow> ('o, 'w) client \<Rightarrow> ('o, 'w) cluster \<Rightarrow> bool" where
  "delete_law U C K = (\<forall>ob s r s'. c_delete C ob s = (r, s') \<longrightarrow>
     (if r = Some ApiNotFound then cl_at K s (ob_key U ob) = None \<and> cl_at K s' = cl_at K s
      else cl_at K s' = del_object K (ob_key U ob) (cl_at K s) \<or> r \<noteq> None \<and> cl_at K s' = cl_at K s))"

text \<open>A complete answer is the file; an answer that breaks off is a prefix of it.\<close>

definition http_law :: "('o, 'w) client \<Rightarrow> ('o, 'w) cluster \<Rightarrow> bool" where
  "http_law C K = (\<forall>q s r s'. c_http C q s = (r, s') \<longrightarrow> cl_at K s' = cl_at K s \<and>
     (\<forall>a. r = Some a \<longrightarrow> rs_status a = 200 \<longrightarrow>
        has_prefix (cl_file K q) (rs_body a) \<and> (\<not> rs_read_error a \<longrightarrow> rs_body a = cl_file K q)))"

definition cluster_laws :: "'o unstr \<Rightarrow> ('o, 'w) client \<Rightarrow> ('o, 'w) cluster \<Rightarrow> bool" where
  "cluster_laws U C K \<longleftrightarrow> patch_law U C K \<and> delete_law U C K \<and> http_law C K"

lemma cluster_lawsD:
  assumes "cluster_laws U C K"
  shows "c_patch C ob owner True s = (r, s') \<Longrightarrow>
      cl_at K s' = put_object K (ob_key U ob) ob (cl_at K s) \<or> r \<noteq> None \<and> cl_at K s' = cl_at K s"
    and "c_delete C ob s = (r, s') \<Longrightarrow>
      (if r = Some ApiNotFound then cl_at K s (ob_key U ob) = None \<and> cl_at K s' = cl_at K s
       else cl_at K s' = del_object K (ob_key U ob) (cl_at K s) \<or> r \<noteq> None \<and> cl_at K s' = cl_at K s)"
    and "c_http C q s = (h, s') \<Longrightarrow> cl_at K s' = cl_at K s"
    and "c_http C q s = (Some a, s') \<Longrightarrow> rs_status a = 200 \<Longrightarrow>
      has_prefix (cl_file K q) (rs_body a) \<and> (\<not> rs_read_error a \<longrightarrow> rs_body a = cl_file K q)"
proof -
  have l: "patch_law U C K" "delete_law U C K" "http_law C K" using assms by (simp_all add: cluster_laws_def)
  show "c_patch C ob owner True s = (r, s') \<Longrightarrow>
      cl_at K s' = put_object K (ob_key U ob) ob (cl_at K s) \<or> r \<noteq> None \<and> cl_at K s' = cl_at K s"
    using l(1) unfolding patch_law_def by blast
  show "c_delete C ob s = (r, s') \<Longrightarrow>
      (if r = Some ApiNotFound then cl_at K s (ob_key U ob) = None \<and> cl_at K s' = cl_at K s
       else cl_at K s' = del_object K (ob_key U ob) (cl_at K s) \<or> r \<noteq> None \<and> cl_at K s' = cl_at K s)"
    using l(2) unfolding delete_law_def by meson
  show "c_http C q s = (h, s') \<Longrightarrow> cl_at K s' = cl_at K s"
    using l(3) unfolding http_law_def by blast
  show "c_http C q s = (Some a, s') \<Longrightarrow> rs_status a = 200 \<Longrightarrow>
      has_prefix (cl_file K q) (rs_body a) \<and> (\<not> rs_read_error a \<longrightarrow> rs_body a = cl_file K q)"
    using l(3) unfolding http_law_def by blast
qed

text \<open>The getters and setters of the identity of an object (documented accessors of unstructured objects).\<close>

definition key_laws :: "'o unstr \<Rightarrow> bool" where
  "key_laws U \<longleftrightarrow>
     (\<forall>a ob. u_kind U (u_set_annotations U a ob) = u_kind U ob \<and>
        u_namespace U (u_set_annotations U a ob) = u_namespace U ob \<and> u_name U (u_set_annotations U a ob) = u_name U ob) \<and>
     (\<forall>g ob. u_kind U (u_set_gvk U g ob) = gvk_kind g) \<and>
     (\<forall>ns ob. u_namespace U (u_set_namespace U ns ob) = ns \<and> u_kind U (u_set_namespace U ns ob) = u_kind U ob) \<and>
     (\<forall>n ob. u_name U (u_set_name U n ob) = n \<and> u_kind U (u_set_name U n ob) = u_kind U ob \<and>
        u_namespace U (u_set_name U n ob) = u_namespace U ob)"

lemma key_lawsD:
  assumes "key_laws U"
  shows "ob_key U (u_set_annotations U a ob) = ob_key U ob" "ob_key U (delete_object U kind ns n) = (kind, ns, n)"
  using assms by (simp_all add: key_laws_def ob_key_def delete_object_def)

subsection \<open>What a path asks for\<close>

text \<open>The object \<open>ApplyInventoryYAML\<close> sends for a file, as a function of the file.\<close>

definition incoming :: "ext \<Rightarrow> 'o unstr \<Rightarrow> ParsedInventoryPath \<Rightarrow> bytes \<Rightarrow> 'o option" where
  "incoming X U parsed y =
     (case (MaterialHashFromNormalizedYAML X y, Option.bind (x_y2j X (firstYAMLDocument y)) (u_unmarshal U)) of
        (Inr h, Some ob) \<Rightarrow>
          if manifest_matches U parsed ob then Some (u_set_annotations U (stamped_annotations U ob h) ob) else None
      | _ \<Rightarrow> None)"

lemma applies_incoming: "applies X U parsed y ob = (incoming X U parsed y = Some ob)"
  by (auto simp: applies_def incoming_def split: sum.splits option.splits bind_splits)

lemma incoming_key:
  assumes "key_laws U" "ParseInventoryExportPath p = Some parsed" "incoming X U parsed y = Some ob"
  shows "path_object p = Some (ob_key U ob)"
proof -
  obtain m h where m: "manifest_matches U parsed m" "ob = u_set_annotations U (stamped_annotations U m h) m"
    using assms(3) unfolding applies_incoming[symmetric] by (auto simp: applies_def)
  then have "ob_key U ob = ob_key U m" by (simp add: key_lawsD[OF assms(1)])
  then show ?thesis using m(1) assms(2) by (simp add: manifest_matches_def path_object_def ob_key_def)
qed

text \<open>The file of a path in the commit of the push, as far as it is read.\<close>

definition pushed_file :: "('o, 'w) cluster \<Rightarrow> WebhookHandler \<Rightarrow> push_paths \<Rightarrow> string \<Rightarrow> bytes" where
  "pushed_file K h push p =
     take maxRawFile (cl_file K (raw_request (wh_GitHubToken h) (raw_url (ps_FullName push) (ps_HeadSHA push) p)))"

definition put_path ::
  "ext \<Rightarrow> 'o unstr \<Rightarrow> ('o, 'w) cluster \<Rightarrow> WebhookHandler \<Rightarrow> push_paths \<Rightarrow> string \<Rightarrow> 'o objects \<Rightarrow> 'o objects" where
  "put_path X U K h push p M =
     (case Option.bind (ParseInventoryExportPath p) (\<lambda>parsed. incoming X U parsed (pushed_file K h push p)) of
        None \<Rightarrow> M
      | Some ob \<Rightarrow> put_object K (ob_key U ob) ob M)"

definition del_path :: "('o, 'w) cluster \<Rightarrow> string \<Rightarrow> 'o objects \<Rightarrow> 'o objects" where
  "del_path K p M = (case path_object p of None \<Rightarrow> M | Some key \<Rightarrow> del_object K key M)"

lemma put_path_other:
  "key_laws U \<Longrightarrow> path_object p \<noteq> Some key \<Longrightarrow> put_path X U K h push p M key = M key"
  using incoming_key by (fastforce simp: put_path_def put_object_def split: option.splits bind_splits)

lemma del_path_other: "path_object p \<noteq> Some key \<Longrightarrow> del_path K p M key = M key"
  by (auto simp: del_path_def del_object_def split: option.splits)

text \<open>
  The clusters a list of results allows: a path that is reported as an error may or may not have been
  served, every other path has been.
\<close>

fun outcomes :: "(string \<Rightarrow> 'm \<Rightarrow> 'm) \<Rightarrow> webhookResult list \<Rightarrow> 'm \<Rightarrow> 'm set" where
  "outcomes g [] M = {M}"
| "outcomes g (r # rs) M =
     outcomes g rs (g (wres_Path r) M) \<union> (if wres_Status r = ''error'' then outcomes g rs M else {})"

lemma outcomes_ok:
  "\<forall>r \<in> set rs. wres_Status r \<noteq> ''error'' \<Longrightarrow> outcomes g rs M = {fold g (map wres_Path rs) M}"
  by (induction rs arbitrary: M) simp_all

lemma outcomes_other:
  assumes "M' \<in> outcomes g rs M" "\<And>r N. r \<in> set rs \<Longrightarrow> g (wres_Path r) N key = N key"
  shows "M' key = M key"
  using assms by (induction rs arbitrary: M) (auto split: if_splits)

subsection \<open>What ServeHTTP does\<close>

lemma fetched_file:
  assumes "cluster_laws U C K" "FetchGitHubRawFile X C token fn sha p w = (r, w1)"
  shows "cl_at K (w_state w1) = cl_at K (w_state w)"
    and "r = Inr b \<Longrightarrow> b = take maxRawFile (cl_file K (raw_request token (raw_url fn sha p)))"
proof -
  let ?q = "raw_request token (raw_url fn sha p)"
  obtain a s where c: "c_http C ?q (w_state w) = (a, s)" by fastforce
  note L = cluster_lawsD(3,4)[OF assms(1)]
  show "cl_at K (w_state w1) = cl_at K (w_state w)"
    using assms(2) L(1)[OF c] c
    by (auto simp: FetchGitHubRawFile_def do_http_def Let_def split: if_splits option.splits)
  assume r: "r = Inr b"
  then obtain a' where a: "a = Some a'" "rs_status a' = 200" "read_limited maxRawFile (rs_body a') (rs_read_error a') = Some b"
    using assms(2) c by (auto simp: FetchGitHubRawFile_def do_http_def Let_def split: if_splits option.splits)
  have f: "has_prefix (cl_file K ?q) (rs_body a')" "\<not> rs_read_error a' \<longrightarrow> rs_body a' = cl_file K ?q"
    using L(2) c a(1,2) by blast+
  from f(1) obtain t where "cl_file K ?q = rs_body a' @ t" by (auto simp: has_prefix_iff)
  then show "b = take maxRawFile (cl_file K ?q)"
    using a(3) f(2) by (auto simp: read_limited_def split: if_splits)
qed

lemma apply_cluster:
  assumes "cluster_laws U C K" "ApplyInventoryYAML X U C parsed y w = (e, w')"
  shows "(\<exists>ob. incoming X U parsed y = Some ob \<and>
      cl_at K (w_state w') = put_object K (ob_key U ob) ob (cl_at K (w_state w)))
    \<or> e \<noteq> None \<and> cl_at K (w_state w') = cl_at K (w_state w)"
  using apply_cases[of X U parsed y C w]
proof
  assume "\<exists>ob. applies X U parsed y ob \<and> ApplyInventoryYAML X U C parsed y w =
      (map_option ServerSideApply (fst (do_patch C ob fieldOwner True w)), snd (do_patch C ob fieldOwner True w))"
  then obtain ob where ob: "incoming X U parsed y = Some ob"
    "e = map_option ServerSideApply (fst (do_patch C ob fieldOwner True w))" "w' = snd (do_patch C ob fieldOwner True w)"
    using assms(2) by (auto simp: applies_incoming)
  obtain r s where c: "c_patch C ob fieldOwner True (w_state w) = (r, s)" by fastforce
  then have "e = map_option ServerSideApply r" "w_state w' = s" using ob(2,3) by (simp_all add: do_patch_def)
  then show ?thesis using cluster_lawsD(1)[OF assms(1) c] ob(1) by auto
qed (use assms(2) in auto)

lemma serve_added_cluster:
  assumes "cluster_laws U C K" "serve_added X U C h (ps_FullName push) (ps_HeadSHA push) p w = (r, w')"
  shows "cl_at K (w_state w') = put_path X U K h push p (cl_at K (w_state w))
    \<or> wres_Status r = ''error'' \<and> cl_at K (w_state w') = cl_at K (w_state w)"
proof (cases "ParseInventoryExportPath p")
  case None
  then show ?thesis using assms(2) by (simp add: serve_added_def put_path_def)
next
  case (Some parsed)
  obtain fr w1 where f: "FetchGitHubRawFile X C (wh_GitHubToken h) (ps_FullName push) (ps_HeadSHA push) p w = (fr, w1)"
    by fastforce
  note F = fetched_file[OF assms(1) f]
  show ?thesis
  proof (cases fr)
    case (Inl e)
    then show ?thesis using assms(2) Some f F(1) by (simp add: serve_added_def result_of_def) auto
  next
    case (Inr raw)
    obtain ar w2 where a: "ApplyInventoryYAML X U C parsed raw w1 = (ar, w2)" by fastforce
    have raw: "raw = pushed_file K h push p" using F(2) Inr by (simp add: pushed_file_def)
    have "w' = w2" "ar \<noteq> None \<Longrightarrow> wres_Status r = ''error''"
      using assms(2) Some f Inr a by (auto simp: serve_added_def result_of_def split: option.splits)
    then show ?thesis
      using apply_cluster[OF assms(1) a] Some raw F(1) by (auto simp: put_path_def)
  qed
qed

lemma serve_removed_cluster:
  assumes "cluster_laws U C K" "key_laws U" "serve_removed U C p w = (r, w')"
  shows "cl_at K (w_state w') = del_path K p (cl_at K (w_state w))
    \<or> wres_Status r = ''error'' \<and> cl_at K (w_state w') = cl_at K (w_state w)"
proof (cases "path_object p")
  case None
  then show ?thesis
    using assms(3) by (auto simp: serve_removed_def path_object_def del_path_def split: option.splits sum.splits)
next
  case (Some key)
  then obtain parsed k where p: "ParseInventoryExportPath p = Some parsed"
    "ArgoKindFromPlural (pp_PluralKind parsed) = Inr k" "key = (k, pp_Namespace parsed, pp_Name parsed)"
    by (auto simp: path_object_def split: option.splits sum.splits)
  let ?ob = "delete_object U k (pp_Namespace parsed) (pp_Name parsed)"
  obtain a s where c: "c_delete C ?ob (w_state w) = (a, s)" by fastforce
  have w: "w_state w' = s" "a \<noteq> None \<Longrightarrow> a \<noteq> Some ApiNotFound \<Longrightarrow> wres_Status r = ''error''"
    using assms(3) p c
    by (auto simp: serve_removed_def do_delete_def result_of_def split: option.splits api_error.splits)
  have "del_object K key M = M" if "M key = None" for M :: "'a objects"
    using that by (auto simp: del_object_def)
  then show ?thesis
    using cluster_lawsD(2)[OF assms(1) c] w Some p(3)
    by (auto simp: del_path_def key_lawsD[OF assms(2)] split: if_splits)
qed

lemma serve_each_outcomes:
  assumes "\<And>p w r w'. f p w = (r, w') \<Longrightarrow> wres_Path r = p \<and>
      (view w' = g p (view w) \<or> wres_Status r = ''error'' \<and> view w' = view w)"
    and "serve_each f ps w = (rs, w')"
  shows "view w' \<in> outcomes g rs (view w) \<and> map wres_Path rs = ps"
  using assms(2)
proof (induction ps arbitrary: w rs)
  case (Cons p ps)
  obtain r w1 rs1 where "f p w = (r, w1)" "serve_each f ps w1 = (rs1, w')" "rs = r # rs1"
    using Cons.prems by (auto split: prod.splits)
  then show ?case using assms(1)[of p w r w1] Cons.IH[of w1 rs1] by auto
qed simp

text \<open>The run of an authentic push, as an outcome of what its paths ask for.\<close>

lemma serve_cluster:
  assumes "cluster_laws U C K" "key_laws U" "authentic h r body" "ParseGitHubPushPaths body = Inr push"
  shows "\<exists>ra rr M. fst (ServeHTTP X U C h r w) = RespOK (ra @ rr) \<and>
    map wres_Path ra = ps_AddedModified push \<and> map wres_Path rr = ps_Removed push \<and>
    M \<in> outcomes (put_path X U K h push) ra (cl_at K (w_state w)) \<and>
    cl_at K (w_state (snd (ServeHTTP X U C h r w))) \<in> outcomes (del_path K) rr M"
proof -
  let ?f = "serve_added X U C h (ps_FullName push) (ps_HeadSHA push)"
  obtain ra w1 where a: "serve_each ?f (ps_AddedModified push) w = (ra, w1)" by fastforce
  obtain rr w2 where b: "serve_each (serve_removed U C) (ps_Removed push) w1 = (rr, w2)" by fastforce
  have "cl_at K (w_state w1) \<in> outcomes (put_path X U K h push) ra (cl_at K (w_state w)) \<and>
      map wres_Path ra = ps_AddedModified push"
    by (rule serve_each_outcomes[where view = "\<lambda>w. cl_at K (w_state w)", OF _ a])
       (use serve_added_cluster[OF assms(1)] serve_added_path in \<open>metis fst_conv\<close>)
  moreover have "cl_at K (w_state w2) \<in> outcomes (del_path K) rr (cl_at K (w_state w1)) \<and>
      map wres_Path rr = ps_Removed push"
    by (rule serve_each_outcomes[where view = "\<lambda>w. cl_at K (w_state w)", OF _ b])
       (use serve_removed_cluster[OF assms(1,2)] serve_removed_path in \<open>metis fst_conv\<close>)
  ultimately show ?thesis
    unfolding serve_authentic[OF assms(3)] by (auto simp: assms(4) a b)
qed


subsection \<open>Runs without errors\<close>

lemma serve_cluster_ok:
  assumes "cluster_laws U C K" "key_laws U" "authentic h r body" "ParseGitHubPushPaths body = Inr push"
    and "ServeHTTP X U C h r w = (RespOK rs, w')" "\<forall>x \<in> set rs. wres_Status x \<noteq> ''error''"
  shows "cl_at K (w_state w') =
    fold (del_path K) (ps_Removed push) (fold (put_path X U K h push) (ps_AddedModified push) (cl_at K (w_state w)))"
proof -
  obtain ra rr M where s: "RespOK rs = RespOK (ra @ rr)" "map wres_Path ra = ps_AddedModified push"
    "map wres_Path rr = ps_Removed push" "M \<in> outcomes (put_path X U K h push) ra (cl_at K (w_state w))"
    "cl_at K (w_state w') \<in> outcomes (del_path K) rr M"
    using serve_cluster[OF assms(1-4), of X w] assms(5) by auto
  have "\<forall>x \<in> set ra. wres_Status x \<noteq> ''error''" "\<forall>x \<in> set rr. wres_Status x \<noteq> ''error''"
    using s(1) assms(6) by auto
  then show ?thesis using s(2-5) by (simp add: outcomes_ok)
qed

text \<open>A loop over paths, seen at one object: the paths that do not name it, and the one that does.\<close>

lemma fold_other:
  assumes "\<And>p N. p \<in> set ps \<Longrightarrow> g p N key = N key"
  shows "fold g ps M key = (M key :: 'a option)"
  using assms by (induction ps arbitrary: M) simp_all

lemma fold_at:
  assumes "distinct ps" "p \<in> set ps" "\<And>q N. q \<in> set ps \<Longrightarrow> q \<noteq> p \<Longrightarrow> g q N key = N key"
    and "\<And>N. g p N key = f (N key)"
  shows "fold g ps M key = (f (M key) :: 'a option)"
proof -
  obtain a b where ps: "ps = a @ p # b" "p \<notin> set a" "p \<notin> set b"
    using assms(1,2) by (metis distinct.simps(2) distinct_append not_distinct_conv_prefix split_list disjoint_iff list.set_intros(1))
  have "fold g a M key = M key" by (rule fold_other) (use assms(3) ps in auto)
  moreover have "fold g b N key = N key" for N by (rule fold_other) (use assms(3) ps in auto)
  ultimately show ?thesis by (simp add: ps(1) assms(4))
qed

lemma push_paths_distinct:
  "ParseGitHubPushPaths body = Inr push \<Longrightarrow> distinct (ps_AddedModified push) \<and> distinct (ps_Removed push)"
  unfolding parse_push_iff by auto

lemma push_disjoint:
  "ParseGitHubPushPaths body = Inr push \<Longrightarrow> set (ps_AddedModified push) \<inter> set (ps_Removed push) = {}"
  unfolding parse_push_iff push_removed_def by (auto simp: push_added_def commit_removes_def commit_adds_def)

text \<open>The object a path names, after the path has been served.\<close>

lemma put_path_at:
  assumes "key_laws U" "path_object p = Some key"
  shows "put_path X U K h push p M key =
    (case Option.bind (ParseInventoryExportPath p) (\<lambda>parsed. incoming X U parsed (pushed_file K h push p)) of
       None \<Rightarrow> M key | Some ob \<Rightarrow> Some (cl_merge K ob (M key)))"
  using assms incoming_key[OF assms(1), of p]
  by (fastforce simp: put_path_def put_object_def split: option.splits bind_splits)

lemma del_path_at: "path_object p = Some key \<Longrightarrow> del_path K p M key = Option.bind (M key) (cl_bury K)"
  by (simp add: del_path_def del_object_def)

lemma pushed_put_at:
  assumes "key_laws U" "ParseGitHubPushPaths body = Inr push"
    and "p \<in> set (ps_AddedModified push)" "path_object p = Some key"
    and "\<forall>q \<in> set (ps_AddedModified push). path_object q = Some key \<longrightarrow> q = p"
  shows "fold (put_path X U K h push) (ps_AddedModified push) M key = put_path X U K h push p M key"
proof -
  let ?f = "\<lambda>old. case Option.bind (ParseInventoryExportPath p) (\<lambda>parsed. incoming X U parsed (pushed_file K h push p)) of
       None \<Rightarrow> old | Some ob \<Rightarrow> Some (cl_merge K ob old)"
  have "put_path X U K h push q N key = N key" if "q \<in> set (ps_AddedModified push)" "q \<noteq> p" for q N
    by (rule put_path_other[OF assms(1)]) (use assms(5) that in blast)
  then have "fold (put_path X U K h push) (ps_AddedModified push) M key = ?f (M key)"
    by (intro fold_at[OF _ assms(3)] put_path_at[OF assms(1,4)]) (use push_paths_distinct[OF assms(2)] in blast)+
  then show ?thesis by (simp add: put_path_at[OF assms(1,4)])
qed

lemma pushed_del_at:
  assumes "ParseGitHubPushPaths body = Inr push" "p \<in> set (ps_Removed push)" "path_object p = Some key"
    and "\<forall>q \<in> set (ps_Removed push). path_object q = Some key \<longrightarrow> q = p"
  shows "fold (del_path K) (ps_Removed push) M key = Option.bind (M key) (cl_bury K)"
proof -
  have "del_path K q N key = N key" if "q \<in> set (ps_Removed push)" "q \<noteq> p" for q N
    by (rule del_path_other) (use assms(4) that in blast)
  then show ?thesis
    by (intro fold_at[OF _ assms(2)] del_path_at[OF assms(3)]) (use push_paths_distinct[OF assms(1)] in blast)+
qed

lemma fold_put_other:
  "key_laws U \<Longrightarrow> \<forall>p \<in> set ps. path_object p \<noteq> Some key \<Longrightarrow> fold (put_path X U K h push) ps M key = M key"
  by (rule fold_other) (simp add: put_path_other)

lemma fold_del_other:
  "\<forall>p \<in> set ps. path_object p \<noteq> Some key \<Longrightarrow> fold (del_path K) ps M key = M key"
  by (rule fold_other) (simp add: del_path_other)


text \<open>The object of an added path that no other path names, after the push.\<close>

lemma pushed_object:
  assumes "cluster_laws U C K" "key_laws U" "authentic h r body" "ParseGitHubPushPaths body = Inr push"
    and "ServeHTTP X U C h r w = (RespOK rs, w')" "\<forall>x \<in> set rs. wres_Status x \<noteq> ''error''"
    and "p \<in> set (ps_AddedModified push)" "ParseInventoryExportPath p = Some parsed"
    and "incoming X U parsed (pushed_file K h push p) = Some ob"
    and "\<forall>q \<in> set (ps_AddedModified push @ ps_Removed push). path_object q = Some (ob_key U ob) \<longrightarrow> q = p"
  shows "cl_at K (w_state w') (ob_key U ob) = Some (cl_merge K ob (cl_at K (w_state w) (ob_key U ob)))"
proof -
  let ?key = "ob_key U ob"
  have po: "path_object p = Some ?key" by (rule incoming_key[OF assms(2,8,9)])
  have "\<forall>q \<in> set (ps_Removed push). path_object q \<noteq> Some ?key"
    using assms(7,10) push_disjoint[OF assms(4)] by (metis Un_iff disjoint_iff set_append)
  then have "cl_at K (w_state w') ?key =
      fold (put_path X U K h push) (ps_AddedModified push) (cl_at K (w_state w)) ?key"
    unfolding serve_cluster_ok[OF assms(1-6)] by (rule fold_del_other)
  also have "\<dots> = put_path X U K h push p (cl_at K (w_state w)) ?key"
    by (rule pushed_put_at[OF assms(2,4,7) po]) (use assms(10) in auto)
  also have "\<dots> = Some (cl_merge K ob (cl_at K (w_state w) ?key))"
    unfolding put_path_at[OF assms(2) po] by (simp add: assms(8,9))
  finally show ?thesis .
qed

text \<open>No object is named by two paths of the push.\<close>

definition names_once :: "push_paths \<Rightarrow> bool" where
  "names_once push =
     (\<forall>p \<in> set (ps_AddedModified push @ ps_Removed push). \<forall>q \<in> set (ps_AddedModified push @ ps_Removed push).
        path_object p \<noteq> None \<longrightarrow> path_object p = path_object q \<longrightarrow> p = q)"

lemma push_at_cases:
  assumes "key_laws U" "ParseGitHubPushPaths body = Inr push" "names_once push"
  shows "(\<exists>p. \<forall>M. fold (del_path K) (ps_Removed push) (fold (put_path X U K h push) (ps_AddedModified push) M) key =
      (case Option.bind (ParseInventoryExportPath p) (\<lambda>parsed. incoming X U parsed (pushed_file K h push p)) of
         None \<Rightarrow> M key | Some ob \<Rightarrow> Some (cl_merge K ob (M key))))
    \<or> (\<forall>M. fold (del_path K) (ps_Removed push) (fold (put_path X U K h push) (ps_AddedModified push) M) key =
         Option.bind (M key) (cl_bury K))
    \<or> (\<forall>M. fold (del_path K) (ps_Removed push) (fold (put_path X U K h push) (ps_AddedModified push) M) key = M key)"
proof -
  have once: "path_object p = Some key \<Longrightarrow> path_object q = Some key \<Longrightarrow> p \<in> set (ps_AddedModified push @ ps_Removed push) \<Longrightarrow>
      q \<in> set (ps_AddedModified push @ ps_Removed push) \<Longrightarrow> q = p" for p q
    using assms(3) unfolding names_once_def by (metis option.distinct(1))
  note dis = push_disjoint[OF assms(2)]
  consider (added) p where "p \<in> set (ps_AddedModified push)" "path_object p = Some key"
    | (removed) p where "p \<in> set (ps_Removed push)" "path_object p = Some key"
    | (none) "\<forall>p \<in> set (ps_AddedModified push @ ps_Removed push). path_object p \<noteq> Some key"
    by auto
  then show ?thesis
  proof cases
    case added
    have "\<forall>q \<in> set (ps_Removed push). path_object q \<noteq> Some key"
      using once[OF added(2)] added(1) dis by fastforce
    then have d: "fold (del_path K) (ps_Removed push) M key = M key" for M by (rule fold_del_other)
    have "\<forall>q \<in> set (ps_AddedModified push). path_object q = Some key \<longrightarrow> q = p"
      using once[OF added(2)] added(1) by auto
    from pushed_put_at[OF assms(1,2) added this] show ?thesis
      unfolding d put_path_at[OF assms(1) added(2)] by blast
  next
    case removed
    have "\<forall>q \<in> set (ps_AddedModified push). path_object q \<noteq> Some key"
      using once[OF removed(2)] removed(1) dis by fastforce
    then have a: "fold (put_path X U K h push) (ps_AddedModified push) M key = M key" for M
      by (rule fold_put_other[OF assms(1)])
    have "\<forall>q \<in> set (ps_Removed push). path_object q = Some key \<longrightarrow> q = p"
      using once[OF removed(2)] removed(1) by auto
    note b = pushed_del_at[OF assms(2) removed this]
    have "fold (del_path K) (ps_Removed push) (fold (put_path X U K h push) (ps_AddedModified push) M) key =
        Option.bind (M key) (cl_bury K)" for M
      unfolding b a ..
    then show ?thesis by blast
  next
    case none
    then have a: "fold (put_path X U K h push) (ps_AddedModified push) M key = M key"
      and b: "fold (del_path K) (ps_Removed push) M key = M key" for M
      by (auto intro!: fold_put_other[OF assms(1)] fold_del_other)
    have "fold (del_path K) (ps_Removed push) (fold (put_path X U K h push) (ps_AddedModified push) M) key = M key" for M
      unfolding b a ..
    then show ?thesis by blast
  qed
qed

lemma push_twice:
  fixes X :: ext and h :: WebhookHandler
  assumes "key_laws U" "ParseGitHubPushPaths body = Inr push" "names_once push"
    and "\<And>ob old. cl_merge K ob (Some (cl_merge K ob old)) = cl_merge K ob old"
    and "\<And>ob. Option.bind (cl_bury K ob) (cl_bury K) = cl_bury K ob"
  defines "F \<equiv> \<lambda>M. fold (del_path K) (ps_Removed push) (fold (put_path X U K h push) (ps_AddedModified push) M)"
  shows "F (F M) = F M"
proof
  fix key
  have "Option.bind (Option.bind x (cl_bury K)) (cl_bury K) = Option.bind x (cl_bury K)" for x
    using assms(5) by (cases x) auto
  then show "F (F M) key = F M key"
    using push_at_cases[OF assms(1-3), of K X h key] assms(4) unfolding F_def
    by (elim disjE exE) (simp_all split: option.splits)
qed

text \<open>A removed path deletes its object whatever the added paths did, when nothing keeps it alive.\<close>

lemma fold_del_gone:
  assumes "\<And>ob. cl_bury K ob = None"
  shows "M key = None \<Longrightarrow> fold (del_path K) ps M key = None"
    and "q \<in> set ps \<Longrightarrow> path_object q = Some key \<Longrightarrow> fold (del_path K) ps M key = None"
proof -
  have b: "Option.bind x (cl_bury K) = None" for x using assms by (cases x) simp_all
  have keep: "del_path K p N key = None" if "N key = None" for p N
    using that by (auto simp: del_path_def del_object_def b split: option.split)
  show gone: "fold (del_path K) ps M key = None" if "M key = None" for ps M
    using that keep by (induction ps arbitrary: M) simp_all
  show "q \<in> set ps \<Longrightarrow> path_object q = Some key \<Longrightarrow> fold (del_path K) ps M key = None"
  proof (induction ps arbitrary: M)
    case (Cons p ps)
    then show ?case
      by (cases "p = q") (auto simp: del_path_at b intro!: gone)
  qed simp
qed

text \<open>Both suffixes name the same object.\<close>

lemma path_object_yml:
  assumes "exportable (kind, ns, n)"
  shows "path_object (''inventory/'' @ ArgoPluralKind X kind @ ''/'' @ ns @ ''/'' @ n @ ''.yml'') = Some (kind, ns, n)"
proof -
  have h: "argo_kind kind" "proper_elem ns" "object_name n" using assms by (simp_all add: exportable_def)
  let ?xs = "[ArgoPluralKind X kind, ns, n @ ''.yml'']"
  let ?p = "''inventory/'' @ ArgoPluralKind X kind @ ''/'' @ ns @ ''/'' @ n @ ''.yml''"
  let ?r = "\<lparr> pp_PluralKind = ArgoPluralKind X kind, pp_Namespace = ns, pp_Name = n \<rparr>"
  have j: "?p = join_slash (''inventory'' # ?xs)" by simp
  have "proper_elem (n @ ''.yml'')"
    using h(3) by (cases n; cases "tl n") (auto simp: proper_elem_def object_name_def)
  then have pr: "\<forall>x \<in> set ?xs. proper_elem x" using plural_proper[OF h(1), of X] h(2) by auto
  have t: "trim_space ?p = ?p" by (intro trim_visible) (simp_all add: visible_literals)
  have es: "path_elems (trim_space ?p) = ''inventory'' # ?xs"
    using export_elems[OF pr] t unfolding j by blast
  have "\<not> has_suffix (n @ ''.yml'') ''.yaml''"
  proof
    assume "has_suffix (n @ ''.yml'') ''.yaml''"
    then obtain t where "n @ ''.yml'' = t @ ''.yaml''" by (auto simp: has_suffix_iff)
    then have "rev (n @ ''.yml'') = rev (t @ ''.yaml'')" by simp
    then show False by simp
  qed
  then have "yaml_stem (n @ ''.yml'') = n" by (simp add: yaml_stem_def trim_suffix_id)
  then have "ParseInventoryExportPath ?p = Some ?r"
    unfolding parse_iff es parsed_elems_def
    using plural_of_kind[OF h(1), of X] h(3) by (auto simp: yaml_file_def object_name_def)
  then show ?thesis by (simp add: path_object_def kind_of_plural[OF h(1)])
qed

end
