(* ===== verification/HashCache.thy ===== *)
theory HashCache
  imports ExportPath
begin

section \<open>internal/inventory/hashcache.go: the digests of the objects seen\<close>

text \<open>
  The cache is a map from object key to digest; every operation of the source runs under the lock,
  so an operation of the model is one step. The interpretation at the end gives the cache as an
  \<open>erasable_store\<close>.
\<close>

record HashCache =
  cache_m :: "string gomap"

definition NewHashCache :: HashCache where
  "NewHashCache = \<lparr> cache_m = mempty \<rparr>"

definition Cache_Get :: "HashCache \<Rightarrow> string \<Rightarrow> string option" where
  "Cache_Get c key = mget (cache_m c) key"

definition Cache_Set :: "string \<Rightarrow> string \<Rightarrow> HashCache \<Rightarrow> HashCache" where
  "Cache_Set key hash c = c \<lparr> cache_m := mput key hash (cache_m c) \<rparr>"

definition Cache_Delete :: "string \<Rightarrow> HashCache \<Rightarrow> HashCache" where
  "Cache_Delete key c = c \<lparr> cache_m := mdel key (cache_m c) \<rparr>"

definition ExportObjectCacheKey :: "ext \<Rightarrow> string \<Rightarrow> string \<Rightarrow> string \<Rightarrow> string" where
  "ExportObjectCacheKey X kind namespace name = ArgoPluralKind X kind @ ''/'' @ namespace @ ''/'' @ name"

definition cache_ok :: "HashCache \<Rightarrow> bool" where
  "cache_ok c = gomap_ok (cache_m c)"

interpretation hc: erasable_store Cache_Get Cache_Set cache_ok Cache_Delete
  by unfold_locales
     (auto simp: Cache_Get_def Cache_Set_def Cache_Delete_def cache_ok_def mget_mput mget_mdel)

lemma cache_ok_New [simp]: "cache_ok NewHashCache"
  by (simp add: cache_ok_def NewHashCache_def)

lemma Cache_Get_New [simp]: "Cache_Get NewHashCache k = None"
  by (simp add: Cache_Get_def NewHashCache_def)

lemma cache_key_inject:
  assumes "argo_kind k" "argo_kind k'"
    "CHR ''/'' \<notin> set ns" "CHR ''/'' \<notin> set ns'" "CHR ''/'' \<notin> set n" "CHR ''/'' \<notin> set n'"
  shows "ExportObjectCacheKey X k ns n = ExportObjectCacheKey X k' ns' n' \<longleftrightarrow>
         k = k' \<and> ns = ns' \<and> n = n'"
  unfolding ExportObjectCacheKey_def
  using assms plural_inject[OF assms(1,2), of X] plural_proper[OF assms(1), of X]
    plural_proper[OF assms(2), of X]
  by (subst triple_inject) (auto dest: proper_no_slash)

end
