(* ===== verification/GitWorker.thy ===== *)
theory GitWorker
  imports GitArchive Config
begin

section \<open>internal/git/worker.go: the batch worker\<close>

text \<open>
  The pending map and its operations, the commit message, the export of one batch and the flush with
  the enqueues that run while the export is under way (the source holds the lock only to take the
  batch and to put it back). go-git and the choice of a temporary directory are an argument
  \<open>G\<close>; every clone, commit and push is also recorded in a log, a commit with the tree below the
  clone's root. Go's iteration order over the batch is the argument \<open>ord\<close>. The laws of
  the queue and of the flush and the tree a batch produces are in \<open>GitWorkerLaws\<close>.
\<close>

subsection \<open>State\<close>

record ExportJob =
  job_Path :: string
  job_Content :: bytes

type_synonym exportOpKind = int

definition opWrite :: exportOpKind where "opWrite = 0"
definition opArchive :: exportOpKind where "opArchive = 1"

record pendingExport =
  pe_kind :: exportOpKind
  pe_content :: bytes

type_synonym batch = "pendingExport gomap"

record BatchWorker =
  bw_cfg :: InventoryControllerConfig
  bw_pending :: batch

definition NewBatchWorker :: "InventoryControllerConfig \<Rightarrow> BatchWorker" where
  "NewBatchWorker cfg = \<lparr> bw_cfg = cfg, bw_pending = mempty \<rparr>"

definition put_pending :: "string \<Rightarrow> pendingExport \<Rightarrow> BatchWorker \<Rightarrow> BatchWorker" where
  "put_pending p op w = w \<lparr> bw_pending := mput p op (bw_pending w) \<rparr>"

definition Enqueue :: "ExportJob \<Rightarrow> BatchWorker \<Rightarrow> BatchWorker" where
  "Enqueue job w = put_pending (job_Path job) \<lparr> pe_kind = opWrite, pe_content = job_Content job \<rparr> w"

definition EnqueueArchive :: "string \<Rightarrow> BatchWorker \<Rightarrow> BatchWorker" where
  "EnqueueArchive relPath w = put_pending relPath \<lparr> pe_kind = opArchive, pe_content = [] \<rparr> w"

definition NeedLeaderElection :: "BatchWorker \<Rightarrow> bool" where
  "NeedLeaderElection w = True"

record BasicAuth =
  auth_Username :: string
  auth_Password :: string

definition auth :: "InventoryControllerConfig \<Rightarrow> BasicAuth option" where
  "auth cfg =
     (if GitAccessToken cfg = '''' then None
      else (let user = (if GitUsername cfg = '''' then ''git'' else GitUsername cfg)
            in Some \<lparr> auth_Username = user, auth_Password = GitAccessToken cfg \<rparr>))"

subsection \<open>The commit message\<close>

definition newline :: string where
  "newline = [CHR 0x0A]"

definition commitSubject :: "nat \<Rightarrow> string" where
  "commitSubject n = ''chore(inventory): sync '' @ show_nat n @ '' resources [skip ci]''"

fun body_loop :: "nat \<Rightarrow> nat \<Rightarrow> string list \<Rightarrow> string" where
  "body_loop tot i [] = []"
| "body_loop tot i (p # ps) =
     (if i \<ge> 10 then ''... and '' @ show_nat (tot - 10) @ '' more'' @ newline
      else p @ newline @ body_loop tot (Suc i) ps)"

definition commitBody :: "string list \<Rightarrow> string" where
  "commitBody paths = trim_suffix (body_loop (length paths) 0 paths) newline"

definition sortedKeysBatch :: "batch \<Rightarrow> string list" where
  "sortedKeysBatch m = sort_strings (mkeys m)"

text \<open>\<open>batch[p].kind\<close>: the zero value for a path that is not in the map.\<close>

definition kind_at :: "batch \<Rightarrow> string \<Rightarrow> exportOpKind" where
  "kind_at batch p = (case mget batch p of None \<Rightarrow> 0 | Some op \<Rightarrow> pe_kind op)"

definition commitMessageForBatch :: "batch \<Rightarrow> string list \<Rightarrow> string \<times> string" where
  "commitMessageForBatch batch sortedPaths =
     (let writes = filter (\<lambda>p. kind_at batch p = opWrite) sortedPaths;
          archives = filter (\<lambda>p. kind_at batch p = opArchive) sortedPaths
      in if 0 < length writes \<and> length archives = 0 then (commitSubject (length writes), commitBody writes)
         else if length writes = 0 \<and> 0 < length archives then
           (if length archives = 1 then
              (''feat(archive): move deleted resource '' @ resourceNameFromInventoryPath (hd archives)
                 @ '' to archive [skip ci]'', commitBody archives)
            else
              (''feat(archive): move deleted resource '' @ show_nat (length archives)
                 @ '' resources to archive [skip ci]'', commitBody archives))
         else
           (let subj = ''chore(inventory): sync '' @ show_nat (length writes) @ '' and archive ''
                         @ show_nat (length archives) @ '' resources [skip ci]'';
                b1 = commitBody writes;
                b2 = commitBody archives
            in if b1 = [] then (subj, ''archive:'' @ newline @ b2)
               else if b2 = [] then (subj, ''write:'' @ newline @ b1)
               else (subj, ''write:'' @ newline @ b1 @ newline @ ''archive:'' @ newline @ b2)))"

subsection \<open>The export of a batch\<close>

record CloneOptions =
  co_URL :: string
  co_Depth :: int
  co_SingleBranch :: bool
  co_ReferenceName :: string
  co_Auth :: "BasicAuth option"

datatype git_call =
    CloneCall CloneOptions
  | CommitCall string fs
  | PushCall "BasicAuth option"

record 'g gst =
  gs_state :: 'g
  gs_fs :: fs
  gs_log :: "git_call list"

text \<open>An error of a call is its text, \<open>None\<close> is success.\<close>

record 'g git =
  g_mkdirtemp :: "'g \<times> fs \<Rightarrow> (string + string) \<times> 'g \<times> fs"
  g_clone :: "string \<Rightarrow> CloneOptions \<Rightarrow> 'g \<times> fs \<Rightarrow> string option \<times> 'g \<times> fs"
  g_open :: "string \<Rightarrow> 'g \<times> fs \<Rightarrow> string option"
  g_worktree :: "string \<Rightarrow> 'g \<times> fs \<Rightarrow> string option"
  g_add :: "string \<Rightarrow> 'g \<times> fs \<Rightarrow> string option \<times> 'g"
  g_status :: "string \<Rightarrow> 'g \<times> fs \<Rightarrow> string + bool"
  g_commit :: "string \<Rightarrow> string \<Rightarrow> 'g \<times> fs \<Rightarrow> string option \<times> 'g"
  g_push :: "string \<Rightarrow> BasicAuth option \<Rightarrow> 'g \<times> fs \<Rightarrow> string option \<times> 'g"

datatype export_error =
    TempDirFailed string
  | GitCloneFailed string
  | MkdirFailed string errno
  | WriteFailed string errno
  | ArchiveFailed string archive_error
  | UnknownOp string
  | GitOpenFailed string
  | GitWorktreeFailed string
  | GitAddFailed string
  | GitStatusFailed string
  | GitCommitFailed string
  | GitPushFailed string

definition apply_op :: "string \<Rightarrow> string \<times> pendingExport \<Rightarrow> fs \<Rightarrow> export_error + fs" where
  "apply_op dir e f =
     (let rel = fst e; op = snd e in
      if pe_kind op = opWrite then
        (let full = filepath_join dir rel in
         bind_res (map_err (MkdirFailed rel) (fs_mkdir_all (fs_path (path_dir full)) f)) (\<lambda>f1.
           map_err (WriteFailed rel) (fs_write_file (fs_path full) (pe_content op) f1)))
      else if pe_kind op = opArchive then
        map_err (ArchiveFailed rel) (archiveInventoryFileInClone dir rel f)
      else Inl (UnknownOp rel))"

text \<open>
  The loop over the batch. After an error the tree is the one before the failing operation: what
  that operation made lies in the clone, which is removed on return.
\<close>

fun apply_ops :: "string \<Rightarrow> (string \<times> pendingExport) list \<Rightarrow> fs \<Rightarrow> export_error option \<times> fs" where
  "apply_ops dir [] f = (None, f)"
| "apply_ops dir (e # es) f =
     (case apply_op dir e f of Inl err \<Rightarrow> (Some err, f) | Inr g \<Rightarrow> apply_ops dir es g)"

definition tree_below :: "string \<Rightarrow> fs \<Rightarrow> fs" where
  "tree_below dir f = (\<lambda>q. f (fs_path dir @ q))"

definition branch_of :: "InventoryControllerConfig \<Rightarrow> string" where
  "branch_of cfg = (if GitBranch cfg = '''' then ''main'' else GitBranch cfg)"

definition clone_options :: "InventoryControllerConfig \<Rightarrow> CloneOptions" where
  "clone_options cfg =
     \<lparr> co_URL = GitRepoURL cfg, co_Depth = 1, co_SingleBranch = True,
       co_ReferenceName = ''refs/heads/'' @ branch_of cfg, co_Auth = auth cfg \<rparr>"

definition full_message :: "batch \<Rightarrow> string" where
  "full_message batch =
     (let (subject, body) = commitMessageForBatch batch (sortedKeysBatch batch)
      in if body \<noteq> [] then subject @ newline @ newline @ body else subject)"

text \<open>Everything after the loop: open, add, status, commit and push.\<close>

definition publish ::
  "'g git \<Rightarrow> InventoryControllerConfig \<Rightarrow> batch \<Rightarrow> string \<Rightarrow> 'g gst \<Rightarrow> export_error option \<times> 'g gst" where
  "publish G cfg batch dir s0 =
     (let f = gs_fs s0 in
      case g_open G dir (gs_state s0, f) of
        Some e \<Rightarrow> (Some (GitOpenFailed e), s0)
      | None \<Rightarrow>
     (case g_worktree G dir (gs_state s0, f) of
        Some e \<Rightarrow> (Some (GitWorktreeFailed e), s0)
      | None \<Rightarrow>
     (let (ea, ga) = g_add G dir (gs_state s0, f);
          s1 = s0 \<lparr> gs_state := ga \<rparr>
      in case ea of
        Some e \<Rightarrow> (Some (GitAddFailed e), s1)
      | None \<Rightarrow>
     (case g_status G dir (gs_state s1, f) of
        Inl e \<Rightarrow> (Some (GitStatusFailed e), s1)
      | Inr clean \<Rightarrow>
      if clean then (None, s1)
      else
     (let msg = full_message batch;
          (ec, gc) = g_commit G dir msg (gs_state s1, f);
          s2 = s1 \<lparr> gs_state := gc, gs_log := gs_log s1 @ [CommitCall msg (tree_below dir f)] \<rparr>
      in case ec of
        Some e \<Rightarrow> (Some (GitCommitFailed e), s2)
      | None \<Rightarrow>
     (let (ep, gp) = g_push G dir (auth cfg) (gs_state s2, f);
          s3 = s2 \<lparr> gs_state := gp, gs_log := gs_log s2 @ [PushCall (auth cfg)] \<rparr>
      in case ep of
        Some e \<Rightarrow> (Some (GitPushFailed e), s3)
      | None \<Rightarrow> (None, s3)))))))"

definition export_in_dir ::
  "'g git \<Rightarrow> InventoryControllerConfig \<Rightarrow> (string \<times> pendingExport) list \<Rightarrow> batch \<Rightarrow> string \<Rightarrow> 'g gst
    \<Rightarrow> export_error option \<times> 'g gst" where
  "export_in_dir G cfg ops batch dir s0 =
     (let opts = clone_options cfg;
          (ec, gc, fc) = g_clone G dir opts (gs_state s0, gs_fs s0);
          s1 = s0 \<lparr> gs_state := gc, gs_fs := fc, gs_log := gs_log s0 @ [CloneCall opts] \<rparr>
      in case ec of
        Some e \<Rightarrow> (Some (GitCloneFailed e), s1)
      | None \<Rightarrow>
     (let (eo, fo) = apply_ops dir ops (gs_fs s1);
          s2 = s1 \<lparr> gs_fs := fo \<rparr>
      in case eo of
        Some e \<Rightarrow> (Some e, s2)
      | None \<Rightarrow> publish G cfg batch dir s2))"

definition exportBatch ::
  "'g git \<Rightarrow> (batch \<Rightarrow> (string \<times> pendingExport) list) \<Rightarrow> InventoryControllerConfig \<Rightarrow> batch \<Rightarrow> 'g gst
    \<Rightarrow> export_error option \<times> 'g gst" where
  "exportBatch G ord cfg batch s0 =
     (let (rd, gd, fd) = g_mkdirtemp G (gs_state s0, gs_fs s0);
          s1 = s0 \<lparr> gs_state := gd, gs_fs := fd \<rparr>
      in case rd of
        Inl e \<Rightarrow> (Some (TempDirFailed e), s1)
      | Inr dir \<Rightarrow>
          (let (r, s2) = export_in_dir G cfg (ord batch) batch dir s1
           in (r, s2 \<lparr> gs_fs := fs_remove_all (fs_path dir) (gs_fs s2) \<rparr>)))"

subsection \<open>Flush and the ticker loop\<close>

datatype worker_op = OpEnqueue ExportJob | OpArchive string

primrec run_op :: "worker_op \<Rightarrow> BatchWorker \<Rightarrow> BatchWorker" where
  "run_op (OpEnqueue j) w = Enqueue j w"
| "run_op (OpArchive p) w = EnqueueArchive p w"

definition run_ops :: "worker_op list \<Rightarrow> BatchWorker \<Rightarrow> BatchWorker" where
  "run_ops ops w = fold run_op ops w"

text \<open>\<open>mid\<close> are the enqueues other goroutines make while \<open>exportBatch\<close> runs without the lock.\<close>

definition flush ::
  "'g git \<Rightarrow> (batch \<Rightarrow> (string \<times> pendingExport) list) \<Rightarrow> worker_op list \<Rightarrow> BatchWorker \<Rightarrow> 'g gst
    \<Rightarrow> BatchWorker \<times> 'g gst" where
  "flush G ord mid w s =
     (if bw_pending w = [] then (run_ops mid w, s)
      else (let batch = bw_pending w;
                w1 = w \<lparr> bw_pending := mempty \<rparr>
            in if trim_space (GitRepoURL (bw_cfg w)) = '''' then (run_ops mid w1, s)
               else (let (err, s1) = exportBatch G ord (bw_cfg w) batch s;
                         w2 = run_ops mid w1
                     in case err of
                          None \<Rightarrow> (w2, s1)
                        | Some _ \<Rightarrow> (w2 \<lparr> bw_pending := mput_all (ord batch) (bw_pending w2) \<rparr>, s1))))"

datatype worker_event = EvOp worker_op | EvTick "worker_op list" | EvDone

text \<open>
  \<open>Start\<close>: \<open>time.NewTicker\<close> panics on an interval that is not positive; the loop flushes on
  every tick and returns when the context is done.
\<close>

datatype 'g start_result =
    StartPanics
  | StartReturned BatchWorker "'g gst"
  | StartRunning BatchWorker "'g gst"

fun start_loop ::
  "'g git \<Rightarrow> (batch \<Rightarrow> (string \<times> pendingExport) list) \<Rightarrow> worker_event list \<Rightarrow> BatchWorker \<Rightarrow> 'g gst
    \<Rightarrow> 'g start_result" where
  "start_loop G ord [] w s = StartRunning w s"
| "start_loop G ord (EvOp x # es) w s = start_loop G ord es (run_op x w) s"
| "start_loop G ord (EvTick mid # es) w s =
     (let (w1, s1) = flush G ord mid w s in start_loop G ord es w1 s1)"
| "start_loop G ord (EvDone # es) w s = StartReturned w s"

definition Start ::
  "'g git \<Rightarrow> (batch \<Rightarrow> (string \<times> pendingExport) list) \<Rightarrow> worker_event list \<Rightarrow> BatchWorker \<Rightarrow> 'g gst
    \<Rightarrow> 'g start_result" where
  "Start G ord events w s =
     (if sint (BatchInterval (bw_cfg w)) \<le> 0 then StartPanics else start_loop G ord events w s)"

end
