(* ===== verification/GitWorkerLaws.thy ===== *)
theory GitWorkerLaws
  imports GitWorker
begin

section \<open>The batch worker: pending map, commit message, exported tree\<close>

text \<open>
  The pending map as a \<open>keyed_store\<close> (the last operation on a path is the one flushed), flush on
  success and on failure, the shape of the commit messages, and the tree a batch produces: on a
  clone laid out as the inventory is, every operation succeeds, performs its abstract update
  (\<open>op_update\<close>), and the updates of different paths commute, so Go's iteration order does not
  matter.
\<close>

subsection \<open>The pending map\<close>

definition pending_at :: "BatchWorker \<Rightarrow> string \<Rightarrow> pendingExport option" where
  "pending_at w p = mget (bw_pending w) p"

definition worker_ok :: "BatchWorker \<Rightarrow> bool" where
  "worker_ok w = gomap_ok (bw_pending w)"

interpretation bw: keyed_store pending_at put_pending worker_ok
  by unfold_locales (auto simp: pending_at_def put_pending_def worker_ok_def mget_mput)

text \<open>An operation of a client as the entry it stores.\<close>

primrec entry_of :: "worker_op \<Rightarrow> string \<times> pendingExport" where
  "entry_of (OpEnqueue j) = (job_Path j, \<lparr> pe_kind = opWrite, pe_content = job_Content j \<rparr>)"
| "entry_of (OpArchive p) = (p, \<lparr> pe_kind = opArchive, pe_content = [] \<rparr>)"

lemma run_op_entry: "run_op x w = put_pending (fst (entry_of x)) (snd (entry_of x)) w"
  by (cases x) (simp_all add: Enqueue_def EnqueueArchive_def)

lemma run_ops_store_all: "run_ops ops w = bw.store_all (map entry_of ops) w"
proof (induction ops arbitrary: w)
  case (Cons x ops)
  obtain k v where "entry_of x = (k, v)" by (cases "entry_of x")
  then show ?case using Cons by (simp add: run_ops_def run_op_entry)
qed (simp add: run_ops_def)

lemma run_ops_last_wins:
  "worker_ok w \<Longrightarrow> pending_at (run_ops ops w) p =
     (case map_of (rev (map entry_of ops)) p of None \<Rightarrow> pending_at w p | Some op \<Rightarrow> Some op)"
  unfolding run_ops_store_all by (rule bw.ks_last_write_wins)

lemma run_ops_ok: "worker_ok w \<Longrightarrow> worker_ok (run_ops ops w)"
  unfolding run_ops_store_all by (rule bw.ks_inv_store_all)

lemma run_ops_cfg [simp]: "bw_cfg (run_ops ops w) = bw_cfg w"
proof (induction ops arbitrary: w)
  case (Cons x ops)
  then show ?case by (simp add: run_ops_def run_op_entry put_pending_def)
qed (simp add: run_ops_def)

lemma worker_ok_New [simp]: "worker_ok (NewBatchWorker cfg)"
  by (simp add: worker_ok_def NewBatchWorker_def)

subsection \<open>Flush\<close>

text \<open>\<open>ord\<close> lists the entries of a map, in some order.\<close>

definition range_order :: "('v gomap \<Rightarrow> (string \<times> 'v) list) \<Rightarrow> bool" where
  "range_order ord = (\<forall>m. mset (ord m) = mset m)"

lemma range_order_mput_all:
  "range_order ord \<Longrightarrow> gomap_ok b \<Longrightarrow> gomap_ok m \<Longrightarrow> mput_all (ord b) m = mput_all b m"
proof (rule mput_all_perm)
  assume r: "range_order ord" and b: "gomap_ok b"
  show "mset (ord b) = mset b" using r by (simp add: range_order_def)
  then have "mset (map fst (ord b)) = mset (map fst b)" by simp
  then show "distinct (map fst (ord b))"
    using gomap_ok_distinct[OF b] mset_eq_imp_distinct_iff unfolding mkeys_def by blast
qed

lemma flush_empty: "bw_pending w = [] \<Longrightarrow> flush G ord mid w s = (run_ops mid w, s)"
  by (simp add: flush_def)

lemma flush_no_url:
  "bw_pending w \<noteq> [] \<Longrightarrow> trim_space (GitRepoURL (bw_cfg w)) = '''' \<Longrightarrow>
   flush G ord mid w s = (run_ops mid (w \<lparr> bw_pending := mempty \<rparr>), s)"
  by (simp add: flush_def)

lemma flush_success:
  "bw_pending w \<noteq> [] \<Longrightarrow> trim_space (GitRepoURL (bw_cfg w)) \<noteq> '''' \<Longrightarrow>
   exportBatch G ord (bw_cfg w) (bw_pending w) s = (None, s') \<Longrightarrow>
   flush G ord mid w s = (run_ops mid (w \<lparr> bw_pending := mempty \<rparr>), s')"
  by (simp add: flush_def)

lemma flush_failure:
  assumes "bw_pending w \<noteq> []" "trim_space (GitRepoURL (bw_cfg w)) \<noteq> ''''"
    "exportBatch G ord (bw_cfg w) (bw_pending w) s = (Some e, s')" "range_order ord" "worker_ok w"
  shows "pending_at (fst (flush G ord mid w s)) p =
    (case pending_at w p of Some op \<Rightarrow> Some op
     | None \<Rightarrow> pending_at (run_ops mid (w \<lparr> bw_pending := mempty \<rparr>)) p)"
proof -
  let ?w1 = "run_ops mid (w \<lparr> bw_pending := mempty \<rparr>)"
  have ok: "worker_ok ?w1" by (rule run_ops_ok) (simp add: worker_ok_def)
  have "bw_pending (fst (flush G ord mid w s)) = mput_all (bw_pending w) (bw_pending ?w1)"
    using assms ok range_order_mput_all[OF assms(4), of "bw_pending w" "bw_pending ?w1"]
    by (simp add: flush_def worker_ok_def Let_def)
  then show ?thesis
    using assms(5) by (simp add: pending_at_def worker_ok_def mget_mput_all_gomap split: option.splits)
qed

lemma flush_ok: "worker_ok w \<Longrightarrow> worker_ok (fst (flush G ord mid w s))"
  using run_ops_ok[of "w \<lparr> bw_pending := mempty \<rparr>" mid] run_ops_ok[of w mid]
  by (auto simp: flush_def worker_ok_def Let_def split: prod.splits option.splits)

lemma flush_cfg [simp]: "bw_cfg (fst (flush G ord mid w s)) = bw_cfg w"
  by (auto simp: flush_def Let_def split: prod.splits option.splits)

text \<open>Without a repository URL no git call is ever made.\<close>

lemma start_loop_no_url:
  "trim_space (GitRepoURL (bw_cfg w)) = '''' \<Longrightarrow>
   \<exists>w'. start_loop G ord es w s = StartReturned w' s \<or> start_loop G ord es w s = StartRunning w' s"
proof (induction G ord es w s rule: start_loop.induct)
  case (3 G ord mid es w s)
  have "snd (flush G ord mid w s) = s" using 3(2) by (simp add: flush_def Let_def)
  moreover have "bw_cfg (fst (flush G ord mid w s)) = bw_cfg w" by simp
  ultimately show ?case using 3 by (cases "flush G ord mid w s") auto
next
  case (2 G ord x es w s)
  have "bw_cfg (run_op x w) = bw_cfg w" by (simp add: run_op_entry put_pending_def)
  then show ?case using 2 by simp
qed auto

subsection \<open>Commit messages\<close>

lemma has_suffix_appendI: "has_suffix s t \<Longrightarrow> has_suffix (x @ s) t"
  by (auto simp: has_suffix_iff)

lemma skip_ci_literals:
  "has_suffix '' resources [skip ci]'' ''[skip ci]''" "has_suffix '' to archive [skip ci]'' ''[skip ci]''"
  "has_suffix '' resources to archive [skip ci]'' ''[skip ci]''"
  by code_simp+

lemma subject_skip_ci: "has_suffix (fst (commitMessageForBatch b ps)) ''[skip ci]''"
  unfolding commitMessageForBatch_def Let_def commitSubject_def if_distrib[of fst] fst_conv
  by (simp only: if_cancel split: if_split) (intro conjI impI has_suffix_appendI skip_ci_literals)

lemma body_loop_small:
  "i + length ps \<le> 10 \<Longrightarrow> body_loop n i ps = concat (map (\<lambda>p. p @ newline) ps)"
  by (induction ps arbitrary: i) auto

lemma body_loop_long:
  "i \<le> 10 \<Longrightarrow> 10 < i + length ps \<Longrightarrow>
   body_loop n i ps = concat (map (\<lambda>p. p @ newline) (take (10 - i) ps))
     @ ''... and '' @ show_nat (n - 10) @ '' more'' @ newline"
proof (induction ps arbitrary: i)
  case (Cons p ps)
  show ?case
  proof (cases "i = 10")
    case False
    then have "10 - i = Suc (10 - Suc i)" "Suc i \<le> 10" using Cons.prems by auto
    then show ?thesis using Cons.IH[of "Suc i"] Cons.prems False by simp
  qed simp
qed simp

fun join_lines :: "string list \<Rightarrow> string" where
  "join_lines [] = []"
| "join_lines [l] = l"
| "join_lines (l # m # r) = l @ newline @ join_lines (m # r)"

lemma concat_lines: "ls \<noteq> [] \<Longrightarrow> concat (map (\<lambda>p. p @ newline) ls) = join_lines ls @ newline"
  by (induction ls rule: join_lines.induct) auto

lemma commitBody_short:
  "length ps \<le> 10 \<Longrightarrow> commitBody ps = join_lines ps"
  by (cases "ps = []")
     (simp_all add: commitBody_def body_loop_small concat_lines, simp add: trim_suffix_def)

lemma commitBody_long:
  assumes "10 < length ps"
  shows "commitBody ps = join_lines (take 10 ps @ [''... and '' @ show_nat (length ps - 10) @ '' more''])"
proof -
  let ?m = "''... and '' @ show_nat (length ps - 10) @ '' more''"
  have "body_loop (length ps) 0 ps = concat (map (\<lambda>p. p @ newline) (take 10 ps @ [?m]))"
    using body_loop_long[of 0 ps] assms by simp
  also have "\<dots> = join_lines (take 10 ps @ [?m]) @ newline"
    by (rule concat_lines) simp
  finally show ?thesis by (simp add: commitBody_def)
qed

subsection \<open>The tree a batch produces\<close>

text \<open>
  The layout the default template produces: \<open>inventory/x/y/z\<close> for a live file and
  \<open>inventory/archive/x/y/z\<close> for an archived one, \<open>x\<close> not being \<open>archive\<close>. A tree has the
  layout when only files stand at those places and only directories above them.
\<close>

definition inv_path :: "string list \<Rightarrow> bool" where
  "inv_path xs = (length xs = 3 \<and> list_all proper_elem xs \<and> hd xs \<noteq> ''archive'')"

definition inv_targets :: "string list \<Rightarrow> string list \<Rightarrow> bool" where
  "inv_targets D t = (\<exists>xs. inv_path xs \<and> (t = D @ live_elems xs \<or> t = D @ archive_elems xs))"

definition inv_tree :: "string list \<Rightarrow> fs \<Rightarrow> bool" where
  "inv_tree D f = (fs_tree f \<and> (\<forall>t. inv_targets D t \<longrightarrow> no_file_above f t \<and> f t \<noteq> Some Dir))"

definition op_update :: "string list \<Rightarrow> string list \<times> pendingExport \<Rightarrow> fs \<Rightarrow> fs" where
  "op_update D e f =
     (let xs = fst e; op = snd e in
      if pe_kind op = opWrite then put_file (D @ live_elems xs) (pe_content op) f
      else move_file (D @ live_elems xs) (D @ archive_elems xs) f)"

definition known_kind :: "pendingExport \<Rightarrow> bool" where
  "known_kind op = (pe_kind op = opWrite \<or> pe_kind op = opArchive)"

definition inv_op :: "string list \<times> pendingExport \<Rightarrow> bool" where
  "inv_op e = (inv_path (fst e) \<and> known_kind (snd e))"

definition render_op :: "string list \<times> pendingExport \<Rightarrow> string \<times> pendingExport" where
  "render_op e = (join_slash (live_elems (fst e)), snd e)"

lemma prefix_same_length: "prefix a b \<Longrightarrow> length a = length b \<Longrightarrow> a = b"
  by (auto simp: prefix_def)

lemma inv_path_shape: "inv_path xs \<Longrightarrow> xs \<noteq> [] \<and> (\<forall>x \<in> set xs. proper_elem x)"
  by (auto simp: inv_path_def list_all_iff)

lemma target_antichain:
  assumes "inv_targets D a" "inv_targets D b" "prefix a b"
  shows "a = b"
proof -
  obtain xs where xs: "inv_path xs" "a = D @ live_elems xs \<or> a = D @ archive_elems xs"
    using assms(1) by (auto simp: inv_targets_def)
  obtain ys where ys: "inv_path ys" "b = D @ live_elems ys \<or> b = D @ archive_elems ys"
    using assms(2) by (auto simp: inv_targets_def)
  have len: "length xs = 3" "length ys = 3" using xs(1) ys(1) by (auto simp: inv_path_def)
  have "length a = length b"
  proof (rule ccontr)
    assume "length a \<noteq> length b"
    moreover have "length a \<le> length b" using assms(3) by (rule prefix_length_le)
    ultimately have ab: "a = D @ live_elems xs" "b = D @ archive_elems ys"
      using xs(2) ys(2) len by (auto simp: live_elems_def archive_elems_def)
    then have "prefix xs (''archive'' # ys)"
      using assms(3) by (simp add: live_elems_def archive_elems_def)
    then have "hd xs = ''archive''" using len by (cases xs) auto
    then show False using xs(1) by (simp add: inv_path_def)
  qed
  then show ?thesis using prefix_same_length assms(3) by blast
qed

lemma live_target: "inv_path xs \<Longrightarrow> inv_targets D (D @ live_elems xs)"
  and archive_target: "inv_path xs \<Longrightarrow> inv_targets D (D @ archive_elems xs)"
  by (auto simp: inv_targets_def)

lemma live_archive_ne: "inv_path xs \<Longrightarrow> D @ live_elems xs \<noteq> D @ archive_elems ys"
  by (auto simp: live_elems_def archive_elems_def inv_path_def)

lemma live_inject: "live_elems xs = live_elems ys \<longleftrightarrow> xs = ys"
  and archive_inject: "archive_elems xs = archive_elems ys \<longleftrightarrow> xs = ys"
  by (auto simp: live_elems_def archive_elems_def)

text \<open>Both updates keep the layout.\<close>

lemma inv_tree_below: "inv_tree D f \<Longrightarrow> inv_targets D t \<Longrightarrow> strict_prefix t q \<Longrightarrow> f q = None"
  unfolding inv_tree_def fs_tree_def by (metis option.distinct(1))

lemma inv_tree_put:
  assumes "inv_tree D f" "inv_targets D t"
  shows "inv_tree D (put_file t c f)"
  unfolding inv_tree_def
proof (intro conjI allI impI)
  show "fs_tree (put_file t c f)"
    using assms inv_tree_below[OF assms] by (intro fs_tree_put_file) (auto simp: inv_tree_def)
next
  fix u
  assume u: "inv_targets D u"
  have above: "no_file_above f u" "f u \<noteq> Some Dir" using assms(1) u by (auto simp: inv_tree_def)
  have "\<not> strict_prefix t u" "\<not> strict_prefix u t"
    using target_antichain[OF assms(2) u] target_antichain[OF u assms(2)]
    by (auto simp: strict_prefix_def)
  then show "no_file_above (put_file t c f) u" "put_file t c f u \<noteq> Some Dir"
    using above by (auto simp: no_file_above_def put_file_def)
qed

lemma inv_tree_remove:
  assumes "inv_tree D f" "inv_targets D t"
  shows "inv_tree D (f(t := None))"
  unfolding inv_tree_def
proof (intro conjI allI impI)
  show "fs_tree (f(t := None))"
    using assms(1) inv_tree_below[OF assms] by (auto simp: inv_tree_def fs_tree_def)
qed (use assms in \<open>auto simp: inv_tree_def no_file_above_def\<close>)

lemma inv_tree_move:
  "inv_tree D f \<Longrightarrow> inv_targets D p \<Longrightarrow> inv_targets D q \<Longrightarrow> inv_tree D (move_file p q f)"
  by (auto simp: move_file_def inv_tree_put inv_tree_remove split: option.splits node.splits)

lemma inv_tree_update: "inv_tree D f \<Longrightarrow> inv_op e \<Longrightarrow> inv_tree D (op_update D e f)"
  by (auto simp: op_update_def inv_op_def Let_def inv_tree_put inv_tree_move live_target archive_target)

text \<open>The code performs the update, without an error.\<close>

lemma apply_op_update:
  assumes "rooted_path d" "inv_tree (fs_path d) f" "inv_op e"
  shows "apply_op d (render_op e) f = Inr (op_update (fs_path d) e f)"
proof -
  obtain xs op where e: "e = (xs, op)" by (cases e)
  have xs: "inv_path xs" "known_kind op" using assms(3) by (simp_all add: e inv_op_def)
  note shape = inv_path_shape[OF xs(1)]
  let ?t = "fs_path d @ live_elems xs"
  have t: "no_file_above f ?t" "f ?t \<noteq> Some Dir"
    using assms(2) live_target[OF xs(1)] by (auto simp: inv_tree_def)
  have q: "no_file_above f (fs_path d @ archive_elems xs)" "f (fs_path d @ archive_elems xs) \<noteq> Some Dir"
    using assms(2) archive_target[OF xs(1)] by (auto simp: inv_tree_def)
  have full: "fs_path (filepath_join d (join_slash (live_elems xs))) = ?t"
    using fs_path_live(1)[OF assms(1)] shape by simp
  have dir: "fs_path (path_dir (filepath_join d (join_slash (live_elems xs)))) = butlast ?t"
    using shape by (intro fs_path_dir_join[OF assms(1)]) (auto simp: live_elems_def)
  show ?thesis
  proof (cases "pe_kind op = opWrite")
    case True
    have ne: "?t \<noteq> []" by (simp add: live_elems_def)
    have "\<forall>r c. prefix r (butlast ?t) \<longrightarrow> f r \<noteq> Some (File c)"
      using t(1) by (simp add: strict_prefix_butlast[OF ne] no_file_above_def)
    then have mk: "fs_mkdir_all (butlast ?t) f = Inr (make_dirs (butlast ?t) f)"
      by (rule fs_mkdir_all_eq)
    then have "fs_write_file ?t (pe_content op) (make_dirs (butlast ?t) f) = Inr (put_file ?t (pe_content op) f)"
      using mkdir_write[OF ne t] by simp
    then show ?thesis
      by (simp add: e apply_op_def render_op_def op_update_def True full dir mk)
  next
    case False
    have np: "\<not> prefix (live_elems xs) (archive_elems xs)"
      using target_antichain[OF live_target[OF xs(1)] archive_target[OF xs(1)], of "[]"]
        live_archive_ne[OF xs(1), of "[]"] by auto
    have "archiveInventoryFileInClone d (join_slash (live_elems xs)) f
        = Inr (move_file ?t (fs_path d @ archive_elems xs) f)"
      using shape assms(2) t q np by (intro archive_ready[OF assms(1)]) (auto simp: inv_tree_def)
    then show ?thesis
      using False xs(2) by (simp add: e apply_op_def render_op_def op_update_def known_kind_def)
  qed
qed

lemma apply_ops_update:
  assumes "rooted_path d" "inv_tree (fs_path d) f" "\<forall>e \<in> set es. inv_op e"
  shows "apply_ops d (map render_op es) f = (None, fold (op_update (fs_path d)) es f)"
  using assms(2,3)
  by (induction es arbitrary: f) (auto simp: apply_op_update[OF assms(1)] inv_tree_update)

text \<open>Updates of different paths commute.\<close>

lemma put_move_commute:
  assumes "\<not> prefix t p" "\<not> prefix p t" "\<not> prefix t q" "\<not> prefix q t"
  shows "put_file t c (move_file p q f) = move_file p q (put_file t c f)"
proof -
  have "put_file t c f p = f p" using assms by (auto simp: put_file_def)
  moreover have "put_file t c ((put_file q d f)(p := None)) = (put_file q d (put_file t c f))(p := None)" for d
    using assms by (auto simp: put_file_def fun_eq_iff)
  ultimately show ?thesis
    by (simp add: move_file_def split: option.splits node.splits)
qed

lemma move_move_commute:
  assumes "\<not> prefix p q" "\<not> prefix q p" "\<not> prefix p p'" "\<not> prefix p' p" "\<not> prefix p q'" "\<not> prefix q' p"
    "\<not> prefix p' q'" "\<not> prefix q' p'" "\<not> prefix q p'" "\<not> prefix p' q" "\<not> prefix q q'" "\<not> prefix q' q"
  shows "move_file p q (move_file p' q' f) = move_file p' q' (move_file p q f)"
proof -
  have l: "move_file p' q' f p = f p" "move_file p q f p' = f p'"
    using assms by (auto simp: move_file_def put_file_def split: option.splits node.splits)
  have c: "(put_file q d ((put_file q' d' f)(p' := None)))(p := None)
      = (put_file q' d' ((put_file q d f)(p := None)))(p' := None)" for d d'
    using assms by (auto simp: put_file_def fun_eq_iff)
  show ?thesis
    using l c by (simp add: move_file_def split: option.splits node.splits)
qed

lemma op_update_commute:
  assumes "inv_op e" "inv_op e'" "fst e \<noteq> fst e'"
  shows "op_update D e (op_update D e' f) = op_update D e' (op_update D e f)"
proof -
  obtain xs op ys op' where e: "e = (xs, op)" "e' = (ys, op')" by (cases e; cases e')
  have p: "inv_path xs" "inv_path ys" "xs \<noteq> ys" using assms by (simp_all add: e inv_op_def)
  have inc: "\<not> prefix a b" if "inv_targets D a" "inv_targets D b" "a \<noteq> b" for a b
    using target_antichain[OF that(1,2)] that(3) by blast
  note T = live_target[OF p(1), of D] live_target[OF p(2), of D] archive_target[OF p(1), of D]
    archive_target[OF p(2), of D]
  have ne: "D @ live_elems xs \<noteq> D @ live_elems ys" "D @ archive_elems xs \<noteq> D @ archive_elems ys"
    "D @ live_elems xs \<noteq> D @ archive_elems ys" "D @ live_elems ys \<noteq> D @ archive_elems xs"
    "D @ live_elems xs \<noteq> D @ archive_elems xs" "D @ live_elems ys \<noteq> D @ archive_elems ys"
    using p live_archive_ne[OF p(1)] live_archive_ne[OF p(2)] by (auto simp: live_inject archive_inject)
  note I = inc[OF T(1,2) ne(1)] inc[OF T(2,1) ne(1)[symmetric]] inc[OF T(3,4) ne(2)]
    inc[OF T(4,3) ne(2)[symmetric]] inc[OF T(1,4) ne(3)] inc[OF T(4,1) ne(3)[symmetric]]
    inc[OF T(2,3) ne(4)] inc[OF T(3,2) ne(4)[symmetric]] inc[OF T(1,3) ne(5)]
    inc[OF T(3,1) ne(5)[symmetric]] inc[OF T(2,4) ne(6)] inc[OF T(4,2) ne(6)[symmetric]]
  show ?thesis
    using put_file_commute[OF ne(1) I(1,2)] put_move_commute[OF I(1,2,5,6)]
      put_move_commute[OF I(2,1,7,8)] move_move_commute[OF I(9,10,1,2,5,6,11,12,8,7,3,4)]
    by (simp add: op_update_def e)
qed

lemma fold_update_perm:
  assumes "mset es = mset es'" "\<forall>e \<in> set es. inv_op e" "distinct (map fst es)"
  shows "fold (op_update D) es f = fold (op_update D) es' f"
proof -
  have "fold (op_update D) es = fold (op_update D) es'"
  proof (rule fold_multiset_equiv)
    fix x y
    assume xy: "x \<in> set es" "y \<in> set es"
    show "op_update D x \<circ> op_update D y = op_update D y \<circ> op_update D x"
    proof (cases "x = y")
      case False
      then have "fst x \<noteq> fst y" using xy assms(3) by (auto simp: distinct_map inj_on_def)
      then show ?thesis using op_update_commute xy assms(2) by (auto simp: fun_eq_iff)
    qed simp
  qed (rule assms(1))
  then show ?thesis by simp
qed

text \<open>Looking up one path after the batch: the other operations do not touch it.\<close>

lemma op_update_other:
  assumes "inv_op e" "inv_path xs" "fst e \<noteq> xs"
  shows "op_update D e f (D @ live_elems xs) = f (D @ live_elems xs)"
    and "op_update D e f (D @ archive_elems xs) = f (D @ archive_elems xs)"
proof -
  obtain ys op where e: "e = (ys, op)" by (cases e)
  have ys: "inv_path ys" "ys \<noteq> xs" using assms by (simp_all add: e inv_op_def)
  have np: "\<not> strict_prefix a b" if "inv_targets D a" "inv_targets D b" for a b
    using target_antichain[OF that] by (auto simp: strict_prefix_def)
  note T = live_target[OF ys(1), of D] live_target[OF assms(2), of D] archive_target[OF ys(1), of D]
    archive_target[OF assms(2), of D]
  have ne: "D @ live_elems xs \<noteq> D @ live_elems ys" "D @ archive_elems xs \<noteq> D @ archive_elems ys"
    "D @ live_elems xs \<noteq> D @ archive_elems ys" "D @ live_elems ys \<noteq> D @ archive_elems xs"
    using ys assms(2) live_archive_ne[OF ys(1)] live_archive_ne[OF assms(2)]
    by (auto simp: live_inject archive_inject)
  show "op_update D e f (D @ live_elems xs) = f (D @ live_elems xs)"
    "op_update D e f (D @ archive_elems xs) = f (D @ archive_elems xs)"
    using ne np[OF T(2,1)] np[OF T(4,1)] np[OF T(2,3)] np[OF T(4,3)]
    by (auto simp: op_update_def e move_file_def put_file_def split: option.splits node.splits)
qed

lemma fold_update_other:
  assumes "\<forall>e \<in> set es. inv_op e" "inv_path xs" "xs \<notin> fst ` set es"
  shows "fold (op_update D) es f (D @ live_elems xs) = f (D @ live_elems xs)"
    and "fold (op_update D) es f (D @ archive_elems xs) = f (D @ archive_elems xs)"
  using assms by (induction es arbitrary: f) (auto simp: op_update_other)

lemma fold_update_at:
  assumes "\<forall>e \<in> set es. inv_op e" "distinct (map fst es)" "(xs, op) \<in> set es"
  shows "fold (op_update D) es f (D @ live_elems xs) = op_update D (xs, op) f (D @ live_elems xs)"
    and "fold (op_update D) es f (D @ archive_elems xs) = op_update D (xs, op) f (D @ archive_elems xs)"
proof -
  obtain as bs where es: "es = as @ (xs, op) # bs" using assms(3) by (meson split_list)
  have m: "mset es = mset ((as @ bs) @ [(xs, op)])" by (simp add: es)
  have rest: "\<forall>e \<in> set (as @ bs). inv_op e" "xs \<notin> fst ` set (as @ bs)" "inv_path xs"
    using assms by (auto simp: es inv_op_def)
  let ?g = "fold (op_update D) (as @ bs) f"
  have f: "fold (op_update D) es f = op_update D (xs, op) ?g"
    using fold_update_perm[OF m assms(1,2)] by simp
  have g: "?g (D @ live_elems xs) = f (D @ live_elems xs)" "?g (D @ archive_elems xs) = f (D @ archive_elems xs)"
    using fold_update_other[OF rest(1,3,2)] by auto
  have "D @ archive_elems xs \<noteq> D @ live_elems xs" using live_archive_ne[OF rest(3)] by metis
  moreover have "\<not> strict_prefix (D @ live_elems xs) (D @ archive_elems xs)"
    using target_antichain[OF live_target[OF rest(3)] archive_target[OF rest(3)], of D]
    by (auto simp: strict_prefix_def)
  ultimately show "fold (op_update D) es f (D @ live_elems xs) = op_update D (xs, op) f (D @ live_elems xs)"
    "fold (op_update D) es f (D @ archive_elems xs) = op_update D (xs, op) f (D @ archive_elems xs)"
    using g unfolding f
    by (auto simp: op_update_def move_file_def put_file_def split: option.splits node.splits)
qed

lemma op_update_at:
  assumes "inv_tree D f" "inv_path xs"
  shows "op_update D (xs, op) f (D @ live_elems xs) =
      (if pe_kind op = opWrite then Some (File (pe_content op)) else None) \<and>
    op_update D (xs, op) f (D @ archive_elems xs) =
      (if pe_kind op = opWrite \<or> f (D @ live_elems xs) = None then f (D @ archive_elems xs)
       else f (D @ live_elems xs))"
proof -
  let ?p = "D @ live_elems xs" and ?q = "D @ archive_elems xs"
  have T: "inv_targets D ?p" "inv_targets D ?q" using assms(2) by (auto intro: live_target archive_target)
  have ne: "?p \<noteq> ?q" by (rule live_archive_ne[OF assms(2)])
  have np: "\<not> strict_prefix ?p ?q" "\<not> strict_prefix ?q ?p"
    using target_antichain[OF T] target_antichain[OF T(2,1)] ne by (auto simp: strict_prefix_def)
  have nd: "f ?p \<noteq> Some Dir" using assms(1) T(1) by (simp add: inv_tree_def)
  show ?thesis
    using ne np nd
    by (auto simp: op_update_def move_file_def put_file_def split: option.splits node.splits)
qed

subsection \<open>The calls of an export\<close>

definition commit_of ::
  "'g git \<Rightarrow> InventoryControllerConfig \<Rightarrow> (string \<times> pendingExport) list \<Rightarrow> batch \<Rightarrow> git_call list \<Rightarrow> bool" where
  "commit_of G cfg ops batch log =
     (\<forall>c \<in> set log.
       case c of
         CloneCall opts \<Rightarrow> opts = clone_options cfg
       | CommitCall msg tree \<Rightarrow> msg = full_message batch \<and>
           (\<exists>dir g f g' cl f'. g_clone G dir (clone_options cfg) (g, f) = (None, g', cl) \<and>
              apply_ops dir ops cl = (None, f') \<and> tree = tree_below dir f')
       | PushCall a \<Rightarrow> a = auth cfg \<and> (\<exists>msg tree. CommitCall msg tree \<in> set log))"

lemma publish_log:
  "gs_log (snd (publish G cfg batch dir s)) \<in>
     {gs_log s, gs_log s @ [CommitCall (full_message batch) (tree_below dir (gs_fs s))],
      gs_log s @ [CommitCall (full_message batch) (tree_below dir (gs_fs s)), PushCall (auth cfg)]}"
  by (auto simp: publish_def Let_def split: option.splits prod.splits sum.splits)

lemma export_log:
  "\<exists>log. gs_log (snd (export_in_dir G cfg ops batch dir s)) = gs_log s @ log \<and> commit_of G cfg ops batch log"
proof -
  obtain ec gc cl where c: "g_clone G dir (clone_options cfg) (gs_state s, gs_fs s) = (ec, gc, cl)"
    by (metis prod.exhaust)
  obtain eo fo where a: "apply_ops dir ops cl = (eo, fo)" by (metis prod.exhaust)
  let ?cl = "[CloneCall (clone_options cfg)]"
  have one: "commit_of G cfg ops batch ?cl" by (simp add: commit_of_def)
  show ?thesis
  proof (cases "ec = None \<and> eo = None")
    case False
    then have "gs_log (snd (export_in_dir G cfg ops batch dir s)) = gs_log s @ ?cl"
      by (auto simp: export_in_dir_def c a Let_def split: option.splits)
    then show ?thesis using one by blast
  next
    case True
    let ?s2 = "s \<lparr> gs_state := gc, gs_log := gs_log s @ ?cl, gs_fs := fo \<rparr>"
    let ?com = "CommitCall (full_message batch) (tree_below dir fo)"
    have e: "export_in_dir G cfg ops batch dir s = publish G cfg batch dir ?s2"
      using True by (simp add: export_in_dir_def c a Let_def)
    have w: "\<exists>dir' g f g' cl f'. g_clone G dir' (clone_options cfg) (g, f) = (None, g', cl) \<and>
        apply_ops dir' ops cl = (None, f') \<and> tree_below dir fo = tree_below dir' f'"
      using c a True by blast
    have "commit_of G cfg ops batch (?cl @ [?com])" "commit_of G cfg ops batch (?cl @ [?com, PushCall (auth cfg)])"
      using w by (auto simp: commit_of_def)
    then show ?thesis
      using publish_log[of G cfg batch dir ?s2] one unfolding e by auto
  qed
qed

lemma apply_ops_stray:
  "pe_kind op = opArchive \<Longrightarrow> \<not> has_prefix p inventoryPrefix \<Longrightarrow> (p, op) \<in> set es \<Longrightarrow>
   fst (apply_ops dir es f) \<noteq> None"
proof (induction es arbitrary: f)
  case (Cons e es)
  then show ?case
    by (cases "apply_op dir e f")
       (auto simp: apply_op_def archiveInventoryFileInClone_def ArchiveRelativePath_def opArchive_def opWrite_def)
qed simp

end
