(* ===== verification/Reconciler.thy ===== *)
theory Reconciler
  imports HashCache Normalize GitWorkerLaws
begin

section \<open>internal/inventory/reconciler.go: from a cluster event to a pending export\<close>

text \<open>
  \<open>ReconcileDeps\<close> holds the digest cache, the queue of the batch worker and the path template; the
  client is the argument \<open>C\<close>. \<open>handle\<close> is the common tail of the two reconcilers, with its
  order of effects: the cache is written before the path is rendered. The lemmas give \<open>handle\<close> on
  every branch and \<open>reconcile_kind\<close> on every answer of the API server.
\<close>

record ReconcileDeps =
  rd_cache :: HashCache
  rd_queue :: BatchWorker
  rd_tmpl :: string

record request =
  rq_namespace :: string
  rq_name :: string

datatype reconcile_error =
    NormalizeAndHash normalize_error
  | RenderPath tmpl_error
  | RenderPathForDelete tmpl_error
  | FailedToGet string api_error

definition handle ::
  "ext \<Rightarrow> 'o unstr \<Rightarrow> ReconcileDeps \<Rightarrow> request \<Rightarrow> 'o \<Rightarrow> string \<Rightarrow> reconcile_error option \<times> ReconcileDeps" where
  "handle X U d req ob kind =
     (case NormalizedYAMLAndMaterialHash X U ob of
        Inl e \<Rightarrow> (Some (NormalizeAndHash e), d)
      | Inr (yamlBytes, currentHash) \<Rightarrow>
          (let cacheKey = ExportObjectCacheKey X kind (rq_namespace req) (rq_name req) in
           if (case u_annotations U ob of
                 None \<Rightarrow> False
               | Some ann \<Rightarrow> mget ann SyncContentHashAnnotationKey = Some currentHash)
           then (None, d)
           else if Cache_Get (rd_cache d) cacheKey = Some currentHash then (None, d)
           else
             (let d1 = d \<lparr> rd_cache := Cache_Set cacheKey currentHash (rd_cache d) \<rparr> in
              case RenderExportPath X (rd_tmpl d) kind (rq_namespace req) (rq_name req) of
                Inl e \<Rightarrow> (Some (RenderPath e), d1)
              | Inr relPath \<Rightarrow>
                  (None, d1 \<lparr> rd_queue :=
                     Enqueue \<lparr> job_Path = relPath, job_Content = yamlBytes \<rparr> (rd_queue d1) \<rparr>))))"

text \<open>The two \<open>Reconcile\<close> methods differ in the GVK they fetch and the kind name they pass on.\<close>

definition reconcile_kind ::
  "gvk \<Rightarrow> string \<Rightarrow> ext \<Rightarrow> 'o unstr \<Rightarrow> ('o, 'w) client \<Rightarrow> ReconcileDeps \<Rightarrow> request \<Rightarrow> ('o, 'w) world
    \<Rightarrow> reconcile_error option \<times> ReconcileDeps \<times> ('o, 'w) world" where
  "reconcile_kind g kind X U C d req w =
     (let (r, w1) = do_get C g (rq_namespace req) (rq_name req) w in
      case r of
        Inl ApiNotFound \<Rightarrow>
          (let key = ExportObjectCacheKey X kind (rq_namespace req) (rq_name req);
               d1 = d \<lparr> rd_cache := Cache_Delete key (rd_cache d) \<rparr> in
           case RenderExportPath X (rd_tmpl d) kind (rq_namespace req) (rq_name req) of
             Inl e \<Rightarrow> (Some (RenderPathForDelete e), d1, w1)
           | Inr relPath \<Rightarrow> (None, d1 \<lparr> rd_queue := EnqueueArchive relPath (rd_queue d1) \<rparr>, w1))
      | Inl e \<Rightarrow> (Some (FailedToGet kind e), d, w1)
      | Inr ob \<Rightarrow> (let (err, d1) = handle X U d req ob kind in (err, d1, w1)))"

definition Application_Reconcile ::
  "ext \<Rightarrow> 'o unstr \<Rightarrow> ('o, 'w) client \<Rightarrow> ReconcileDeps \<Rightarrow> request \<Rightarrow> ('o, 'w) world
    \<Rightarrow> reconcile_error option \<times> ReconcileDeps \<times> ('o, 'w) world" where
  "Application_Reconcile = reconcile_kind ApplicationGVK ''Application''"

definition ApplicationSet_Reconcile ::
  "ext \<Rightarrow> 'o unstr \<Rightarrow> ('o, 'w) client \<Rightarrow> ReconcileDeps \<Rightarrow> request \<Rightarrow> ('o, 'w) world
    \<Rightarrow> reconcile_error option \<times> ReconcileDeps \<times> ('o, 'w) world" where
  "ApplicationSet_Reconcile = reconcile_kind ApplicationSetGVK ''ApplicationSet''"

subsection \<open>handle on every branch\<close>

definition stamped :: "'o unstr \<Rightarrow> 'o \<Rightarrow> string \<Rightarrow> bool" where
  "stamped U ob h =
     (case u_annotations U ob of None \<Rightarrow> False | Some ann \<Rightarrow> mget ann SyncContentHashAnnotationKey = Some h)"

definition deps_ok :: "ReconcileDeps \<Rightarrow> bool" where
  "deps_ok d = (cache_ok (rd_cache d) \<and> worker_ok (rd_queue d))"

lemma handle_normalize_error:
  "NormalizedYAMLAndMaterialHash X U ob = Inl e \<Longrightarrow> handle X U d req ob kind = (Some (NormalizeAndHash e), d)"
  by (simp add: handle_def)

lemma handle_stamped:
  "NormalizedYAMLAndMaterialHash X U ob = Inr (yb, h) \<Longrightarrow> stamped U ob h \<Longrightarrow> handle X U d req ob kind = (None, d)"
  by (simp add: handle_def stamped_def)

lemma handle_cached:
  "NormalizedYAMLAndMaterialHash X U ob = Inr (yb, h) \<Longrightarrow>
   Cache_Get (rd_cache d) (ExportObjectCacheKey X kind (rq_namespace req) (rq_name req)) = Some h \<Longrightarrow>
   handle X U d req ob kind = (None, d)"
  by (simp add: handle_def Let_def)

lemma handle_changed:
  assumes "NormalizedYAMLAndMaterialHash X U ob = Inr (yb, h)" "\<not> stamped U ob h"
    "Cache_Get (rd_cache d) (ExportObjectCacheKey X kind (rq_namespace req) (rq_name req)) \<noteq> Some h"
  shows "handle X U d req ob kind =
     (let d1 = d \<lparr> rd_cache := Cache_Set (ExportObjectCacheKey X kind (rq_namespace req) (rq_name req)) h (rd_cache d) \<rparr>
      in case RenderExportPath X (rd_tmpl d) kind (rq_namespace req) (rq_name req) of
           Inl e \<Rightarrow> (Some (RenderPath e), d1)
         | Inr p \<Rightarrow> (None, d1 \<lparr> rd_queue := Enqueue \<lparr> job_Path = p, job_Content = yb \<rparr> (rd_queue d) \<rparr>))"
  using assms by (auto simp: handle_def stamped_def Let_def split: sum.splits option.splits)

lemma Enqueue_ok [simp]: "worker_ok w \<Longrightarrow> worker_ok (Enqueue j w)"
  by (simp add: Enqueue_def bw.inv_store)

lemma EnqueueArchive_ok [simp]: "worker_ok w \<Longrightarrow> worker_ok (EnqueueArchive p w)"
  by (simp add: EnqueueArchive_def bw.inv_store)

lemma handle_ok: "deps_ok d \<Longrightarrow> deps_ok (snd (handle X U d req ob kind))"
  by (auto simp: handle_def deps_ok_def Let_def hc.inv_store split: sum.splits option.splits prod.splits)

lemma handle_tmpl [simp]: "rd_tmpl (snd (handle X U d req ob kind)) = rd_tmpl d"
  by (auto simp: handle_def Let_def split: sum.splits option.splits prod.splits)

lemma reconcile_ok:
  assumes "deps_ok d"
  shows "deps_ok (fst (snd (reconcile_kind g kind X U C d req w)))"
proof -
  have h: "deps_ok d'" if "handle X U d req ob kind = (e, d')" for ob e d'
    using handle_ok[OF assms, of X U req ob kind] that by simp
  then show ?thesis
    using assms
    by (auto simp: reconcile_kind_def deps_ok_def[of d] deps_ok_def[of "d\<lparr>rd_cache := _\<rparr>"]
        deps_ok_def[of "d\<lparr>rd_cache := _, rd_queue := _\<rparr>"] Let_def hc.inv_erase
        split: sum.splits api_error.splits prod.splits)
qed

subsection \<open>Reconciling on every answer of the API server\<close>

lemma reconcile_deleted:
  assumes "c_get C g (rq_namespace req) (rq_name req) (w_state w) = (Inl ApiNotFound, s)"
    "RenderExportPath X (rd_tmpl d) kind (rq_namespace req) (rq_name req) = Inr p"
  shows "reconcile_kind g kind X U C d req w =
    (None,
     d \<lparr> rd_cache := Cache_Delete (ExportObjectCacheKey X kind (rq_namespace req) (rq_name req)) (rd_cache d),
         rd_queue := EnqueueArchive p (rd_queue d) \<rparr>,
     \<lparr> w_state = s, w_calls = w_calls w @ [GetCall g (rq_namespace req) (rq_name req)] \<rparr>)"
  using assms by (simp add: reconcile_kind_def do_get_def)

lemma reconcile_get_error:
  assumes "c_get C g (rq_namespace req) (rq_name req) (w_state w) = (Inl (ApiOther e), s)"
  shows "reconcile_kind g kind X U C d req w =
    (Some (FailedToGet kind (ApiOther e)), d,
     \<lparr> w_state = s, w_calls = w_calls w @ [GetCall g (rq_namespace req) (rq_name req)] \<rparr>)"
  using assms by (simp add: reconcile_kind_def do_get_def)

lemma reconcile_found:
  assumes "c_get C g (rq_namespace req) (rq_name req) (w_state w) = (Inr ob, s)"
  shows "reconcile_kind g kind X U C d req w =
    (fst (handle X U d req ob kind), snd (handle X U d req ob kind),
     \<lparr> w_state = s, w_calls = w_calls w @ [GetCall g (rq_namespace req) (rq_name req)] \<rparr>)"
  using assms by (simp add: reconcile_kind_def do_get_def split: prod.splits)

text \<open>The inventory controller only reads the cluster.\<close>

lemma reconcile_calls:
  "w_calls (snd (snd (reconcile_kind g kind X U C d req w)))
     = w_calls w @ [GetCall g (rq_namespace req) (rq_name req)]"
  by (auto simp: reconcile_kind_def do_get_def Let_def split: prod.splits sum.splits api_error.splits)

end
