(* ===== verification/System.thy ===== *)
theory System
  imports Reconciler
begin

section \<open>The inventory controller as a state machine\<close>

text \<open>
  The reconcilers and the batch worker share the cache and the queue. A state holds both, the batch
  an export has taken from the queue (between the two critical sections of \<open>flush\<close>), and the last
  operation a push has published for every path. The steps are the reconcilers' effects, the start
  of a flush, and its success or failure; enqueues may come between the two. \<open>backed\<close> is what makes
  the cache safe to skip on: a cached digest is the digest of the newest content on its way to Git or
  in Git.
\<close>

record sys =
  sy_deps :: ReconcileDeps
  sy_inflight :: "batch option"
  sy_git :: "string \<Rightarrow> pendingExport option"

definition sys_init :: "InventoryControllerConfig \<Rightarrow> sys" where
  "sys_init cfg =
     \<lparr> sy_deps = \<lparr> rd_cache = NewHashCache, rd_queue = NewBatchWorker cfg, rd_tmpl = defaultExportPathTemplate \<rparr>,
       sy_inflight = None, sy_git = (\<lambda>p. None) \<rparr>"

definition forget :: "ext \<Rightarrow> ReconcileDeps \<Rightarrow> request \<Rightarrow> string \<Rightarrow> string \<Rightarrow> ReconcileDeps" where
  "forget X d req kind p =
     d \<lparr> rd_cache := Cache_Delete (ExportObjectCacheKey X kind (rq_namespace req) (rq_name req)) (rd_cache d),
         rd_queue := EnqueueArchive p (rd_queue d) \<rparr>"

definition take_batch :: "sys \<Rightarrow> sys" where
  "take_batch s =
     (let q = rd_queue (sy_deps s)
      in s \<lparr> sy_inflight := Some (bw_pending q),
             sy_deps := (sy_deps s) \<lparr> rd_queue := q \<lparr> bw_pending := mempty \<rparr> \<rparr> \<rparr>)"

definition published :: "batch \<Rightarrow> sys \<Rightarrow> sys" where
  "published b s =
     s \<lparr> sy_inflight := None,
         sy_git := (\<lambda>p. case mget b p of None \<Rightarrow> sy_git s p | Some op \<Rightarrow> Some op) \<rparr>"

definition put_back :: "batch \<Rightarrow> sys \<Rightarrow> sys" where
  "put_back b s =
     (let q = rd_queue (sy_deps s)
      in s \<lparr> sy_inflight := None,
             sy_deps := (sy_deps s) \<lparr> rd_queue := q \<lparr> bw_pending := mput_all b (bw_pending q) \<rparr> \<rparr> \<rparr>)"

text \<open>
  With \<open>strict\<close>, a failed export finds none of its paths enqueued again in the meantime.
\<close>

inductive sys_step :: "bool \<Rightarrow> ext \<Rightarrow> 'o unstr \<Rightarrow> sys \<Rightarrow> sys \<Rightarrow> bool"
  for strict X U where
  seen: "sys_step strict X U s (s \<lparr> sy_deps := snd (handle X U (sy_deps s) req ob kind) \<rparr>)"
| gone: "RenderExportPath X (rd_tmpl (sy_deps s)) kind (rq_namespace req) (rq_name req) = Inr p \<Longrightarrow>
    sys_step strict X U s (s \<lparr> sy_deps := forget X (sy_deps s) req kind p \<rparr>)"
| start: "sy_inflight s = None \<Longrightarrow> sys_step strict X U s (take_batch s)"
| success: "sy_inflight s = Some b \<Longrightarrow> sys_step strict X U s (published b s)"
| failure: "sy_inflight s = Some b \<Longrightarrow>
    (strict \<Longrightarrow> \<forall>p \<in> set (mkeys b). pending_at (rd_queue (sy_deps s)) p = None) \<Longrightarrow>
    sys_step strict X U s (put_back b s)"

inductive sys_reach :: "bool \<Rightarrow> ext \<Rightarrow> 'o unstr \<Rightarrow> InventoryControllerConfig \<Rightarrow> sys \<Rightarrow> bool"
  for strict X U cfg where
  init: "sys_reach strict X U cfg (sys_init cfg)"
| step: "sys_reach strict X U cfg s \<Longrightarrow> sys_step strict X U s s' \<Longrightarrow> sys_reach strict X U cfg s'"

inductive_cases sys_stepE: "sys_step strict X U s s'"

subsection \<open>The newest operation on a path\<close>

definition latest :: "sys \<Rightarrow> string \<Rightarrow> pendingExport option" where
  "latest s p =
     (case pending_at (rd_queue (sy_deps s)) p of
        Some op \<Rightarrow> Some op
      | None \<Rightarrow>
          (case (case sy_inflight s of None \<Rightarrow> None | Some b \<Rightarrow> mget b p) of
             Some op \<Rightarrow> Some op
           | None \<Rightarrow> sy_git s p))"

text \<open>Cache key and exported path of an object determine each other.\<close>

definition path_of_key :: "string \<Rightarrow> string" where
  "path_of_key key = ''inventory/'' @ key @ ''.yaml''"

lemma path_of_key_inject: "path_of_key k = path_of_key k' \<longleftrightarrow> k = k'"
  by (simp add: path_of_key_def)

lemma render_key:
  "RenderExportPath X defaultExportPathTemplate kind ns n = Inr (path_of_key (ExportObjectCacheKey X kind ns n))"
  by (simp add: render_default path_of_key_def ExportObjectCacheKey_def)

definition exports :: "ext \<Rightarrow> 'o unstr \<Rightarrow> bytes \<Rightarrow> string \<Rightarrow> bool" where
  "exports X U yb h = (\<exists>ob. NormalizedYAMLAndMaterialHash X U ob = Inr (yb, h))"

definition backed :: "ext \<Rightarrow> 'o unstr \<Rightarrow> sys \<Rightarrow> bool" where
  "backed X U s =
     (\<forall>key h. Cache_Get (rd_cache (sy_deps s)) key = Some h \<longrightarrow>
        (\<exists>yb. latest s (path_of_key key) = Some \<lparr> pe_kind = opWrite, pe_content = yb \<rparr> \<and> exports X U yb h))"

definition sys_ok :: "sys \<Rightarrow> bool" where
  "sys_ok s =
     (deps_ok (sy_deps s) \<and> rd_tmpl (sy_deps s) = defaultExportPathTemplate \<and>
      (case sy_inflight s of None \<Rightarrow> True | Some b \<Rightarrow> gomap_ok b))"

lemma sys_ok_init [simp]: "sys_ok (sys_init cfg)"
  by (simp add: sys_ok_def sys_init_def deps_ok_def)

lemma handle_default_cases:
  assumes "rd_tmpl d = defaultExportPathTemplate"
  shows "snd (handle X U d req ob kind) = d \<or>
    (\<exists>yb h. NormalizedYAMLAndMaterialHash X U ob = Inr (yb, h) \<and>
       (let key = ExportObjectCacheKey X kind (rq_namespace req) (rq_name req) in
        snd (handle X U d req ob kind) =
          d \<lparr> rd_cache := Cache_Set key h (rd_cache d),
              rd_queue := Enqueue \<lparr> job_Path = path_of_key key, job_Content = yb \<rparr> (rd_queue d) \<rparr>))"
proof (cases "NormalizedYAMLAndMaterialHash X U ob")
  case (Inl e)
  then show ?thesis by (simp add: handle_normalize_error)
next
  case (Inr r)
  then obtain yb h where r: "NormalizedYAMLAndMaterialHash X U ob = Inr (yb, h)" by (cases r) auto
  show ?thesis
  proof (cases "stamped U ob h \<or>
      Cache_Get (rd_cache d) (ExportObjectCacheKey X kind (rq_namespace req) (rq_name req)) = Some h")
    case True
    then show ?thesis using handle_stamped[OF r] handle_cached[OF r] by auto
  next
    case False
    then show ?thesis
      using r by (simp add: handle_changed[OF r] assms render_key Let_def)
  qed
qed

lemma sys_ok_step:
  assumes "sys_step strict X U s s'" "sys_ok s"
  shows "sys_ok s'"
  using assms
proof (induction rule: sys_step.induct)
  case (seen s req ob kind)
  then show ?case by (simp add: sys_ok_def handle_ok)
next
  case (gone s kind req p)
  then show ?case by (simp add: sys_ok_def forget_def deps_ok_def hc.inv_erase split: option.splits)
next
  case (start s)
  then show ?case by (simp add: sys_ok_def take_batch_def deps_ok_def worker_ok_def Let_def)
next
  case (success s b)
  then show ?case by (simp add: sys_ok_def published_def)
next
  case (failure s b)
  then show ?case by (simp add: sys_ok_def put_back_def deps_ok_def worker_ok_def Let_def)
qed

subsection \<open>The invariant\<close>

lemma latest_enqueue:
  assumes "sys_ok s"
  shows "latest (s \<lparr> sy_deps := (sy_deps s) \<lparr> rd_cache := c, rd_queue := put_pending p op (rd_queue (sy_deps s)) \<rparr> \<rparr>) p'
    = (if p' = p then Some op else latest s p')"
  using assms bw.lookup_store[of "rd_queue (sy_deps s)" p op p']
  by (simp add: latest_def sys_ok_def deps_ok_def split: option.splits)

lemma backed_seen:
  assumes "sys_ok s" "backed X U s"
  shows "backed X U (s \<lparr> sy_deps := snd (handle X U (sy_deps s) req ob kind) \<rparr>)"
proof -
  have t: "rd_tmpl (sy_deps s) = defaultExportPathTemplate" using assms(1) by (simp add: sys_ok_def)
  let ?key = "ExportObjectCacheKey X kind (rq_namespace req) (rq_name req)"
  from handle_default_cases[OF t, of X U req ob kind] show ?thesis
  proof (elim disjE exE conjE)
    fix yb h
    let ?op = "\<lparr> pe_kind = opWrite, pe_content = yb \<rparr>"
    assume n: "NormalizedYAMLAndMaterialHash X U ob = Inr (yb, h)"
    assume "let key = ?key in snd (handle X U (sy_deps s) req ob kind) =
          (sy_deps s) \<lparr> rd_cache := Cache_Set key h (rd_cache (sy_deps s)),
              rd_queue := Enqueue \<lparr> job_Path = path_of_key key, job_Content = yb \<rparr> (rd_queue (sy_deps s)) \<rparr>"
    then have d: "snd (handle X U (sy_deps s) req ob kind) =
        (sy_deps s) \<lparr> rd_cache := Cache_Set ?key h (rd_cache (sy_deps s)),
            rd_queue := put_pending (path_of_key ?key) ?op (rd_queue (sy_deps s)) \<rparr>"
      by (simp add: Let_def Enqueue_def)
    have ok: "cache_ok (rd_cache (sy_deps s))" using assms(1) by (simp add: sys_ok_def deps_ok_def)
    have ex: "exports X U yb h" using n by (auto simp: exports_def)
    show ?thesis
      unfolding backed_def d latest_enqueue[OF assms(1)]
      using assms(2) ex by (auto simp: backed_def hc.lookup_store[OF ok] path_of_key_inject)
  qed (simp add: assms(2))
qed

lemma backed_gone:
  assumes "sys_ok s" "backed X U s"
    "RenderExportPath X (rd_tmpl (sy_deps s)) kind (rq_namespace req) (rq_name req) = Inr p"
  shows "backed X U (s \<lparr> sy_deps := forget X (sy_deps s) req kind p \<rparr>)"
proof -
  let ?key = "ExportObjectCacheKey X kind (rq_namespace req) (rq_name req)"
  have p: "p = path_of_key ?key" using assms(1,3) by (simp add: sys_ok_def render_key)
  have ok: "cache_ok (rd_cache (sy_deps s))" using assms(1) by (simp add: sys_ok_def deps_ok_def)
  show ?thesis
    unfolding backed_def forget_def EnqueueArchive_def latest_enqueue[OF assms(1)]
    using assms(2) by (auto simp: backed_def p hc.lookup_erase[OF ok] path_of_key_inject)
qed

lemma latest_take: "sy_inflight s = None \<Longrightarrow> latest (take_batch s) p = latest s p"
  by (simp add: latest_def take_batch_def pending_at_def Let_def split: option.splits)

lemma latest_published: "sy_inflight s = Some b \<Longrightarrow> latest (published b s) p = latest s p"
  by (simp add: latest_def published_def split: option.splits)

lemma latest_put_back:
  assumes "sy_inflight s = Some b" "sys_ok s" "\<forall>p \<in> set (mkeys b). pending_at (rd_queue (sy_deps s)) p = None"
  shows "latest (put_back b s) p = latest s p"
proof -
  have "gomap_ok b" using assms(1,2) by (simp add: sys_ok_def)
  moreover have "pending_at (rd_queue (sy_deps s)) p = None" if "mget b p = Some op" for op
    using assms(3) mget_Some_in_keys[OF that] by blast
  ultimately show ?thesis
    using assms(1)
    by (auto simp: latest_def put_back_def pending_at_def Let_def mget_mput_all_gomap split: option.splits)
qed

lemma cache_flush [simp]:
  "rd_cache (sy_deps (take_batch s)) = rd_cache (sy_deps s)"
  "rd_cache (sy_deps (published b s)) = rd_cache (sy_deps s)"
  "rd_cache (sy_deps (put_back b s)) = rd_cache (sy_deps s)"
  by (simp_all add: take_batch_def published_def put_back_def Let_def)

lemma backed_step:
  assumes "sys_step True X U s s'" "sys_ok s" "backed X U s"
  shows "backed X U s'"
  using assms
proof (induction rule: sys_step.induct)
  case (seen s req ob kind)
  then show ?case by (simp add: backed_seen)
next
  case (gone s kind req p)
  then show ?case by (simp add: backed_gone)
next
  case (start s)
  then show ?case by (simp add: backed_def latest_take)
next
  case (success s b)
  then show ?case by (simp add: backed_def latest_published)
next
  case (failure s b)
  then show ?case by (simp add: backed_def latest_put_back)
qed

lemma reach_invariant: "sys_reach True X U cfg s \<Longrightarrow> sys_ok s \<and> backed X U s"
proof (induction rule: sys_reach.induct)
  case init
  show ?case by (simp add: backed_def, simp add: sys_init_def)
next
  case (step s s')
  then show ?case using sys_ok_step backed_step by blast
qed

subsection \<open>The steps are the code's\<close>

text \<open>
  A reconcile is a step. A flush is the start step, whatever steps \<open>mid\<close> the reconcilers make during
  the export (they lead to \<open>m\<close>), and then the success or the failure step.
\<close>

lemma reconcile_step:
  assumes "reconcile_kind g kind X U C (sy_deps s) req w = (err, d, w')" "sys_ok s"
  shows "sys_step strict X U s (s \<lparr> sy_deps := d \<rparr>) \<or> d = sy_deps s"
proof -
  obtain r w1 where r: "do_get C g (rq_namespace req) (rq_name req) w = (r, w1)"
    by (cases "do_get C g (rq_namespace req) (rq_name req) w")
  have p: "RenderExportPath X (rd_tmpl (sy_deps s)) kind (rq_namespace req) (rq_name req)
      = Inr (path_of_key (ExportObjectCacheKey X kind (rq_namespace req) (rq_name req)))"
    using assms(2) by (simp add: sys_ok_def render_key)
  show ?thesis
  proof (cases r)
    case (Inl e)
    show ?thesis
    proof (cases e)
      case ApiNotFound
      then have "d = forget X (sy_deps s) req kind
          (path_of_key (ExportObjectCacheKey X kind (rq_namespace req) (rq_name req)))"
        using assms(1) p Inl r by (simp add: reconcile_kind_def forget_def Let_def)
      then show ?thesis using sys_step.gone[OF p] by auto
    next
      case (ApiOther m)
      then show ?thesis using assms(1) Inl r by (simp add: reconcile_kind_def)
    qed
  next
    case (Inr ob)
    then have "d = snd (handle X U (sy_deps s) req ob kind)"
      using assms(1) r by (simp add: reconcile_kind_def split: prod.splits)
    then show ?thesis using sys_step.seen by auto
  qed
qed

lemma flush_steps:
  assumes "bw_pending (rd_queue (sy_deps s)) \<noteq> []" "sys_ok s" "range_order ord"
    "trim_space (GitRepoURL (bw_cfg (rd_queue (sy_deps s)))) \<noteq> ''''"
    "exportBatch G ord (bw_cfg (rd_queue (sy_deps s))) (bw_pending (rd_queue (sy_deps s))) g = (err, g')"
    "rd_queue (sy_deps m) = run_ops mid (rd_queue (sy_deps (take_batch s)))"
  shows "fst (flush G ord mid (rd_queue (sy_deps s)) g) =
    rd_queue (sy_deps (case err of
       None \<Rightarrow> published (bw_pending (rd_queue (sy_deps s))) m
     | Some _ \<Rightarrow> put_back (bw_pending (rd_queue (sy_deps s))) m))"
proof -
  let ?q = "rd_queue (sy_deps s)" and ?m = "rd_queue (sy_deps m)"
  have m: "?m = run_ops mid (?q \<lparr> bw_pending := mempty \<rparr>)"
    using assms(6) by (simp add: take_batch_def Let_def)
  have "worker_ok ?m" unfolding m by (rule run_ops_ok) (simp add: worker_ok_def)
  then have "mput_all (ord (bw_pending ?q)) (bw_pending ?m) = mput_all (bw_pending ?q) (bw_pending ?m)"
    using assms(2) by (intro range_order_mput_all[OF assms(3)]) (simp_all add: sys_ok_def deps_ok_def worker_ok_def)
  then show ?thesis
    using assms(1,4,5) by (simp add: flush_def published_def put_back_def m Let_def split: option.splits)
qed

end
