(* ===== verification/Instances.thy ===== *)
theory Instances
  imports Cluster System
begin

section \<open>Concrete instances of the interfaces outside the repository\<close>

text \<open>
  One executable instance of everything the components take as an argument, and a sample
  Application. They serve to evaluate the model on concrete inputs: each witness of a property
  discharges the property's hypotheses on them. Every JSON text is a YAML text, so the identity is an
  instance of the two YAML conversions. No property speaks of these instances.
\<close>

definition x0 :: ext where
  "x0 = \<lparr> x_lower = map lower_ascii, x_template = (\<lambda>t p ns n. Inl (TmplParse t)), x_float = (\<lambda>l. None),
          x_y2j = Some, x_j2y = Some, x_url_ok = (\<lambda>u. True) \<rparr>"

definition str_at :: "string \<Rightarrow> json gomap \<Rightarrow> string" where
  "str_at k m = (case mget m k of Some (JStr s) \<Rightarrow> s | _ \<Rightarrow> [])"

definition meta_of :: "json gomap \<Rightarrow> json gomap" where
  "meta_of m = obj_or_empty (mget m ''metadata'')"

definition set_str :: "string \<Rightarrow> string \<Rightarrow> json gomap \<Rightarrow> json gomap" where
  "set_str k s m = mput k (JStr s) m"

definition u0 :: "json gomap unstr" where
  "u0 = \<lparr> u_empty = mempty,
          u_unmarshal = (\<lambda>b. case unmarshal_map x0 b of Some (Some m) \<Rightarrow> Some m | _ \<Rightarrow> None),
          u_marshal = (\<lambda>m. Some (json_marshal (JObj m))),
          u_apiversion = str_at ''apiVersion'', u_kind = str_at ''kind'',
          u_namespace = (\<lambda>m. str_at ''namespace'' (meta_of m)),
          u_name = (\<lambda>m. str_at ''name'' (meta_of m)),
          u_annotations = (\<lambda>m. case mget (meta_of m) ''annotations'' of
             Some (JObj a) \<Rightarrow> Some (map (\<lambda>e. (fst e, case snd e of JStr s \<Rightarrow> s | _ \<Rightarrow> [])) a) | _ \<Rightarrow> None),
          u_set_annotations = (\<lambda>a. set_metadata ''annotations'' (json_strmap a)),
          u_set_gvk = (\<lambda>g m. set_str ''kind'' (gvk_kind g)
             (set_str ''apiVersion'' (gvk_group g @ ''/'' @ gvk_version g) m)),
          u_set_namespace = (\<lambda>ns. set_metadata ''namespace'' (JStr ns)),
          u_set_name = (\<lambda>n. set_metadata ''name'' (JStr n)) \<rparr>"

lemma unstr_laws_u0: "unstr_laws u0"
proof -
  have "(\<lambda>e. (fst e, case snd e of JStr s \<Rightarrow> s | _ \<Rightarrow> [])) \<circ> (\<lambda>(k :: string, v). (k, JStr v)) = id"
    by (auto simp: fun_eq_iff)
  then show ?thesis
    by (simp add: unstr_laws_def u0_def set_metadata_def meta_of_def obj_or_empty_def mget_mput json_strmap_def)
qed

lemma float_text_x0: "float_text_ok (x_float x0)"
  by (simp add: float_text_ok_def x0_def)

lemma x0_conversions [simp]: "x_y2j x0 b = Some b" "x_j2y x0 b = Some b" "x_url_ok x0 u"
  by (simp_all add: x0_def)

subsection \<open>A sample object\<close>

definition app0 :: "json gomap" where
  "app0 =
     [(''apiVersion'', JStr ''argoproj.io/v1alpha1''), (''kind'', JStr ''Application''),
      (''metadata'', JObj [(''name'', JStr ''web''), (''namespace'', JStr ''argocd'')]),
      (''spec'', JObj [(''project'', JStr ''default'')])]"

definition yaml0 :: bytes where
  "yaml0 = json_marshal (JObj app0)"

definition hash0 :: string where
  "hash0 = sha256_hex yaml0"

definition path0 :: string where
  "path0 = ''inventory/applications/argocd/web.yaml''"

definition parsed0 :: ParsedInventoryPath where
  "parsed0 = \<lparr> pp_PluralKind = ''applications'', pp_Namespace = ''argocd'', pp_Name = ''web'' \<rparr>"

lemma yaml0_text: "yaml0 = json_marshal (JObj app0)"
  by (simp add: yaml0_def)

lemma app0_norm: "norm_map (x_float x0) max_nesting app0"
proof -
  have "gomap_ok app0" by code_simp
  moreover have "list_all (\<lambda>c. bval c < 128) (concat (map fst app0))" by code_simp
  ultimately show ?thesis
    by (simp add: norm_map_def app0_def list_all_iff utf8_ok_ascii max_nesting_def gomap_ok_def)
qed

lemma app0_normal: "normalizeKubernetesObject app0 = app0"
  by code_simp

lemma app0_doc: "firstYAMLDocument yaml0 = yaml0"
proof -
  have "trim_space yaml0 = yaml0"
    by (rule trim_visible) (simp_all add: yaml0_def app0_def visible_ascii_def)
  moreover have "split_on (CHR 0x0A) ''---'' yaml0 = [yaml0]"
    unfolding yaml0_def app0_def by code_simp
  moreover have "yaml0 \<noteq> []" by (simp add: yaml0_def app0_def)
  ultimately show ?thesis by (simp add: firstYAMLDocument_def Let_def)
qed

lemma app0_marshal: "normalizedMapFromRuntimeObject x0 u0 app0 = Inr (Some app0)"
proof -
  have "unmarshal_map x0 (json_marshal (map_json (Some app0))) = Some (Some app0)"
    by (rule unmarshal_marshal_map) (simp add: norm_opt_def app0_norm)
  then show ?thesis
    by (simp add: normalizedMapFromRuntimeObject_def u0_def map_json_def app0_normal)
qed

lemma app0_hash: "NormalizedYAMLAndMaterialHash x0 u0 app0 = Inr (yaml0, hash0)"
  by (simp add: normalized_yaml_hash app0_marshal map_json_def yaml0_def hash0_def)

lemma yaml0_decodes: "unmarshal_map x0 yaml0 = Some (Some app0)"
proof -
  have "unmarshal_map x0 (json_marshal (map_json (Some app0))) = Some (Some app0)"
    by (rule unmarshal_marshal_map) (simp add: norm_opt_def app0_norm)
  then show ?thesis by (simp add: map_json_def yaml0_def)
qed

lemma yaml0_hash: "MaterialHashFromNormalizedYAML x0 yaml0 = Inr hash0"
  unfolding hash_of_yaml app0_doc hash0_def
  by (intro exI[of _ yaml0] exI[of _ "Some app0"] conjI)
     (simp_all add: yaml0_decodes app0_normal map_json_def yaml0_text[symmetric] del: json_marshal.simps)

lemma faithful0: "yaml_faithful x0 (json_marshal (map_json (Some app0))) yaml0"
  by (simp add: yaml_faithful_def app0_doc map_json_def yaml0_text[symmetric] del: json_marshal.simps)

lemma matches0: "manifest_matches u0 parsed0 app0"
  by code_simp

lemma parse_path0: "ParseInventoryExportPath path0 = Some parsed0"
  by code_simp

subsection \<open>A cluster and a file server\<close>

text \<open>A cluster that stores what is applied, and the file of the sample object in one commit.\<close>

type_synonym sim = "json gomap objects"

definition files0 :: "bytes gomap" where
  "files0 = [(raw_url ''acme/inv'' ''c0ffee'' path0, yaml0)]"

definition c0 :: "(json gomap, sim) client" where
  "c0 = \<lparr> c_get = (\<lambda>g ns n s. (case s (gvk_kind g, ns, n) of None \<Rightarrow> Inl ApiNotFound | Some m \<Rightarrow> Inr m, s)),
          c_patch = (\<lambda>m ow f s. (None, s(ob_key u0 m \<mapsto> m))),
          c_delete = (\<lambda>m s. (case s (ob_key u0 m) of
                               None \<Rightarrow> (Some ApiNotFound, s)
                             | Some _ \<Rightarrow> (None, s(ob_key u0 m := None)))),
          c_http = (\<lambda>q s. (case mget files0 (rq_url q) of
                             None \<Rightarrow> Some \<lparr> rs_status = 404, rs_body = [], rs_read_error = False \<rparr>
                           | Some b \<Rightarrow> Some \<lparr> rs_status = 200, rs_body = b, rs_read_error = False \<rparr>, s)) \<rparr>"

definition k0 :: "(json gomap, sim) cluster" where
  "k0 = \<lparr> cl_at = id, cl_merge = (\<lambda>ob old. ob), cl_bury = (\<lambda>ob. None),
          cl_file = (\<lambda>q. case mget files0 (rq_url q) of None \<Rightarrow> [] | Some b \<Rightarrow> b) \<rparr>"

lemma k0_laws: "cluster_laws u0 c0 k0"
proof -
  have "patch_law u0 c0 k0"
    by (auto simp: patch_law_def c0_def k0_def put_object_def)
  moreover have "delete_law u0 c0 k0"
    by (auto simp: delete_law_def c0_def k0_def del_object_def fun_eq_iff split: option.splits)
  moreover have "http_law c0 k0"
    by (auto simp: http_law_def c0_def k0_def has_prefix_iff split: option.splits)
  ultimately show ?thesis by (simp add: cluster_laws_def)
qed

lemma u0_access:
  "u_kind u0 (u_set_annotations u0 a m) = u_kind u0 m" "u_namespace u0 (u_set_annotations u0 a m) = u_namespace u0 m"
  "u_name u0 (u_set_annotations u0 a m) = u_name u0 m" "u_kind u0 (u_set_gvk u0 g m) = gvk_kind g"
  "u_kind u0 (u_set_namespace u0 ns m) = u_kind u0 m" "u_kind u0 (u_set_name u0 n m) = u_kind u0 m"
  "u_namespace u0 (u_set_namespace u0 ns m) = ns" "u_namespace u0 (u_set_name u0 n m) = u_namespace u0 m"
  "u_name u0 (u_set_name u0 n m) = n"
  by (simp_all add: u0_def set_metadata_def meta_of_def str_at_def set_str_def obj_or_empty_def mget_mput)

lemma u0_keys: "key_laws u0"
  by (simp add: key_laws_def u0_access)

end
