(* ===== verification/PropsExport.thy ===== *)
theory PropsExport
  imports Instances
begin

section \<open>Properties of the export side: configuration, digests, reconcilers, batch worker\<close>

text \<open>
  One theorem per property of the packages config, configmapmaterial, inventory and git, each with a
  witness on the instances of \<open>Instances\<close> where it has hypotheses. The proofs rest on the lemmas of
  the component theories.
\<close>

subsection \<open>Digests\<close>



text \<open>Normalising is idempotent on every object a JSON document decodes to.\<close>

lemma normalize_idempotent:
  assumes "float_text_ok (x_float X)" "unmarshal_map X b = Some m"
  shows "map_option normalizeKubernetesObject (map_option normalizeKubernetesObject m)
       = map_option normalizeKubernetesObject m"
  by (rule normalize_opt_idem[OF unmarshal_map_wf[OF assms]])

lemma normalize_idempotent_witness:
  "map_option normalizeKubernetesObject (map_option normalizeKubernetesObject (Some app0))
     = map_option normalizeKubernetesObject (Some app0)"
  by (rule normalize_idempotent[OF float_text_x0 yaml0_decodes])


text \<open>Writing the status, a system field of the metadata, the sync stamp or kubectl's annotation
  does not change the normal form, hence not the digest.\<close>

lemma normalize_ignores_cluster_writes:
  assumes "gomap_ok ob" "map_or_absent (mget ob ''metadata'')"
    and "map_or_absent (mget (obj_or_empty (mget ob ''metadata'')) ''annotations'')"
    and "k \<in> set stripMetadataKeys" "a = SyncContentHashAnnotationKey \<or> a = lastAppliedAnnotation"
  shows "normalizeKubernetesObject (mput ''status'' v ob) = normalizeKubernetesObject ob \<and>
    normalizeKubernetesObject (set_metadata k v ob) = normalizeKubernetesObject ob \<and>
    normalizeKubernetesObject (set_annotation a s ob) = normalizeKubernetesObject ob"
  using assms normalize_ignores_status normalize_ignores_system_field normalize_ignores_stamp by blast

lemma normalize_ignores_cluster_writes_witness:
  "normalizeKubernetesObject (mput ''status'' (JStr ''Synced'') app0) = normalizeKubernetesObject app0 \<and>
   normalizeKubernetesObject (set_metadata ''uid'' (JStr ''Synced'') app0) = normalizeKubernetesObject app0 \<and>
   normalizeKubernetesObject (set_annotation SyncContentHashAnnotationKey ''ab'' app0) = normalizeKubernetesObject app0"
proof -
  have h: "gomap_ok app0" "map_or_absent (mget app0 ''metadata'')"
    "map_or_absent (mget (obj_or_empty (mget app0 ''metadata'')) ''annotations'')"
    "''uid'' \<in> set stripMetadataKeys"
    by code_simp+
  show ?thesis by (rule normalize_ignores_cluster_writes[OF h]) simp
qed

text \<open>C34: Two ConfigMaps have the same canonical JSON exactly when they agree on namespace, name,
  labels, data and annotations other than the sync stamp; then their digests agree, and a digest is
  64 hex digits.\<close>

theorem configmap_canonical_iff:
  assumes "cm_utf8 cm" "cm_utf8 cm'"
  shows "(MaterialCanonicalJSON cm = MaterialCanonicalJSON cm' \<longleftrightarrow> cm_material cm = cm_material cm') \<and>
    (\<exists>h. MaterialSHA256Hex cm = Inr h \<and> length h = 64) \<and>
    (cm_material cm = cm_material cm' \<longrightarrow> MaterialSHA256Hex cm = MaterialSHA256Hex cm')"
proof -
  have "json_marshal (material_json (cm_material cm)) = json_marshal (material_json (cm_material cm'))
      \<longleftrightarrow> cm_material cm = cm_material cm'"
    using js.enc_inject[OF conjI[OF material_json_raw[OF assms(1)] material_json_depth]
        conjI[OF material_json_raw[OF assms(2)] material_json_depth]]
    by (simp add: material_json_inject)
  then show ?thesis
    by (simp add: canonical_is_material MaterialSHA256Hex_def)
qed

definition cm0 :: ConfigMap where
  "cm0 = \<lparr> cm_Namespace = ''ns-a'', cm_Name = ''cm-1'', cm_Labels = Some [(''app'', ''demo'')],
           cm_Annotations = None, cm_Data = Some [(''k'', ''v'')] \<rparr>"

definition cm0_stamped :: ConfigMap where
  "cm0_stamped = cm0 \<lparr> cm_Annotations := Some [(SyncContentHashAnnotationKey, ''deadbeef'')] \<rparr>"

theorem configmap_canonical_iff_witness:
  "MaterialSHA256Hex cm0 = MaterialSHA256Hex cm0_stamped"
proof -
  have u: "utf8_ok ''deadbeef''" "utf8_ok SyncContentHashAnnotationKey" "cm_utf8 cm0"
    by (simp_all add: utf8_ok_ascii SyncContentHashAnnotationKey_def cm_utf8_def cm0_def utf8_map_def map_or_empty_def)
  then have "cm_utf8 cm0_stamped"
    by (simp add: cm_utf8_def cm0_stamped_def utf8_map_def map_or_empty_def)
  moreover have "cm_material cm0 = cm_material cm0_stamped" by code_simp
  ultimately show ?thesis using configmap_canonical_iff[OF u(3)] by blast
qed

subsection \<open>Reconcilers\<close>

text \<open>C13: A reconcile of a changed object (not stamped with its digest, digest not cached) caches the
  digest under the object's key and queues the YAML under the object's path, and touches nothing
  else.\<close>

theorem handle_exports_change:
  assumes "NormalizedYAMLAndMaterialHash X U ob = Inr (yb, h)" "\<not> stamped U ob h" "deps_ok d"
    and "Cache_Get (rd_cache d) (ExportObjectCacheKey X kind ns n) \<noteq> Some h"
    and "rd_tmpl d = defaultExportPathTemplate"
  shows "\<exists>d'. handle X U d \<lparr> rq_namespace = ns, rq_name = n \<rparr> ob kind = (None, d') \<and>
    (\<forall>key. Cache_Get (rd_cache d') key =
       (if key = ExportObjectCacheKey X kind ns n then Some h else Cache_Get (rd_cache d) key)) \<and>
    (\<forall>p. pending_at (rd_queue d') p =
       (if p = ''inventory/'' @ ArgoPluralKind X kind @ ''/'' @ ns @ ''/'' @ n @ ''.yaml''
        then Some \<lparr> pe_kind = opWrite, pe_content = yb \<rparr> else pending_at (rd_queue d) p))"
proof -
  have ok: "cache_ok (rd_cache d)" "worker_ok (rd_queue d)" using assms(3) by (simp_all add: deps_ok_def)
  let ?p = "''inventory/'' @ ArgoPluralKind X kind @ ''/'' @ ns @ ''/'' @ n @ ''.yaml''"
  have eq: "handle X U d \<lparr> rq_namespace = ns, rq_name = n \<rparr> ob kind =
     (None, d \<lparr> rd_cache := Cache_Set (ExportObjectCacheKey X kind ns n) h (rd_cache d),
                rd_queue := put_pending ?p \<lparr> pe_kind = opWrite, pe_content = yb \<rparr> (rd_queue d) \<rparr>)"
    using handle_changed[OF assms(1,2), of d kind "\<lparr> rq_namespace = ns, rq_name = n \<rparr>"] assms(4,5)
    by (simp add: render_default Let_def Enqueue_def)
  show ?thesis
    unfolding eq by (simp add: hc.lookup_store[OF ok(1)] bw.lookup_store[OF ok(2)])
qed

definition d0 :: ReconcileDeps where
  "d0 = \<lparr> rd_cache = NewHashCache,
          rd_queue = NewBatchWorker \<lparr> GitRepoURL = '''', GitBranch = ''main'', BatchInterval = 0,
            ExportPathTemplate = defaultExportPathTemplate, GitUsername = '''', GitAccessToken = '''' \<rparr>,
          rd_tmpl = defaultExportPathTemplate \<rparr>"

lemma d0_ok [simp]: "deps_ok d0" "rd_tmpl d0 = defaultExportPathTemplate" "Cache_Get (rd_cache d0) k = None"
  by (simp_all add: d0_def deps_ok_def)

lemma app0_not_stamped: "\<not> stamped u0 app0 h"
proof -
  have "u_annotations u0 app0 = None" by code_simp
  then show ?thesis by (simp add: stamped_def)
qed

theorem handle_exports_change_witness:
  "\<exists>d'. handle x0 u0 d0 \<lparr> rq_namespace = ''argocd'', rq_name = ''web'' \<rparr> app0 ''Application'' = (None, d') \<and>
     pending_at (rd_queue d') path0 = Some \<lparr> pe_kind = opWrite, pe_content = yaml0 \<rparr>"
  using handle_exports_change[OF app0_hash app0_not_stamped d0_ok(1), of "''Application''" "''argocd''" "''web''"]
  by (auto simp: path0_def)

text \<open>C28: A reconcile of an object whose stamp or whose cached digest is the current digest does
  nothing: this breaks the loop, and it holds for the stamp whatever the cache and Git hold.\<close>

theorem handle_known_digest_is_noop:
  assumes "NormalizedYAMLAndMaterialHash X U ob = Inr (yb, h)"
    and "stamped U ob h \<or>
         Cache_Get (rd_cache d) (ExportObjectCacheKey X kind (rq_namespace req) (rq_name req)) = Some h"
  shows "handle X U d req ob kind = (None, d)"
proof (rule disjE[OF assms(2)])
  assume "stamped U ob h"
  then show ?thesis by (rule handle_stamped[OF assms(1)])
next
  assume "Cache_Get (rd_cache d) (ExportObjectCacheKey X kind (rq_namespace req) (rq_name req)) = Some h"
  then show ?thesis by (rule handle_cached[OF assms(1)])
qed

theorem handle_known_digest_is_noop_witness:
  "let d = d0 \<lparr> rd_cache := Cache_Set ''applications/argocd/web'' hash0 (rd_cache d0) \<rparr>
   in handle x0 u0 d \<lparr> rq_namespace = ''argocd'', rq_name = ''web'' \<rparr> app0 ''Application'' = (None, d)"
  unfolding Let_def
  by (rule handle_known_digest_is_noop[OF app0_hash])
     (simp add: ExportObjectCacheKey_def hc.lookup_store d0_def)

text \<open>C35: When the path template does not render, the digest is in the cache although nothing was
  queued: the retry after the error reports success and the object is not exported.\<close>

theorem render_failure_is_forgotten:
  assumes "NormalizedYAMLAndMaterialHash X U ob = Inr (yb, h)" "\<not> stamped U ob h" "deps_ok d"
    and "Cache_Get (rd_cache d) (ExportObjectCacheKey X kind (rq_namespace req) (rq_name req)) \<noteq> Some h"
    and "RenderExportPath X (rd_tmpl d) kind (rq_namespace req) (rq_name req) = Inl e"
  shows "\<exists>d1. handle X U d req ob kind = (Some (RenderPath e), d1) \<and>
     handle X U d1 req ob kind = (None, d1) \<and> rd_queue d1 = rd_queue d"
proof -
  let ?key = "ExportObjectCacheKey X kind (rq_namespace req) (rq_name req)"
  define d1 where "d1 = d \<lparr> rd_cache := Cache_Set ?key h (rd_cache d) \<rparr>"
  have "handle X U d req ob kind = (Some (RenderPath e), d1)"
    using handle_changed[OF assms(1,2,4)] assms(5) by (simp add: d1_def Let_def)
  moreover have "Cache_Get (rd_cache d1) ?key = Some h"
    using assms(3) by (simp add: d1_def deps_ok_def hc.lookup_store)
  then have "handle X U d1 req ob kind = (None, d1)" by (rule handle_cached[OF assms(1)])
  ultimately show ?thesis by (auto simp: d1_def)
qed

theorem render_failure_is_forgotten_witness:
  "\<exists>d1. handle x0 u0 (d0 \<lparr> rd_tmpl := ''{{'' \<rparr>) \<lparr> rq_namespace = ''argocd'', rq_name = ''web'' \<rparr> app0 ''Application''
      = (Some (RenderPath (TmplParse ''{{'')), d1) \<and>
     handle x0 u0 d1 \<lparr> rq_namespace = ''argocd'', rq_name = ''web'' \<rparr> app0 ''Application'' = (None, d1) \<and>
     rd_queue d1 = rd_queue (d0 \<lparr> rd_tmpl := ''{{'' \<rparr>)"
proof -
  have t: "tmpl_segs ''{{'' = None" by code_simp
  show ?thesis
    by (rule render_failure_is_forgotten[OF app0_hash app0_not_stamped])
       (simp_all add: d0_def deps_ok_def RenderExportPath_def t x0_def)
qed

text \<open>C27: A reconcile of a deleted Application forgets its digest and queues the move of its file to
  the archive, and touches nothing else.\<close>

theorem deleted_application_is_archived:
  assumes "c_get C ApplicationGVK ns n (w_state w) = (Inl ApiNotFound, s)" "deps_ok d"
    and "rd_tmpl d = defaultExportPathTemplate"
  shows "\<exists>d' w'. Application_Reconcile X U C d \<lparr> rq_namespace = ns, rq_name = n \<rparr> w = (None, d', w') \<and>
    (\<forall>key. Cache_Get (rd_cache d') key =
       (if key = ExportObjectCacheKey X ''Application'' ns n then None else Cache_Get (rd_cache d) key)) \<and>
    (\<forall>p. pending_at (rd_queue d') p =
       (if p = ''inventory/applications/'' @ ns @ ''/'' @ n @ ''.yaml''
        then Some \<lparr> pe_kind = opArchive, pe_content = [] \<rparr> else pending_at (rd_queue d) p))"
proof -
  have ok: "cache_ok (rd_cache d)" "worker_ok (rd_queue d)" using assms(2) by (simp_all add: deps_ok_def)
  have r: "RenderExportPath X (rd_tmpl d) ''Application'' ns n
      = Inr (''inventory/applications/'' @ ns @ ''/'' @ n @ ''.yaml'')"
    by (simp add: assms(3) render_default)
  show ?thesis
    unfolding Application_Reconcile_def
    using reconcile_deleted[of C ApplicationGVK "\<lparr> rq_namespace = ns, rq_name = n \<rparr>" w s X d, simplified, OF assms(1) r]
    by (simp add: EnqueueArchive_def hc.lookup_erase[OF ok(1)] bw.lookup_store[OF ok(2)])
qed

definition w0 :: "(json gomap, sim) world" where
  "w0 = \<lparr> w_state = Map.empty, w_calls = [] \<rparr>"

theorem deleted_application_is_archived_witness:
  "\<exists>d' w'. Application_Reconcile x0 u0 c0 d0 \<lparr> rq_namespace = ''argocd'', rq_name = ''web'' \<rparr> w0 = (None, d', w') \<and>
     pending_at (rd_queue d') path0 = Some \<lparr> pe_kind = opArchive, pe_content = [] \<rparr>"
  using deleted_application_is_archived[of c0 "''argocd''" "''web''" w0 "w_state w0" d0 x0 u0]
  by (auto simp: path0_def c0_def w0_def)

end
