(* ===== verification/PropsGit.thy ===== *)
theory PropsGit
  imports GitWorkerLaws
begin

section \<open>Properties of the configuration and the Git worker\<close>

text \<open>
  One theorem per property of the packages config and git, with witnesses on a small clone
  directory. The proofs rest on \<open>GitArchive\<close>, \<open>GitWorkerLaws\<close> and \<open>Config\<close>.
\<close>

subsection \<open>A clone to evaluate on\<close>

definition dir0 :: string where
  "dir0 = ''/tmp/c''"

definition fs0 :: fs where
  "fs0 = make_dirs [''tmp'', ''c''] (\<lambda>q. None)"

definition elems0 :: "string list" where
  "elems0 = [''applications'', ''argocd'', ''web.yaml'']"

lemma dir0_path: "rooted_path dir0" "fs_path dir0 = [''tmp'', ''c'']"
  by (simp add: dir0_def rooted_path_def has_prefix_Cons) code_simp

lemma elems0_ok: "inv_path elems0"
  by code_simp

lemma inv_tree_empty: "inv_tree D (make_dirs D (\<lambda>q. None))"
proof -
  have "fs_tree (make_dirs D (\<lambda>q. None))"
    by (auto simp: fs_tree_def make_dirs_def dest: prefix_order.less_imp_le intro: prefix_order.trans)
  moreover have "\<not> prefix t D" if "inv_targets D t" for t
    using that by (auto simp: inv_targets_def live_elems_def archive_elems_def dest: prefix_length_le)
  ultimately show ?thesis
    by (auto simp: inv_tree_def no_file_above_def make_dirs_def)
qed

lemma fs0_ok: "inv_tree (fs_path dir0) fs0"
  unfolding dir0_path(2) fs0_def by (rule inv_tree_empty)

definition fs1 :: fs where
  "fs1 = put_file (fs_path dir0 @ live_elems elems0) ''old'' fs0"

lemma fs1_ok: "inv_tree (fs_path dir0) fs1"
  unfolding fs1_def by (rule inv_tree_put[OF fs0_ok live_target[OF elems0_ok]])

definition write0 :: pendingExport where
  "write0 = \<lparr> pe_kind = opWrite, pe_content = ''new'' \<rparr>"

definition archive0 :: pendingExport where
  "archive0 = \<lparr> pe_kind = opArchive, pe_content = [] \<rparr>"

definition cfg0 :: InventoryControllerConfig where
  "cfg0 = \<lparr> GitRepoURL = ''https://git/inv'', GitBranch = ''main'', BatchInterval = 10000000000,
            ExportPathTemplate = defaultExportPathTemplate, GitUsername = '''', GitAccessToken = '''' \<rparr>"

text \<open>A Git that cannot make a temporary directory.\<close>

definition g_broken :: "unit git" where
  "g_broken = \<lparr> g_mkdirtemp = (\<lambda>s. (Inl ''no space'', s)), g_clone = (\<lambda>d opts s. (None, s)),
     g_open = (\<lambda>d s. None), g_worktree = (\<lambda>d s. None), g_add = (\<lambda>d s. (None, ())),
     g_status = (\<lambda>d s. Inr True), g_commit = (\<lambda>d m s. (None, ())), g_push = (\<lambda>d a s. (None, ())) \<rparr>"

text \<open>A Git whose calls succeed and whose repository is empty.\<close>

definition g_good :: "unit git" where
  "g_good = \<lparr> g_mkdirtemp = (\<lambda>(g, f). (Inr dir0, g, f)), g_clone = (\<lambda>d opts (g, f). (None, g, fs0)),
     g_open = (\<lambda>d s. None), g_worktree = (\<lambda>d s. None), g_add = (\<lambda>d s. (None, ())),
     g_status = (\<lambda>d s. Inr False), g_commit = (\<lambda>d m s. (None, ())), g_push = (\<lambda>d a s. (None, ())) \<rparr>"

definition gst0 :: "unit gst" where
  "gst0 = \<lparr> gs_state = (), gs_fs = fs0, gs_log = [] \<rparr>"

subsection \<open>The exported tree\<close>

text \<open>C9: On a clone laid out as an inventory, exporting a batch succeeds; afterwards every written path
  holds its content, every archived path is gone and its file lies in the archive, and the paths of
  no operation are as before, live and archived.\<close>

theorem batch_tree_is_exact:
  assumes "rooted_path d" "inv_tree (fs_path d) f" "\<forall>e \<in> set es. inv_op e" "distinct (map fst es)"
  shows "\<exists>g. apply_ops d (map render_op es) f = (None, g) \<and>
    (\<forall>(xs, op) \<in> set es.
       g (fs_path d @ live_elems xs) = (if pe_kind op = opWrite then Some (File (pe_content op)) else None) \<and>
       g (fs_path d @ archive_elems xs) =
         (if pe_kind op = opWrite \<or> f (fs_path d @ live_elems xs) = None then f (fs_path d @ archive_elems xs)
          else f (fs_path d @ live_elems xs))) \<and>
    (\<forall>xs. inv_path xs \<and> xs \<notin> fst ` set es \<longrightarrow>
       g (fs_path d @ live_elems xs) = f (fs_path d @ live_elems xs) \<and>
       g (fs_path d @ archive_elems xs) = f (fs_path d @ archive_elems xs))"
proof (intro exI conjI)
  let ?D = "fs_path d"
  let ?g = "fold (op_update ?D) es f"
  show "apply_ops d (map render_op es) f = (None, ?g)" by (rule apply_ops_update[OF assms(1-3)])
  show "\<forall>xs. inv_path xs \<and> xs \<notin> fst ` set es \<longrightarrow> ?g (?D @ live_elems xs) = f (?D @ live_elems xs) \<and>
      ?g (?D @ archive_elems xs) = f (?D @ archive_elems xs)"
    using fold_update_other[OF assms(3)] by blast
  show "\<forall>(xs, op) \<in> set es.
       ?g (?D @ live_elems xs) = (if pe_kind op = opWrite then Some (File (pe_content op)) else None) \<and>
       ?g (?D @ archive_elems xs) =
         (if pe_kind op = opWrite \<or> f (?D @ live_elems xs) = None then f (?D @ archive_elems xs)
          else f (?D @ live_elems xs))"
  proof clarify
    fix xs op
    assume m: "(xs, op) \<in> set es"
    have xs: "inv_path xs" using m assms(3) by (auto simp: inv_op_def)
    show "?g (?D @ live_elems xs) = (if pe_kind op = opWrite then Some (File (pe_content op)) else None) \<and>
       ?g (?D @ archive_elems xs) =
         (if pe_kind op = opWrite \<or> f (?D @ live_elems xs) = None then f (?D @ archive_elems xs)
          else f (?D @ live_elems xs))"
      unfolding fold_update_at[OF assms(3,4) m] by (rule op_update_at[OF assms(2) xs])
  qed
qed

theorem batch_tree_is_exact_witness:
  "\<exists>g. apply_ops dir0 (map render_op [(elems0, archive0)]) fs1 = (None, g) \<and>
     g (fs_path dir0 @ live_elems elems0) = None \<and>
     g (fs_path dir0 @ archive_elems elems0) = Some (File ''old'')"
proof -
  have h: "\<forall>e \<in> set [(elems0, archive0)]. inv_op e" "distinct (map fst [(elems0, archive0)])"
    by (simp_all add: inv_op_def elems0_ok known_kind_def archive0_def)
  show ?thesis
    using batch_tree_is_exact[OF dir0_path(1) fs1_ok h]
    by (auto simp: archive0_def opWrite_def opArchive_def fs1_def put_file_def)
qed

text \<open>The order in which Go ranges over a batch does not change the exported tree.\<close>

lemma batch_order_is_irrelevant:
  assumes "rooted_path d" "inv_tree (fs_path d) f" "\<forall>e \<in> set es. inv_op e" "distinct (map fst es)"
    and "mset es = mset es'"
  shows "apply_ops d (map render_op es) f = apply_ops d (map render_op es') f"
proof -
  have "\<forall>e \<in> set es'. inv_op e" using assms(3,5) by (metis set_mset_mset)
  then show ?thesis
    using apply_ops_update[OF assms(1,2)] assms(3) fold_update_perm[OF assms(5,3,4)] by simp
qed

definition elems1 :: "string list" where
  "elems1 = [''applicationsets'', ''argocd'', ''web.yaml'']"

lemma batch_order_is_irrelevant_witness:
  "apply_ops dir0 (map render_op [(elems0, archive0), (elems1, write0)]) fs1
     = apply_ops dir0 (map render_op [(elems1, write0), (elems0, archive0)]) fs1"
proof -
  have e: "inv_path elems1" "elems0 \<noteq> elems1" by code_simp+
  show ?thesis
    by (rule batch_order_is_irrelevant[OF dir0_path(1) fs1_ok])
       (simp_all add: inv_op_def elems0_ok e known_kind_def archive0_def write0_def)
qed

text \<open>Archiving one file of the layout moves it with its content and touches no other file of the
  layout; a file that was never exported is no error and no change.\<close>

lemma archive_moves_the_file:
  assumes "rooted_path d" "inv_tree (fs_path d) f" "inv_path xs"
  shows "\<exists>g. archiveInventoryFileInClone d (join_slash (live_elems xs)) f = Inr g \<and>
    (case f (fs_path d @ live_elems xs) of
       None \<Rightarrow> g = f
     | Some n \<Rightarrow> g (fs_path d @ archive_elems xs) = Some n \<and> g (fs_path d @ live_elems xs) = None) \<and>
    (\<forall>ys. inv_path ys \<and> ys \<noteq> xs \<longrightarrow>
       g (fs_path d @ live_elems ys) = f (fs_path d @ live_elems ys) \<and>
       g (fs_path d @ archive_elems ys) = f (fs_path d @ archive_elems ys))"
proof -
  let ?e = "(xs, archive0)" and ?D = "fs_path d"
  have e: "inv_op ?e" by (simp add: inv_op_def assms(3) known_kind_def archive0_def)
  have k: "pe_kind archive0 \<noteq> opWrite" "pe_kind archive0 = opArchive"
    by (simp_all add: archive0_def opWrite_def opArchive_def)
  have r: "archiveInventoryFileInClone d (join_slash (live_elems xs)) f = Inr (op_update ?D ?e f)"
    using apply_op_update[OF assms(1,2) e] k by (simp add: apply_op_def render_op_def Let_def)
  have other: "op_update ?D ?e f (?D @ live_elems ys) = f (?D @ live_elems ys) \<and>
      op_update ?D ?e f (?D @ archive_elems ys) = f (?D @ archive_elems ys)"
    if "inv_path ys" "ys \<noteq> xs" for ys
    using op_update_other[OF e that(1)] that(2) by auto
  have same: "op_update ?D ?e f = f" if "f (?D @ live_elems xs) = None"
    using that k by (simp add: op_update_def move_file_def)
  show ?thesis
    using r other same op_update_at[OF assms(2,3), of archive0] k by (auto split: option.splits)
qed

subsection \<open>What is pushed\<close>




text \<open>The subject of every commit message ends in the marker that keeps CI and the loop quiet.\<close>

lemma commit_subject_skips_ci:
  "\<exists>s. fst (commitMessageForBatch batch paths) = s @ ''[skip ci]''"
  using subject_skip_ci[of batch paths] by (simp add: has_suffix_iff)

text \<open>A list of paths in a commit body has at most eleven lines: all paths when there are at most
  ten, else the first ten and the number of those left out.\<close>

lemma commit_body_is_bounded:
  "\<exists>ls. commitBody ps = join_lines ls \<and> length ls \<le> 11 \<and>
     ls = (if length ps \<le> 10 then ps
           else take 10 ps @ [''... and '' @ show_nat (length ps - 10) @ '' more''])"
  using commitBody_short[of ps] commitBody_long[of ps]
  by (cases "length ps \<le> 10") (simp_all add: not_le)

subsection \<open>The queue\<close>

text \<open>The queue holds for every path the last operation on it, and for other paths nothing.\<close>

lemma queue_keeps_the_last_operation:
  "pending_at (run_ops ops (NewBatchWorker cfg)) p = map_of (rev (map entry_of ops)) p"
  using run_ops_last_wins[OF worker_ok_New, of ops cfg p]
  by (simp add: pending_at_def NewBatchWorker_def split: option.splits)

text \<open>C16: When the export of a flush fails, every operation of its batch is pending again, together
  with what was enqueued on other paths while it ran: no operation is lost.\<close>

theorem failed_flush_loses_nothing:
  assumes "trim_space (GitRepoURL (bw_cfg w)) \<noteq> ''''" "range_order ord" "worker_ok w"
    and "exportBatch G ord (bw_cfg w) (bw_pending w) s = (Some e, s')" "bw_pending w \<noteq> mempty"
  shows "pending_at (fst (flush G ord mid w s)) p =
    (case pending_at w p of
       Some op \<Rightarrow> Some op
     | None \<Rightarrow> map_of (rev (map entry_of mid)) p)"
proof -
  have "pending_at (run_ops mid (w \<lparr> bw_pending := mempty \<rparr>)) p = map_of (rev (map entry_of mid)) p"
    using run_ops_last_wins[of "w \<lparr> bw_pending := mempty \<rparr>" mid p]
    by (simp add: worker_ok_def pending_at_def split: option.splits)
  then show ?thesis using flush_failure[OF assms(5,1,4,2,3), of mid p] by (simp split: option.splits)
qed

definition worker0 :: BatchWorker where
  "worker0 = \<lparr> bw_cfg = cfg0, bw_pending = [(''a'', write0)] \<rparr>"

lemma worker0_fails:
  "trim_space (GitRepoURL (bw_cfg worker0)) \<noteq> ''''" "worker_ok worker0" "bw_pending worker0 \<noteq> mempty"
  "exportBatch g_broken id (bw_cfg worker0) (bw_pending worker0) gst0 = (Some (TempDirFailed ''no space''), gst0)"
  "range_order id"
proof -
  show "trim_space (GitRepoURL (bw_cfg worker0)) \<noteq> ''''" "bw_pending worker0 \<noteq> mempty"
    by (simp_all add: worker0_def cfg0_def trim_visible visible_ascii_def)
qed (simp_all add: worker_ok_def worker0_def gomap_ok_def exportBatch_def g_broken_def gst0_def range_order_def)

theorem failed_flush_loses_nothing_witness:
  "pending_at (fst (flush g_broken id [OpArchive ''b''] worker0 gst0)) ''a'' = Some write0 \<and>
   pending_at (fst (flush g_broken id [OpArchive ''b''] worker0 gst0)) ''b'' = Some archive0"
  unfolding failed_flush_loses_nothing[OF worker0_fails(1,5,2,4,3)]
  by (simp add: worker0_def pending_at_def mget_def archive0_def)

text \<open>A newer operation enqueued on a path while a failing export of that path runs is
  overwritten by the older one when the batch is put back.\<close>

lemma failed_flush_overwrites_newer:
  assumes "trim_space (GitRepoURL (bw_cfg w)) \<noteq> ''''" "range_order ord" "worker_ok w"
    and "exportBatch G ord (bw_cfg w) (bw_pending w) s = (Some e, s')" "pending_at w p = Some old"
  shows "pending_at (fst (flush G ord [OpEnqueue \<lparr> job_Path = p, job_Content = new \<rparr>] w s)) p = Some old"
proof -
  have "bw_pending w \<noteq> mempty" using assms(5) by (auto simp: pending_at_def)
  then show ?thesis using flush_failure[OF _ assms(1,4,2,3), of "[OpEnqueue \<lparr> job_Path = p, job_Content = new \<rparr>]" p] assms(5)
    by simp
qed

text \<open>Without a repository URL the worker drops what is enqueued and makes no call to Git, however
  long it runs.\<close>

lemma no_url_no_git:
  assumes "trim_space (GitRepoURL (bw_cfg w)) = ''''"
  shows "\<exists>w'. Start G ord events w s \<in> {StartPanics, StartReturned w' s, StartRunning w' s}"
  using start_loop_no_url[OF assms, of G ord events s] by (auto simp: Start_def)

text \<open>C39: One archive operation on a path that is not under \<open>inventory/\<close> (a custom template gives such
  paths) makes every export of its batch fail, so with C15 nothing is ever pushed again.\<close>

theorem stray_archive_blocks_exports:
  assumes "range_order ord" "mget batch p = Some op" "pe_kind op = opArchive" "\<not> has_prefix p inventoryPrefix"
    and "gomap_ok batch"
  shows "fst (exportBatch G ord cfg batch s) \<noteq> None"
proof -
  have "(p, op) \<in> set (ord batch)"
    using assms(1,2,5) by (metis mget_in_set range_order_def set_mset_mset)
  then have fails: "apply_ops dir (ord batch) f \<noteq> (None, g)" for dir f g
    using apply_ops_stray[OF assms(3,4), of "ord batch" dir f] by auto
  have "fst (export_in_dir G cfg (ord batch) batch dir s1) \<noteq> None" for dir s1
    by (auto simp: export_in_dir_def Let_def fails split: prod.splits option.splits)
  then show ?thesis
    by (auto simp: exportBatch_def Let_def split: prod.splits sum.splits) (metis fst_conv)
qed

theorem stray_archive_blocks_exports_witness:
  "fst (exportBatch g_broken id cfg0 [(''apps/web.yaml'', archive0)] gst0) \<noteq> None"
proof -
  have "mget [(''apps/web.yaml'', archive0)] ''apps/web.yaml'' = Some archive0" "pe_kind archive0 = opArchive"
    "\<not> has_prefix ''apps/web.yaml'' inventoryPrefix" "gomap_ok [(''apps/web.yaml'', archive0)]"
    by code_simp+
  then show ?thesis by (rule stray_archive_blocks_exports[OF worker0_fails(5)])
qed

subsection \<open>Configuration\<close>

text \<open>The inventory settings load unless the interval is set and is not a number or below one;
  then the branch and the path template are never empty.\<close>

lemma inventory_config_loads:
  "(\<exists>e. LoadInventoryControllerConfig env = Inl e) =
     (env ''BATCH_INTERVAL_SECONDS'' \<noteq> '''' \<and>
      (case go_atoi (env ''BATCH_INTERVAL_SECONDS'') of None \<Rightarrow> True | Some sec \<Rightarrow> sec < 1)) \<and>
   (case LoadInventoryControllerConfig env of
      Inl e \<Rightarrow> True
    | Inr cfg \<Rightarrow> GitBranch cfg \<noteq> '''' \<and> ExportPathTemplate cfg \<noteq> '''' \<and> branch_of cfg = GitBranch cfg)"
  by (auto simp: LoadInventoryControllerConfig_def load_interval_def bind_res_def branch_of_def
      defaultGitBranch_def defaultExportPathTemplate_def Let_def split: option.splits sum.splits)

text \<open>C33: Every interval \<open>strconv.Atoi\<close> accepts from one second on is loaded as its product with a
  billion nanoseconds, wrapped to 64 bits with a sign; the worker's ticker panics exactly when that is
  not positive, so an interval up to 9223372036 seconds is exact and starts the worker.\<close>

theorem interval_is_exact_or_wraps:
  assumes "env ''BATCH_INTERVAL_SECONDS'' = show_nat n" "1 \<le> n" "n < 2 ^ 63"
  shows "\<exists>cfg. LoadInventoryControllerConfig env = Inr cfg \<and>
    sint (BatchInterval cfg) = (int n * 10 ^ 9 + 2 ^ 63) mod 2 ^ 64 - 2 ^ 63 \<and>
    (n \<le> 9223372036 \<longrightarrow> sint (BatchInterval cfg) = int n * 10 ^ 9) \<and>
    Start G ord events (NewBatchWorker cfg) s =
      (if sint (BatchInterval cfg) \<le> 0 then StartPanics
       else start_loop G ord events (NewBatchWorker cfg) s)"
proof -
  obtain cfg where c: "LoadInventoryControllerConfig env = Inr cfg"
    "BatchInterval cfg = word_of_int (int n) * time_second"
    using load_interval_positive[of env n] assms by (auto simp: LoadInventoryControllerConfig_def)
  have "n \<le> 9223372036 \<longrightarrow> sint (BatchInterval cfg) = int n * 10 ^ 9"
    using load_interval_in_range(2)[of env n] assms(1,2) c(2) by simp
  moreover have "sint (BatchInterval cfg) = (int n * 10 ^ 9 + 2 ^ 63) mod 2 ^ 64 - 2 ^ 63"
    unfolding c(2) by (rule sint_seconds)
  moreover have "bw_cfg (NewBatchWorker cfg) = cfg" by (simp add: NewBatchWorker_def)
  ultimately show ?thesis
    using c(1) unfolding Start_def by auto
qed

theorem interval_is_exact_or_wraps_witness:
  "\<exists>cfg. LoadInventoryControllerConfig (\<lambda>k. if k = ''BATCH_INTERVAL_SECONDS'' then show_nat 9223372037 else '''') = Inr cfg \<and>
     sint (BatchInterval cfg) = - 9223372036709551616 \<and>
     Start g_broken id [] (NewBatchWorker cfg) gst0 = StartPanics"
  using interval_is_exact_or_wraps[of "\<lambda>k. if k = ''BATCH_INTERVAL_SECONDS'' then show_nat 9223372037 else ''''"
    9223372037 g_broken id "[]" gst0]
  by auto

end
