(* ===== verification/GoQuote.thy ===== *)
theory GoQuote
  imports GoUtf8
begin

section \<open>Quoted strings (strconv.Quote, the %q of fmt)\<close>

text \<open>
  Printable text is kept, the rest becomes an escape, byte by byte where it is not UTF-8. The table of
  printable runes of the \<open>unicode\<close> package is the argument \<open>pr\<close>. The lemmas show that quoted
  text is valid UTF-8 without control characters, so it stays on its line whatever it quotes.
\<close>

text \<open>The code point of a valid encoding of two to four bytes.\<close>

fun rune_value :: "string \<Rightarrow> nat" where
  "rune_value [a, b] = (bval a - 0xC0) * 64 + (bval b - 0x80)"
| "rune_value [a, b, c] = ((bval a - 0xE0) * 64 + (bval b - 0x80)) * 64 + (bval c - 0x80)"
| "rune_value [a, b, c, d] =
     (((bval a - 0xF0) * 64 + (bval b - 0x80)) * 64 + (bval c - 0x80)) * 64 + (bval d - 0x80)"
| "rune_value _ = 0"

fun hex_digits :: "nat \<Rightarrow> nat \<Rightarrow> string" where
  "hex_digits 0 n = []"
| "hex_digits (Suc k) n = hex_digits k (n div 16) @ [hex_digit (n mod 16)]"

definition quote_byte :: "char \<Rightarrow> string" where
  "quote_byte c = CHR 0x5C # CHR ''x'' # hex_digits 2 (bval c)"

definition quote_ascii :: "char \<Rightarrow> string" where
  "quote_ascii c =
     (if c = CHR 0x22 \<or> c = CHR 0x5C then [CHR 0x5C, c]
      else if 32 \<le> bval c \<and> bval c < 127 then [c]
      else if c = CHR 0x07 then CHR 0x5C # ''a''
      else if c = CHR 0x08 then CHR 0x5C # ''b''
      else if c = CHR 0x0C then CHR 0x5C # ''f''
      else if c = CHR 0x0A then CHR 0x5C # ''n''
      else if c = CHR 0x0D then CHR 0x5C # ''r''
      else if c = CHR 0x09 then CHR 0x5C # ''t''
      else if c = CHR 0x0B then CHR 0x5C # ''v''
      else quote_byte c)"

definition quote_rune :: "(nat \<Rightarrow> bool) \<Rightarrow> string \<Rightarrow> string" where
  "quote_rune pr r =
     (let u = rune_value r in
      if pr u then r
      else if u < 0x10000 then CHR 0x5C # CHR ''u'' # hex_digits 4 u
      else CHR 0x5C # CHR ''U'' # hex_digits 8 u)"

function quote_chars :: "(nat \<Rightarrow> bool) \<Rightarrow> string \<Rightarrow> string" where
  "quote_chars pr [] = []"
| "quote_chars pr (c # cs) =
     (if bval c < 128 then quote_ascii c @ quote_chars pr cs
      else (case utf8_len (c # cs) of
              None \<Rightarrow> quote_byte c @ quote_chars pr cs
            | Some n \<Rightarrow> quote_rune pr (take n (c # cs)) @ quote_chars pr (drop (n - 1) cs)))"
  by pat_completeness auto
termination
  by (relation "measure (\<lambda>(pr, s). length s)") auto

declare quote_chars.simps(2) [simp del]

definition go_quote :: "(nat \<Rightarrow> bool) \<Rightarrow> string \<Rightarrow> string" where
  "go_quote pr s = CHR 0x22 # quote_chars pr s @ [CHR 0x22]"

text \<open>Quoted text is always valid UTF-8 without control characters, whatever bytes it quotes.\<close>

definition shown :: "char \<Rightarrow> bool" where
  "shown c = (32 \<le> bval c \<and> bval c \<noteq> 127)"

lemma hex_digit_char: "d < 16 \<Longrightarrow> shown (hex_digit d) \<and> bval (hex_digit d) < 128"
  by (auto simp: hex_digit_def shown_def)

lemma hex_digits_chars: "\<forall>c \<in> set (hex_digits k n). shown c \<and> bval c < 128"
  by (induction k arbitrary: n) (auto simp: hex_digit_char)

lemma quote_byte_chars: "\<forall>d \<in> set (quote_byte c). shown d \<and> bval d < 128"
  using hex_digits_chars by (auto simp: quote_byte_def shown_def simp del: hex_digits.simps)

lemma quote_ascii_chars: "bval c < 128 \<Longrightarrow> \<forall>d \<in> set (quote_ascii c). shown d \<and> bval d < 128"
  using quote_byte_chars[of c] by (auto simp: quote_ascii_def shown_def)

lemma quote_rune_cases: "quote_rune pr r = r \<or> (\<forall>d \<in> set (quote_rune pr r). shown d \<and> bval d < 128)"
  using hex_digits_chars[of 4 "rune_value r"] hex_digits_chars[of 8 "rune_value r"]
  by (simp add: quote_rune_def Let_def shown_def del: hex_digits.simps)

lemma utf8_rune_high:
  assumes "utf8_len (c # cs) = Some n" "128 \<le> bval c"
  shows "\<forall>d \<in> set (take n (c # cs)). 128 \<le> bval d"
  using assms by (auto simp: utf8_len.simps(2) Let_def cont_def split: if_splits list.splits)

lemma quote_chars_ok: "utf8_ok (quote_chars pr s) \<and> list_all shown (quote_chars pr s)"
proof (induction pr s rule: quote_chars.induct)
  case (2 pr c cs)
  have ascii: "utf8_ok (t @ u) \<and> list_all shown (t @ u)"
    if "\<forall>d \<in> set t. shown d \<and> bval d < 128" "utf8_ok u \<and> list_all shown u" for t u
    using that utf8_ok_append[of t u] utf8_ok_ascii[of t] by (auto simp: list_all_iff)
  show ?case
  proof (cases "bval c < 128")
    case True
    then show ?thesis using 2 ascii[OF quote_ascii_chars] by (simp add: quote_chars.simps(2))
  next
    case high: False
    show ?thesis
    proof (cases "utf8_len (c # cs)")
      case None
      then show ?thesis using 2 high ascii[OF quote_byte_chars] by (simp add: quote_chars.simps(2))
    next
      case (Some n)
      let ?r = "take n (c # cs)" and ?q = "quote_chars pr (drop (n - 1) cs)"
      have q: "utf8_ok ?q \<and> list_all shown ?q" using 2 high Some by simp
      have "utf8_len ?r = Some (length ?r)"
        using utf8_len_take[OF Some, of "[]"] utf8_len_bounds[OF Some] by simp
      moreover have "\<forall>d \<in> set ?r. shown d"
        using utf8_rune_high[OF Some] high by (force simp: shown_def)
      ultimately have raw: "utf8_ok (?r @ ?q) \<and> list_all shown (?r @ ?q)"
        using q utf8_ok_rune_append by (auto simp: list_all_iff simp del: take_Suc_Cons)
      have "utf8_ok (quote_rune pr ?r @ ?q) \<and> list_all shown (quote_rune pr ?r @ ?q)"
        using quote_rune_cases[of pr ?r] raw ascii[OF _ q] by metis
      then show ?thesis using high Some by (simp add: quote_chars.simps(2) del: take_Suc_Cons)
    qed
  qed
qed simp

lemma go_quote_ok: "utf8_ok (go_quote pr s)" "list_all shown (go_quote pr s)"
  using quote_chars_ok[of pr s] utf8_ok_append[of "quote_chars pr s" "[CHR 0x22]"]
  by (simp_all add: go_quote_def shown_def)

lemma go_quote_plain:
  assumes "list_all (\<lambda>c. 32 \<le> bval c \<and> bval c < 127 \<and> c \<noteq> CHR 0x22 \<and> c \<noteq> CHR 0x5C) s"
  shows "go_quote pr s = CHR 0x22 # s @ [CHR 0x22]"
proof -
  have "quote_chars pr s = s"
    using assms by (induction s) (auto simp: quote_chars.simps(2) quote_ascii_def)
  then show ?thesis by (simp add: go_quote_def)
qed

end
