(* ===== verification/SyncReply.thy ===== *)
theory SyncReply
  imports SyncWebhook GoQuote
begin

section \<open>What the webhook answers: status, headers and body\<close>

text \<open>
  The texts of the errors of \<open>internal/sync\<close> and the bytes of the response. An error that wraps
  another one ends in its text, which is an argument: \<open>cause\<close> gives it by the path the result is for
  (a path has at most one result and one wrapped error). \<open>pr\<close> is the table of printable runes of
  \<open>go_quote\<close>. \<open>read_reply\<close> is a client that reads the body back; the lemmas show that it
  gets every result, and that a detail is there whenever a path failed or was ignored.
\<close>

subsection \<open>The texts of the errors\<close>

definition PathManifestMismatchError_Error :: "(nat \<Rightarrow> bool) \<Rightarrow> PathManifestMismatchError \<Rightarrow> string" where
  "PathManifestMismatchError_Error pr m =
     ''path/manifest mismatch on '' @ mm_Field m @ '': path expects '' @ go_quote pr (mm_PathExpect m)
       @ '' but manifest has '' @ go_quote pr (mm_ManifestSeen m)"

definition plural_text :: "(nat \<Rightarrow> bool) \<Rightarrow> string \<Rightarrow> string" where
  "plural_text pr plural = ''unsupported plural kind '' @ go_quote pr plural"

definition hash_text :: "normalize_error \<Rightarrow> string" where
  "hash_text e =
     (case e of
        YAMLToJSONFailed \<Rightarrow> ''failed to convert YAML to JSON: ''
      | UnmarshalObjectFailed \<Rightarrow> ''failed to unmarshal object JSON: ''
      | MarshalRuntimeObjectFailed \<Rightarrow> ''marshal runtime object: ''
      | JSONToYAMLFailed \<Rightarrow> ''json to yaml: '')"

definition apply_text :: "(nat \<Rightarrow> bool) \<Rightarrow> string \<Rightarrow> apply_error \<Rightarrow> string" where
  "apply_text pr wrapped e =
     (case e of
        ComputeHash n \<Rightarrow> ''compute material hash from Git YAML: '' @ hash_text n @ wrapped
      | ConvertYAMLToJSON \<Rightarrow> ''convert yaml to json: '' @ wrapped
      | ParseUnstructured \<Rightarrow> ''parse unstructured: '' @ wrapped
      | PathManifestMismatch m \<Rightarrow> PathManifestMismatchError_Error pr m
      | ResolveKind plural \<Rightarrow> ''resolve kind for plural '' @ go_quote pr plural @ '': '' @ plural_text pr plural
      | ServerSideApply a \<Rightarrow> ''server-side apply: '' @ wrapped)"

definition show_int :: "int \<Rightarrow> string" where
  "show_int i = (if i < 0 then CHR ''-'' # show_nat (nat (- i)) else show_nat (nat i))"

definition fetch_text :: "string \<Rightarrow> fetch_error \<Rightarrow> string" where
  "fetch_text wrapped e =
     (case e of
        BuildRequestFailed \<Rightarrow> ''build raw request: '' @ wrapped
      | HttpGetFailed \<Rightarrow> ''http get: '' @ wrapped
      | ReadBodyFailed \<Rightarrow> ''read body: '' @ wrapped
      | RawFetchStatus st u \<Rightarrow> ''raw fetch status '' @ show_int st @ '' for '' @ u)"

definition push_text :: "string \<Rightarrow> push_error \<Rightarrow> string" where
  "push_text wrapped e =
     (case e of
        DecodePushJSON \<Rightarrow> ''decode GitHub push JSON: '' @ wrapped
      | MissingFullName \<Rightarrow> ''missing repository.full_name''
      | MissingCommitSHA \<Rightarrow> ''missing commit SHA (head_commit.id or after)'')"

definition detail_text :: "(nat \<Rightarrow> bool) \<Rightarrow> string \<Rightarrow> detail \<Rightarrow> string" where
  "detail_text pr wrapped d =
     (case d of
        NoDetail \<Rightarrow> ''''
      | PathNotInventory \<Rightarrow> ''path not under inventory/applications|applicationsets''
      | FetchFailed e \<Rightarrow> fetch_text wrapped e
      | ApplyFailed e \<Rightarrow> apply_text pr wrapped e
      | UnsupportedPlural plural \<Rightarrow> plural_text pr plural
      | AlreadyGone \<Rightarrow> ''already gone''
      | DeleteFailed a \<Rightarrow> ''delete failed: '' @ wrapped)"

definition result_text :: "(nat \<Rightarrow> bool) \<Rightarrow> (string \<Rightarrow> string) \<Rightarrow> webhookResult \<Rightarrow> string" where
  "result_text pr cause r = detail_text pr (cause (wres_Path r)) (wres_Detail r)"

subsection \<open>The response\<close>

text \<open>The headers are those the handler or \<open>http.Error\<close> sets.\<close>

record http_reply =
  rp_Status :: int
  rp_Headers :: "(string \<times> string) list"
  rp_Body :: bytes

definition http_Error :: "string \<Rightarrow> int \<Rightarrow> http_reply" where
  "http_Error msg code =
     \<lparr> rp_Status = code,
       rp_Headers = [(''Content-Type'', ''text/plain; charset=utf-8''), (''X-Content-Type-Options'', ''nosniff'')],
       rp_Body = msg @ [CHR 0x0A] \<rparr>"

text \<open>The JSON of a result with its \<open>omitempty\<close> fields; a nil slice of results is \<open>null\<close>.\<close>

definition result_json :: "(nat \<Rightarrow> bool) \<Rightarrow> (string \<Rightarrow> string) \<Rightarrow> webhookResult \<Rightarrow> json" where
  "result_json pr cause r =
     JObj ((if wres_Path r = [] then [] else [(''path'', JStr (wres_Path r))])
           @ [(''status'', JStr (wres_Status r))]
           @ (if result_text pr cause r = [] then [] else [(''detail'', JStr (result_text pr cause r))]))"

definition response_json :: "(nat \<Rightarrow> bool) \<Rightarrow> (string \<Rightarrow> string) \<Rightarrow> webhookResult list \<Rightarrow> json" where
  "response_json pr cause rs =
     JObj [(''results'', if rs = [] then JNull else JArr (map (result_json pr cause) rs))]"

definition results_reply :: "(nat \<Rightarrow> bool) \<Rightarrow> (string \<Rightarrow> string) \<Rightarrow> webhookResult list \<Rightarrow> http_reply" where
  "results_reply pr cause rs =
     \<lparr> rp_Status = 200, rp_Headers = [(''Content-Type'', ''application/json'')],
       rp_Body = json_marshal (response_json pr cause rs) @ [CHR 0x0A] \<rparr>"

text \<open>\<open>bad\<close> is the text of the JSON error a push error wraps.\<close>

definition reply :: "(nat \<Rightarrow> bool) \<Rightarrow> (string \<Rightarrow> string) \<Rightarrow> string \<Rightarrow> web_response \<Rightarrow> http_reply" where
  "reply pr cause bad resp =
     (case resp of
        RespMethodNotAllowed \<Rightarrow> http_Error ''method not allowed'' 405
      | RespBadBody \<Rightarrow> http_Error ''failed to read body'' 400
      | RespUnauthorized \<Rightarrow> http_Error ''unauthorized'' 401
      | RespBadRequest e \<Rightarrow> http_Error (push_text bad e) 400
      | RespOK rs \<Rightarrow> results_reply pr cause rs)"

lemma reply_status: "rp_Status (reply pr cause bad resp) = response_status resp"
  by (cases resp) (simp_all add: reply_def results_reply_def response_status_def http_Error_def)

text \<open>What a rejected sender sees does not depend on the signature or on the secret.\<close>

lemma reply_rejects:
  assumes "\<nexists>body. authentic h r body"
  shows "reply pr cause bad (fst (ServeHTTP X U C h r w)) =
    (if wr_Method r \<noteq> ''POST'' then http_Error ''method not allowed'' 405
     else if read_limited maxWebhookBody (wr_Body r) (wr_BodyBroken r) = None then http_Error ''failed to read body'' 400
     else http_Error ''unauthorized'' 401)"
  using assms by (auto simp: ServeHTTP_def reply_def authentic_def split: option.splits)

subsection \<open>A client that reads the body\<close>

definition string_member :: "string \<Rightarrow> (string \<times> json) list \<Rightarrow> string" where
  "string_member k ms = (case map_of ms k of Some (JStr s) \<Rightarrow> s | _ \<Rightarrow> '''')"

definition read_result :: "json \<Rightarrow> string \<times> string \<times> string" where
  "read_result v =
     (case v of
        JObj ms \<Rightarrow> (string_member ''path'' ms, string_member ''status'' ms, string_member ''detail'' ms)
      | _ \<Rightarrow> ('''', '''', ''''))"

definition read_reply :: "bytes \<Rightarrow> (string \<times> string \<times> string) list option" where
  "read_reply b =
     (case json_parse b of
        Some (JObj ms) \<Rightarrow>
          (case map_of ms ''results'' of
             Some JNull \<Rightarrow> Some []
           | Some (JArr vs) \<Rightarrow> Some (map read_result vs)
           | _ \<Rightarrow> None)
      | _ \<Rightarrow> None)"

lemma read_result_json:
  "read_result (result_json pr cause r) = (wres_Path r, wres_Status r, result_text pr cause r)"
  by (simp add: result_json_def read_result_def string_member_def)

definition printable_result :: "(nat \<Rightarrow> bool) \<Rightarrow> (string \<Rightarrow> string) \<Rightarrow> webhookResult \<Rightarrow> bool" where
  "printable_result pr cause r =
     (utf8_ok (wres_Path r) \<and> utf8_ok (wres_Status r) \<and> utf8_ok (result_text pr cause r))"

lemma result_json_raw:
  assumes "printable_result pr cause r"
  shows "json_raw (result_json pr cause r)" "json_depth (result_json pr cause r) = 1"
proof -
  have "utf8_ok ''path''" "utf8_ok ''status''" "utf8_ok ''detail''" by simp_all
  then show "json_raw (result_json pr cause r)" "json_depth (result_json pr cause r) = 1"
    using assms by (auto simp: result_json_def printable_result_def)
qed

lemma read_reply_body:
  assumes "\<forall>r \<in> set rs. printable_result pr cause r"
  shows "read_reply (json_marshal (response_json pr cause rs) @ [CHR 0x0A]) =
    Some (map (\<lambda>r. (wres_Path r, wres_Status r, result_text pr cause r)) rs)"
proof -
  define v where "v = (if rs = [] then JNull else JArr (map (result_json pr cause) rs))"
  have v: "json_raw v" "json_depth v \<le> 2"
    using assms result_json_raw by (auto simp: v_def list_all_iff foldr_max_le)
  have "json_parse (json_marshal (JObj [(''results'', v)]) @ [CHR 0x0A]) = Some (JObj [(''results'', v)])"
    using v by (intro json_parse_object_line) (simp_all add: max_nesting_def skip_ws_def json_ws_def)
  then show ?thesis
    unfolding response_json_def v_def[symmetric] read_reply_def
    by (simp add: v_def read_result_json)
qed

subsection \<open>Every result can be read\<close>

text \<open>A string that a detail prints as it is, is valid UTF-8.\<close>

definition detail_utf8 :: "detail \<Rightarrow> bool" where
  "detail_utf8 d =
     (case d of
        FetchFailed (RawFetchStatus st u) \<Rightarrow> utf8_ok u
      | ApplyFailed (PathManifestMismatch m) \<Rightarrow> utf8_ok (mm_Field m)
      | _ \<Rightarrow> True)"

definition explained :: "webhookResult \<Rightarrow> bool" where
  "explained r =
     (wres_Status r \<in> {''applied'', ''deleted'', ''ignored'', ''error''} \<and> detail_utf8 (wres_Detail r) \<and>
      (wres_Status r \<in> {''ignored'', ''error''} \<longrightarrow> wres_Detail r \<noteq> NoDetail))"

lemma utf8_ok_show_nat: "utf8_ok (show_nat n)"
proof (induction n rule: show_nat.induct)
  case (1 n)
  have d: "utf8_ok [digit_char (m mod 10)]" for m
    by (simp add: digit_char_def)
  show ?case
    using 1 d[of n] by (subst show_nat.simps) (auto intro: utf8_ok_append simp: digit_char_def)
qed

lemma utf8_ok_show_int: "utf8_ok (show_int i)"
  by (simp add: show_int_def utf8_ok_show_nat)

lemmas utf8_texts = utf8_ok_append utf8_ok_show_int go_quote_ok(1)

lemma detail_text_utf8: "detail_utf8 d \<Longrightarrow> utf8_ok wrapped \<Longrightarrow> utf8_ok (detail_text pr wrapped d)"
  by (auto simp: detail_utf8_def detail_text_def fetch_text_def apply_text_def hash_text_def plural_text_def
      PathManifestMismatchError_Error_def intro!: utf8_texts
      split: detail.splits fetch_error.splits apply_error.splits normalize_error.splits)

lemma detail_text_empty: "detail_text pr wrapped d = '''' \<longleftrightarrow> d = NoDetail"
  by (auto simp: detail_text_def fetch_text_def apply_text_def plural_text_def PathManifestMismatchError_Error_def
      split: detail.splits fetch_error.splits apply_error.splits)

lemma raw_url_utf8: "utf8_ok fullName \<Longrightarrow> utf8_ok sha \<Longrightarrow> utf8_ok p \<Longrightarrow> utf8_ok (raw_url fullName sha p)"
  by (auto simp: raw_url_def intro!: utf8_ok_append utf8_ok_trim_prefix utf8_ok_trim_space)

lemma fetch_error_utf8:
  assumes "FetchGitHubRawFile X C token fullName sha p w = (Inl e, w1)" "utf8_ok (raw_url fullName sha p)"
  shows "detail_utf8 (FetchFailed e)"
  using assms
  by (auto simp: FetchGitHubRawFile_def Let_def detail_utf8_def
      split: if_splits prod.splits option.splits fetch_error.splits)

lemma validate_error_utf8:
  "validatePathManifestIdentity U parsed ob = Some e \<Longrightarrow> detail_utf8 (ApplyFailed e)"
  by (auto simp: validatePathManifestIdentity_def mismatch_def detail_utf8_def split: if_splits sum.splits)

lemma apply_error_utf8: "ApplyInventoryYAML X U C parsed raw w = (Some e, w1) \<Longrightarrow> detail_utf8 (ApplyFailed e)"
  unfolding ApplyInventoryYAML_def
  by (auto simp: Let_def dest: validate_error_utf8 split: prod.splits option.splits sum.splits)
     (simp_all add: detail_utf8_def)

lemma serve_added_explained:
  assumes "utf8_ok fullName" "utf8_ok sha" "utf8_ok p"
  shows "explained (fst (serve_added X U C h fullName sha p w))"
  unfolding explained_def
  by (auto simp: serve_added_def result_of_def dest: apply_error_utf8 fetch_error_utf8[OF _ raw_url_utf8[OF assms]]
      split: prod.splits option.splits sum.splits)
     (simp_all add: detail_utf8_def)

lemma serve_removed_explained: "explained (fst (serve_removed U C p w))"
  by (auto simp: explained_def detail_utf8_def serve_removed_def result_of_def
      split: prod.splits option.splits sum.splits api_error.splits)

lemma serve_each_explained:
  assumes "\<And>p w. p \<in> set ps \<Longrightarrow> explained (fst (f p w))"
  shows "\<forall>r \<in> set (fst (serve_each f ps w)). explained r"
  using assms
proof (induction ps arbitrary: w)
  case (Cons p ps)
  have "explained (fst (f p w))" using Cons.prems by simp
  then show ?case using Cons by (auto split: prod.splits) (metis fst_conv)+
qed simp

lemma serve_explained:
  assumes "authentic h r body" "ParseGitHubPushPaths body = Inr push" "fst (ServeHTTP X U C h r w) = RespOK rs"
  shows "\<forall>x \<in> set rs. explained x"
proof -
  let ?f = "serve_added X U C h (ps_FullName push) (ps_HeadSHA push)"
  obtain ra w1 where a: "serve_each ?f (ps_AddedModified push) w = (ra, w1)"
    by (cases "serve_each ?f (ps_AddedModified push) w")
  obtain rr w2 where b: "serve_each (serve_removed U C) (ps_Removed push) w1 = (rr, w2)"
    by (cases "serve_each (serve_removed U C) (ps_Removed push) w1")
  have "\<forall>x \<in> set (fst (serve_each ?f (ps_AddedModified push) w)). explained x"
    using push_paths_utf8[OF assms(2)] by (intro serve_each_explained serve_added_explained) auto
  moreover have "\<forall>x \<in> set (fst (serve_each (serve_removed U C) (ps_Removed push) w1)). explained x"
    by (intro serve_each_explained serve_removed_explained)
  moreover have "rs = ra @ rr"
    using assms(3) by (simp add: serve_authentic[OF assms(1)] assms(2) a b)
  ultimately show ?thesis by (auto simp: a b)
qed

lemma explained_printable:
  assumes "explained r" "utf8_ok (wres_Path r)" "utf8_ok (cause (wres_Path r))"
  shows "printable_result pr cause r"
proof -
  have "utf8_ok ''applied'' \<and> utf8_ok ''deleted'' \<and> utf8_ok ''ignored'' \<and> utf8_ok ''error''" by simp
  then show ?thesis
    using assms by (auto simp: explained_def printable_result_def result_text_def intro: detail_text_utf8)
qed

end
