(* ===== verification/PropsSync.thy ===== *)
theory PropsSync
  imports Instances SyncReply
begin

section \<open>Properties of the sync operator\<close>

text \<open>
  One theorem per property of the package sync, with witnesses on a signed push of one added and one
  removed path. The proofs rest on the lemmas of the component theories.
\<close>

subsection \<open>A signed push to evaluate on\<close>

text \<open>One commit that adds the file of the sample object and removes the file \<open>r\<close>.\<close>

definition push_value :: "string \<Rightarrow> json" where
  "push_value r = JObj
     [(''repository'', JObj [(''full_name'', JStr ''acme/inv'')]), (''after'', JStr ''c0ffee''),
      (''commits'', JArr [JObj [(''added'', JArr [JStr path0]), (''removed'', JArr [JStr r])]])]"

definition push_body :: "string \<Rightarrow> bytes" where
  "push_body r = json_marshal (push_value r)"

definition push0 :: "string \<Rightarrow> push_paths" where
  "push0 r = \<lparr> ps_FullName = ''acme/inv'', ps_HeadSHA = ''c0ffee'', ps_AddedModified = [path0], ps_Removed = [r] \<rparr>"

definition other_yml :: string where
  "other_yml = ''inventory/applications/argocd/old.yml''"

definition same_yml :: string where
  "same_yml = ''inventory/applications/argocd/web.yml''"

definition sample_path :: "string \<Rightarrow> bool" where
  "sample_path r = (r = other_yml \<or> r = same_yml)"

lemma sample_paths [simp]: "sample_path other_yml" "sample_path same_yml"
  by (simp_all add: sample_path_def)

lemma sample_text: "sample_path r \<Longrightarrow> utf8_ok r \<and> r \<noteq> [] \<and> r \<noteq> path0"
  by (auto simp: sample_path_def other_yml_def same_yml_def path0_def utf8_ok_ascii)

lemma push_body_parsed:
  assumes "sample_path r"
  shows "json_parse (push_body r) = Some (push_value r)"
proof -
  have "json_raw (push_value r)"
    using sample_text[OF assms] by (simp add: push_value_def path0_def list_all_iff utf8_ok_ascii)
  moreover have "json_depth (push_value r) \<le> max_nesting"
    by (simp add: push_value_def max_nesting_def)
  ultimately show ?thesis unfolding push_body_def by (rule json_parse_marshal)
qed

definition event0 :: "string \<Rightarrow> githubPushEvent" where
  "event0 r = \<lparr> ev_FullName = ''acme/inv'', ev_HeadCommit = None, ev_After = ''c0ffee'',
     ev_Commits = \<lparr> sl_cells = [\<lparr> c_Added = \<lparr> sl_cells = [path0], sl_len = 1 \<rparr>, c_Modified = slice_nil,
        c_Removed = \<lparr> sl_cells = [r], sl_len = 1 \<rparr> \<rparr>], sl_len = 1 \<rparr> \<rparr>"

lemma push_event: "sample_path r \<Longrightarrow> unmarshal_event (push_body r) = Some (event0 r)"
proof -
  assume r: "sample_path r"
  have "dec_struct event_field (push_value r) zero_event = Some (event0 r)"
    by (simp add: push_value_def event0_def zero_event_def dec_struct_def event_field_def full_name_field_def
        dec_string_def dec_slice_def commit_field_def zero_commit_def slice_nil_def same_field other_field)
  then show ?thesis by (simp add: unmarshal_event_def push_body_parsed[OF r])
qed

lemma push_parsed:
  assumes "sample_path r"
  shows "ParseGitHubPushPaths (push_body r) = Inr (push0 r)"
proof -
  have e: "(\<Union>c \<in> set (slice_list (ev_Commits (event0 r))). commit_adds c) = {path0}"
    "(\<Union>c \<in> set (slice_list (ev_Commits (event0 r))). commit_removes c) = {r}"
    by (simp_all add: event0_def slice_list_def commit_adds_def commit_removes_def slice_nil_def)
  have "push_added (event0 r) = {path0}" "push_removed (event0 r) = {r}"
    using sample_text[OF assms] by (auto simp: push_added_def push_removed_def e path0_def)
  moreover have "head_sha (event0 r) = ''c0ffee''"
    by (simp add: head_sha_def event0_def trim_visible visible_ascii_def)
  moreover have "valid_sha ''c0ffee''" by code_simp
  ultimately show ?thesis
    unfolding parse_push_iff
    by (intro exI[of _ "event0 r"]) (simp add: push_event[OF assms] push0_def, simp add: event0_def)
qed

definition handler0 :: WebhookHandler where
  "handler0 = \<lparr> wh_GitHubToken = '''', wh_WebhookSecret = ''s3cret'' \<rparr>"

definition request0 :: "string \<Rightarrow> web_request" where
  "request0 r = \<lparr> wr_Method = ''POST'',
     wr_Headers = [(SignatureHeader, github_signature ''s3cret'' (push_body r))],
     wr_Body = push_body r, wr_BodyBroken = False \<rparr>"

definition world0 :: "(json gomap, sim) world" where
  "world0 = \<lparr> w_state = Map.empty, w_calls = [] \<rparr>"

lemma push_body_short: "sample_path r \<Longrightarrow> length (push_body r) \<le> maxWebhookBody"
proof -
  assume r: "sample_path r"
  have "length (push_body other_yml) \<le> 300" "length (push_body same_yml) \<le> 300" by code_simp+
  then show ?thesis using r by (auto simp: maxWebhookBody_def sample_path_def)
qed

lemma request0_authentic: "sample_path r \<Longrightarrow> authentic handler0 (request0 r) body \<longleftrightarrow> body = push_body r"
  using push_body_short[of r] verify_signed[of "''s3cret''" "push_body r"]
  by (auto simp: authentic_def request0_def handler0_def header_get_def read_limited_def)

lemma request0_push:
  "sample_path r \<Longrightarrow> authentic handler0 (request0 r) (push_body r)"
  "sample_path r \<Longrightarrow> ParseGitHubPushPaths (push_body r) = Inr (push0 r)"
  by (simp_all add: request0_authentic push_parsed)

subsection \<open>The webhook\<close>

text \<open>C1: A request that is not a POST, whose body cannot be read, or whose body does not carry a valid
  signature has no effect (no fetch, no apply, no delete) and is answered 405, 400 or 401 with one fixed text each:
  the answer depends on the method and on whether the body could be read, and on nothing else, so it
  tells a sender neither which check of the signature failed nor anything about the secret.\<close>

theorem webhook_rejects_unauthenticated:
  assumes "\<nexists>body. authentic h r body"
  shows "snd (ServeHTTP X U C h r w) = w \<and>
    reply pr cause bad (fst (ServeHTTP X U C h r w)) =
      (if wr_Method r \<noteq> ''POST'' then http_Error ''method not allowed'' 405
       else if read_limited maxWebhookBody (wr_Body r) (wr_BodyBroken r) = None then http_Error ''failed to read body'' 400
       else http_Error ''unauthorized'' 401)"
  using serve_rejects(1)[OF assms] reply_rejects[OF assms] by blast

theorem webhook_rejects_unauthenticated_witness:
  "snd (ServeHTTP x0 u0 c0 handler0 ((request0 other_yml) \<lparr> wr_Headers := [] \<rparr>) world0) = world0 \<and>
   rp_Status (reply (\<lambda>u. False) (\<lambda>p. '''') ''''
     (fst (ServeHTTP x0 u0 c0 handler0 ((request0 other_yml) \<lparr> wr_Headers := [] \<rparr>) world0))) \<in> {400, 401, 405}"
proof -
  have "\<nexists>body. authentic handler0 ((request0 other_yml) \<lparr> wr_Headers := [] \<rparr>) body"
    by (simp add: authentic_def header_get_def handler0_def VerifyHMACSignature_def)
  from webhook_rejects_unauthenticated[OF this, of x0 u0 c0 world0 "\<lambda>u. False" "\<lambda>p. ''''" "''''"]
  show ?thesis by (simp add: http_Error_def)
qed

text \<open>C2: An authentic push makes only these calls (\<open>webhook_call\<close>): a GET of the raw file of an added
  path that parses; a forced server-side apply, as the operator's field owner, of a manifest that
  matches the identity in such a path, stamped with the digest of the file it comes from; a delete of
  the Application or ApplicationSet that a removed path names. It never reads the cluster.\<close>

theorem webhook_effects_are_confined:
  assumes "authentic h r body" "ParseGitHubPushPaths body = Inr push"
  shows "\<exists>cs. w_calls (snd (ServeHTTP X U C h r w)) = w_calls w @ cs \<and>
    (\<forall>c \<in> set cs. webhook_call X U h push c)"
  using serve_authentic_calls[OF assms] unfolding new_calls_def list_all_iff by blast

theorem webhook_effects_are_confined_witness:
  "\<exists>cs. w_calls (snd (ServeHTTP x0 u0 c0 handler0 (request0 other_yml) world0)) = cs \<and> (\<forall>g ns n. GetCall g ns n \<notin> set cs)"
  using webhook_effects_are_confined[OF request0_push[OF sample_paths(1)], of x0 u0 c0 world0]
  by (fastforce simp: world0_def webhook_call_def)

text \<open>An authentic push is answered 200 with exactly one result per path, the added and modified
  paths first, each list in sorted order.\<close>

lemma webhook_reports_every_path:
  assumes "authentic h r body" "ParseGitHubPushPaths body = Inr push"
  shows "\<exists>rs. fst (ServeHTTP X U C h r w) = RespOK rs \<and>
    map wres_Path rs = ps_AddedModified push @ ps_Removed push \<and>
    sorted (ps_AddedModified push) \<and> sorted (ps_Removed push)"
proof -
  have "sorted (ps_AddedModified push) \<and> sorted (ps_Removed push)"
    using assms(2) unfolding parse_push_iff by auto
  then show ?thesis using serve_results_paths[OF assms, of X U C w] by blast
qed

lemma webhook_reports_every_path_witness:
  "\<exists>rs. fst (ServeHTTP x0 u0 c0 handler0 (request0 other_yml) world0) = RespOK rs \<and>
     map wres_Path rs = [path0, other_yml]"
  using webhook_reports_every_path[OF request0_push[OF sample_paths(1)], of x0 u0 c0 world0]
  by (auto simp: push0_def)

subsection \<open>The signature\<close>

text \<open>C18: A signature is accepted exactly when a secret is configured and the header is the prefix and
  a hex encoding, in either case, of the HMAC-SHA256 of the body.\<close>

theorem signature_accepted_iff:
  "VerifyHMACSignature secret hv body = None \<longleftrightarrow>
   secret \<noteq> '''' \<and> (\<exists>h. hv = ''sha256='' @ h \<and> hex_decode h = Inr (hmac_sha256 secret body))"
  using verify_iff[of secret hv body] by (simp add: signaturePrefix_def)

text \<open>What a sender computes with the same non-empty secret is accepted, and has 71 characters.\<close>

lemma sender_signature_is_accepted:
  assumes "secret \<noteq> ''''"
  shows "VerifyHMACSignature secret (github_signature secret body) body = None \<and>
    length (github_signature secret body) = 71"
  using verify_signed[OF assms] by (simp add: github_signature_def, simp add: signaturePrefix_def)

lemma sender_signature_is_accepted_witness:
  "VerifyHMACSignature ''s3cret'' (github_signature ''s3cret'' (push_body other_yml)) (push_body other_yml) = None"
  using sender_signature_is_accepted[of "''s3cret''" "push_body other_yml"] by simp

subsection \<open>Paths\<close>

text \<open>C19: The paths of a push: it is accepted exactly when it decodes, names a repository and a commit
  that is not all zeros; then the first list holds, sorted and once each, the non-empty paths added or
  modified by some commit, the second those removed by some commit and not in the first (so a file
  added by one commit and removed by a later one counts as added).\<close>

theorem push_paths_are_exact:
  "ParseGitHubPushPaths body = Inr r \<longleftrightarrow>
   (\<exists>ev. unmarshal_event body = Some ev \<and> ev_FullName ev \<noteq> [] \<and> valid_sha (head_sha ev) \<and>
      ps_FullName r = ev_FullName ev \<and> ps_HeadSHA r = head_sha ev \<and>
      ps_AddedModified r = sorted_list_of_set ((\<Union>c \<in> set (slice_list (ev_Commits ev)).
          set (slice_list (c_Added c)) \<union> set (slice_list (c_Modified c))) - {[]}) \<and>
      ps_Removed r = sorted_list_of_set ((\<Union>c \<in> set (slice_list (ev_Commits ev)).
          set (slice_list (c_Removed c))) - {[]} - set (ps_AddedModified r)))"
proof -
  have f: "finite (push_added ev)" for ev by (simp add: push_added_def commit_adds_def)
  show ?thesis
    unfolding parse_push_iff push_removed_def commit_removes_def[symmetric] commit_adds_def[symmetric]
      push_added_def[symmetric]
    using f by (metis set_sorted_list_of_set)
qed

text \<open>C20: A Git path names an object exactly when its cleaned elements are \<open>inventory\<close>, a plural of the
  two kinds, a namespace, and a file \<open>.yaml\<close> or \<open>.yml\<close> whose stem is neither empty nor a dot.\<close>

theorem path_accepted_iff:
  "ParseInventoryExportPath gp = Some r \<longleftrightarrow>
   (\<exists>file. path_elems (trim_space gp) = [''inventory'', pp_PluralKind r, pp_Namespace r, file] \<and>
      (pp_PluralKind r = ''applications'' \<or> pp_PluralKind r = ''applicationsets'') \<and>
      (has_suffix file ''.yaml'' \<or> has_suffix file ''.yml'') \<and>
      pp_Name r = trim_suffix (trim_suffix file ''.yaml'') ''.yml'' \<and> pp_Name r \<noteq> [] \<and> pp_Name r \<noteq> ''.'')"
  unfolding parse_iff parsed_elems_def argo_plural_def yaml_file_def yaml_stem_def by blast



text \<open>The file of an object called \<open>n.yml\<close> is read back as the object \<open>n\<close>, so removing it deletes
  another object.\<close>

lemma yml_name_is_misread:
  assumes "argo_kind k" "proper_elem ns" "object_name n"
  shows "\<exists>p r. RenderExportPath X defaultExportPathTemplate k ns (n @ ''.yml'') = Inr p \<and>
    ParseInventoryExportPath p = Some r \<and> pp_Namespace r = ns \<and> pp_Name r = n"
proof -
  have "object_name (n @ ''.yml'')" using assms(3) by (auto simp: object_name_def)
  from parse_export[OF plural_of_kind[OF assms(1)] assms(2) this, of X] show ?thesis
    using assms(3) by (simp add: render_default object_name_def)
qed



text \<open>The archive path of an exported file is never accepted, so a push that archives a file applies
  nothing from the archive.\<close>

lemma archived_path_is_never_applied:
  assumes "argo_kind k" "proper_elem ns" "object_name n"
  shows "\<exists>p q. RenderExportPath X defaultExportPathTemplate k ns n = Inr p \<and>
    ArchiveRelativePath p = Inr q \<and> ParseInventoryExportPath q = None"
proof -
  let ?xs = "[ArgoPluralKind X k, ns, n @ ''.yaml'']"
  let ?p = "join_slash (live_elems ?xs)" and ?q = "join_slash (archive_elems ?xs)"
  have r: "RenderExportPath X defaultExportPathTemplate k ns n = Inr ?p"
    by (simp add: render_default live_elems_def)
  have a: "ArchiveRelativePath ?p = Inr ?q" by (rule archive_path_elems) simp
  have pr: "\<forall>x \<in> set (archive_elems ?xs). proper_elem x"
    using plural_proper[OF assms(1), of X] assms(2,3) proper_yaml[of n]
    by (auto simp: archive_elems_def object_name_def)
  have t: "trim_space ?q = ?q"
    by (intro trim_space_id trimmed_visible disjI2) (simp add: archive_elems_def visible_literals)
  have "path_elems (trim_space ?q) = ''inventory'' # ''archive'' # ?xs"
    unfolding t using path_elems_join[OF pr] by (simp add: archive_elems_def)
  then have "ParseInventoryExportPath ?q = None" by (rule parse_archive_none)
  then show ?thesis using r a by blast
qed

lemma archived_path_is_never_applied_witness:
  "\<exists>p q. RenderExportPath x0 defaultExportPathTemplate ''Application'' ''argocd'' ''web'' = Inr p \<and>
     ArchiveRelativePath p = Inr q \<and> ParseInventoryExportPath q = None"
proof -
  have "argo_kind ''Application''" "proper_elem ''argocd''" "object_name ''web''" by code_simp+
  then show ?thesis by (rule archived_path_is_never_applied)
qed


subsection \<open>Fetch and apply\<close>

text \<open>A successful fetch returns the first eight MiB of a 200 response to one GET of the raw URL: a
  longer file comes back cut, with no error.\<close>

lemma fetch_returns_a_prefix:
  assumes "x_url_ok X (raw_url fullName sha p)"
    and "c_http C (raw_request token (raw_url fullName sha p)) (w_state w) = (Some r, s)" "rs_status r = 200"
    and "\<not> rs_read_error r"
  shows "FetchGitHubRawFile X C token fullName sha p w =
    (Inr (take maxRawFile (rs_body r)),
     \<lparr> w_state = s, w_calls = w_calls w @ [HttpCall (raw_request token (raw_url fullName sha p))] \<rparr>)"
  using assms by (simp add: FetchGitHubRawFile_def do_http_def read_limited_def Let_def)

lemma fetch_returns_a_prefix_witness:
  "fst (FetchGitHubRawFile x0 c0 '''' ''acme/inv'' ''c0ffee'' path0 world0) = Inr (take maxRawFile yaml0)"
proof -
  have "c_http c0 (raw_request '''' (raw_url ''acme/inv'' ''c0ffee'' path0)) (w_state world0)
      = (Some \<lparr> rs_status = 200, rs_body = yaml0, rs_read_error = False \<rparr>, w_state world0)"
    by (simp add: c0_def world0_def files0_def raw_request_def mget_def)
  from fetch_returns_a_prefix[OF _ this, of x0] show ?thesis by simp
qed

text \<open>A successful apply made one call, a forced server-side apply of the manifest, which has the
  identity the path declares, with its annotations kept and the digest of the Git file added.\<close>

lemma apply_patches_the_named_object:
  assumes "ApplyInventoryYAML X U C parsed y w = (None, w')"
  shows "\<exists>manifest hash. manifest_matches U parsed manifest \<and>
    MaterialHashFromNormalizedYAML X y = Inr hash \<and>
    w_calls w' = w_calls w @ [PatchCall (u_set_annotations U (stamped_annotations U manifest hash) manifest) fieldOwner True] \<and>
    mget (stamped_annotations U manifest hash) SyncContentHashAnnotationKey = Some hash"
  using apply_success[of X U C parsed y w] assms
  by (auto simp: applies_def stamped_annotations_def mget_mput)

lemma apply0:
  "ApplyInventoryYAML x0 u0 c0 parsed0 yaml0 w =
     (None, snd (do_patch c0 (u_set_annotations u0 (stamped_annotations u0 app0 hash0) app0) fieldOwner True w))"
proof -
  have u: "u_unmarshal u0 yaml0 = Some app0" by (simp add: u0_def yaml0_decodes)
  have v: "validatePathManifestIdentity u0 parsed0 app0 = None" using matches0 by (simp add: validate_iff)
  have p: "fst (do_patch c0 ob ow f w) = None" for ob ow f by (simp add: do_patch_def c0_def Let_def)
  have e: "(case r of (e, w1) \<Rightarrow> case e of None \<Rightarrow> (None, w1) | Some a \<Rightarrow> (Some (ServerSideApply a), w1)) = (None, snd r)"
    if "fst r = None" for r :: "api_error option \<times> (json gomap, sim) world"
    using that by (cases r) simp
  show ?thesis
    by (simp only: ApplyInventoryYAML_def yaml0_hash FirstYAMLDocument_def app0_doc u v Let_def
        sum.case option.case x0_conversions e[OF p])
qed

lemma apply_patches_the_named_object_witness:
  "\<exists>manifest. manifest_matches u0 parsed0 manifest \<and>
     w_calls (snd (ApplyInventoryYAML x0 u0 c0 parsed0 yaml0 world0)) =
       [PatchCall (u_set_annotations u0 (stamped_annotations u0 manifest hash0) manifest) fieldOwner True]"
  using apply_patches_the_named_object[OF apply0, of world0] yaml0_hash
  by (auto simp: apply0 world0_def)

text \<open>C17: A manifest whose apiVersion, kind, namespace or name is not what an accepted path declares is
  refused with the typed mismatch error, and nothing is sent to the cluster.\<close>

theorem mismatching_manifest_is_refused:
  assumes "ParseInventoryExportPath gp = Some parsed" "\<not> manifest_matches U parsed ob"
    and "MaterialHashFromNormalizedYAML X y = Inr h" "x_y2j X (FirstYAMLDocument y) = Some j" "u_unmarshal U j = Some ob"
  shows "\<exists>e. ApplyInventoryYAML X U C parsed y w = (Some e, w) \<and> IsPathManifestMismatch e"
proof -
  obtain e where e: "validatePathManifestIdentity U parsed ob = Some e"
    using assms(2) by (cases "validatePathManifestIdentity U parsed ob") (auto simp: validate_iff)
  then show ?thesis
    using validate_parsed[OF assms(1) e] assms(3-5) by (simp add: ApplyInventoryYAML_def)
qed

theorem mismatching_manifest_is_refused_witness:
  "\<exists>e. ApplyInventoryYAML x0 u0 c0 (parsed0 \<lparr> pp_Name := ''other'' \<rparr>) yaml0 world0 = (Some e, world0) \<and>
     IsPathManifestMismatch e"
proof -
  have p: "ParseInventoryExportPath ''inventory/applications/argocd/other.yaml'' = Some (parsed0 \<lparr> pp_Name := ''other'' \<rparr>)"
    using parse_export[of "''applications''" "''argocd''" "''other''"]
    by (simp add: argo_plural_def proper_elem_def object_name_def trim_suffix_def has_suffix_def parsed0_def)
  have m: "\<not> manifest_matches u0 (parsed0 \<lparr> pp_Name := ''other'' \<rparr>) app0" by code_simp
  have u: "u_unmarshal u0 yaml0 = Some app0" by (simp add: u0_def yaml0_decodes)
  show ?thesis
    by (rule mismatching_manifest_is_refused[OF p m yaml0_hash _ u]) (simp add: FirstYAMLDocument_def app0_doc)
qed

end
