(* ===== verification/Publish.thy ===== *)
theory Publish
  imports System SyncWebhook
begin

section \<open>From a cluster event to a pushed commit, and back\<close>

text \<open>
  What holds of the queue as long as the reconcilers are its only clients (every pending operation is
  a write or an archive on a path of the inventory layout), and what the next tick does with such a
  queue when Git answers as it should: \<open>git_works\<close> gives the answers of the calls of one export.
  The second half follows one exported file through the webhook: it is applied with the digest the
  exporter computed.
\<close>

subsection \<open>The queue of the reconcilers\<close>

definition queue_inv :: "BatchWorker \<Rightarrow> bool" where
  "queue_inv w = (\<forall>e \<in> set (bw_pending w). \<exists>xs. inv_op (xs, snd e) \<and> e = render_op (xs, snd e))"

definition object_elems :: "ext \<Rightarrow> string \<Rightarrow> string \<Rightarrow> string \<Rightarrow> string list" where
  "object_elems X kind ns n = [ArgoPluralKind X kind, ns, n @ ''.yaml'']"

lemma object_elems_inv:
  "argo_kind kind \<Longrightarrow> proper_elem ns \<Longrightarrow> object_name n \<Longrightarrow> inv_path (object_elems X kind ns n)"
  using proper_yaml[of n] plural_proper[of kind X]
  by (auto simp: inv_path_def object_elems_def object_name_def argo_kind_def)

lemma render_object:
  "RenderExportPath X defaultExportPathTemplate kind ns n = Inr (join_slash (live_elems (object_elems X kind ns n)))"
  by (simp add: render_default live_elems_def object_elems_def)

lemma set_mput: "set (mput k v m) \<subseteq> insert (k, v) (set m)"
  by (induction k v m rule: mput.induct) auto

lemma queue_inv_put:
  assumes "queue_inv w" "inv_path xs" "known_kind op"
  shows "queue_inv (put_pending (join_slash (live_elems xs)) op w)"
proof -
  let ?e = "(join_slash (live_elems xs), op)"
  have e: "\<exists>ys. inv_op (ys, snd ?e) \<and> ?e = render_op (ys, snd ?e)"
    by (intro exI[of _ xs]) (simp add: inv_op_def render_op_def assms(2,3))
  show ?thesis
    unfolding queue_inv_def
  proof
    fix x assume "x \<in> set (bw_pending (put_pending (join_slash (live_elems xs)) op w))"
    then have "x = ?e \<or> x \<in> set (bw_pending w)"
      using set_mput[of "join_slash (live_elems xs)" op "bw_pending w"] by (auto simp: put_pending_def)
    then show "\<exists>ys. inv_op (ys, snd x) \<and> x = render_op (ys, snd x)"
      using e assms(1) unfolding queue_inv_def by blast
  qed
qed

lemma queue_inv_New [simp]: "queue_inv (NewBatchWorker cfg)"
  by (simp add: queue_inv_def NewBatchWorker_def)

lemma queue_inv_handle:
  assumes "queue_inv (rd_queue d)" "rd_tmpl d = defaultExportPathTemplate"
    "argo_kind kind" "proper_elem (rq_namespace req)" "object_name (rq_name req)"
  shows "queue_inv (rd_queue (snd (handle X U d req ob kind)))"
proof -
  have "queue_inv (Enqueue \<lparr> job_Path = join_slash (live_elems (object_elems X kind (rq_namespace req) (rq_name req))),
      job_Content = yb \<rparr> (rd_queue d))" for yb
    unfolding Enqueue_def
    using queue_inv_put[OF assms(1) object_elems_inv[OF assms(3-5), of X], of "\<lparr> pe_kind = opWrite, pe_content = yb \<rparr>"]
    by (simp add: known_kind_def)
  then show ?thesis
    using assms(1,2) by (auto simp: handle_def render_object Let_def split: sum.splits option.splits prod.splits)
qed

text \<open>The entries of such a queue, in whatever order, as operations on the layout.\<close>

lemma queue_ops:
  assumes "\<forall>e \<in> set l. \<exists>xs. inv_op (xs, snd e) \<and> e = render_op (xs, snd e)"
  shows "\<exists>es. l = map render_op es \<and> (\<forall>e \<in> set es. inv_op e)"
  using assms
proof (induction l)
  case (Cons e l)
  then obtain xs es where "inv_op (xs, snd e)" "e = render_op (xs, snd e)" "l = map render_op es" "\<forall>e \<in> set es. inv_op e"
    by auto
  then show ?case by (intro exI[of _ "(xs, snd e) # es"]) simp
qed simp

lemma range_ops:
  assumes "queue_inv w" "worker_ok w" "range_order ord"
  shows "\<exists>es. ord (bw_pending w) = map render_op es \<and> (\<forall>e \<in> set es. inv_op e) \<and> distinct (map fst es)"
proof -
  have m: "mset (ord (bw_pending w)) = mset (bw_pending w)" using assms(3) by (simp add: range_order_def)
  then have "\<forall>e \<in> set (ord (bw_pending w)). \<exists>xs. inv_op (xs, snd e) \<and> e = render_op (xs, snd e)"
    using assms(1) unfolding queue_inv_def by (metis set_mset_mset)
  then obtain es where es: "ord (bw_pending w) = map render_op es" "\<forall>e \<in> set es. inv_op e"
    using queue_ops by blast
  have "distinct (map fst (bw_pending w))"
    using assms(2) gomap_ok_distinct[of "bw_pending w"] by (simp add: worker_ok_def mkeys_def)
  then have "distinct (map fst (map render_op es))"
    using m unfolding es(1)[symmetric] by (metis mset_eq_imp_distinct_iff mset_map)
  moreover have "map fst (map render_op es) = map (\<lambda>xs. join_slash (live_elems xs)) (map fst es)"
    by (simp add: render_op_def)
  ultimately have "distinct (map fst es)" by (metis distinct_map)
  then show ?thesis using es by blast
qed

text \<open>The operations found by \<open>range_ops\<close> at a path are those pending there.\<close>

lemma live_path_inject:
  assumes "inv_path xs" "inv_path ys" "join_slash (live_elems ys) = join_slash (live_elems xs)"
  shows "ys = xs"
proof -
  have "split_slash (join_slash (live_elems zs)) = live_elems zs" if "inv_path zs" for zs
    using inv_path_shape[OF that] by (intro split_join_slash) (auto simp: live_elems_def proper_no_slash)
  then show ?thesis using assms live_inject by metis
qed

lemma queue_entry:
  assumes "worker_ok w" "range_order ord" "ord (bw_pending w) = map render_op es" "\<forall>e \<in> set es. inv_op e"
    "inv_path xs"
  shows "(xs, op) \<in> set es \<longleftrightarrow> pending_at w (join_slash (live_elems xs)) = Some op"
proof -
  let ?p = "join_slash (live_elems xs)"
  have "set (ord (bw_pending w)) = set (bw_pending w)"
    using assms(2) unfolding range_order_def by (metis set_mset_mset)
  then have "pending_at w ?p = Some op \<longleftrightarrow> (?p, op) \<in> set (map render_op es)"
    using assms(1,3) by (simp add: pending_at_def worker_ok_def mget_in_set)
  also have "\<dots> \<longleftrightarrow> (xs, op) \<in> set es"
  proof
    assume "(?p, op) \<in> set (map render_op es)"
    then obtain ys where "(ys, op) \<in> set es" "join_slash (live_elems ys) = ?p" by (auto simp: render_op_def)
    moreover from this have "inv_path ys" using assms(4) by (auto simp: inv_op_def)
    ultimately show "(xs, op) \<in> set es" using live_path_inject[OF assms(5)] by blast
  qed (auto simp: render_op_def intro!: image_eqI[where x = "(xs, op)"])
  finally show ?thesis by blast
qed

subsection \<open>A tick that publishes\<close>

text \<open>Git answers: a directory, a clone \<open>cl\<close> laid out as an inventory, a changed tree, no error.\<close>

definition git_works :: "'g git \<Rightarrow> InventoryControllerConfig \<Rightarrow> 'g \<times> fs \<Rightarrow> bool" where
  "git_works G cfg t =
     (\<exists>d t1 g2 cl. g_mkdirtemp G t = (Inr d, t1) \<and> rooted_path d \<and>
        g_clone G d (clone_options cfg) t1 = (None, g2, cl) \<and> inv_tree (fs_path d) cl \<and>
        (\<forall>u. g_open G d u = None \<and> g_worktree G d u = None \<and> fst (g_add G d u) = None \<and>
             g_status G d u = Inr False \<and> (\<forall>m. fst (g_commit G d m u) = None) \<and>
             (\<forall>a. fst (g_push G d a u) = None)))"

lemma publish_works:
  assumes "\<forall>u. g_open G d u = None \<and> g_worktree G d u = None \<and> fst (g_add G d u) = None \<and>
      g_status G d u = Inr False \<and> (\<forall>m. fst (g_commit G d m u) = None) \<and> (\<forall>a. fst (g_push G d a u) = None)"
  shows "fst (publish G cfg batch d s) = None"
    "gs_log (snd (publish G cfg batch d s)) =
       gs_log s @ [CommitCall (full_message batch) (tree_below d (gs_fs s)), PushCall (auth cfg)]"
  using assms by (auto simp: publish_def Let_def split: prod.splits option.splits) (metis fst_conv option.distinct(1))+

lemma export_works:
  assumes "git_works G cfg (gs_state s, gs_fs s)" "queue_inv w" "worker_ok w" "range_order ord"
  shows "\<exists>d cl es s'. exportBatch G ord cfg (bw_pending w) s = (None, s') \<and> inv_tree (fs_path d) cl \<and>
     ord (bw_pending w) = map render_op es \<and> (\<forall>e \<in> set es. inv_op e) \<and> distinct (map fst es) \<and>
     gs_log s' = gs_log s @ [CloneCall (clone_options cfg),
       CommitCall (full_message (bw_pending w)) (tree_below d (fold (op_update (fs_path d)) es cl)),
       PushCall (auth cfg)]"
proof -
  obtain d t1 g2 cl where t: "g_mkdirtemp G (gs_state s, gs_fs s) = (Inr d, t1)" "rooted_path d"
    "g_clone G d (clone_options cfg) t1 = (None, g2, cl)" "inv_tree (fs_path d) cl"
    and p: "\<forall>u. g_open G d u = None \<and> g_worktree G d u = None \<and> fst (g_add G d u) = None \<and>
      g_status G d u = Inr False \<and> (\<forall>m. fst (g_commit G d m u) = None) \<and> (\<forall>a. fst (g_push G d a u) = None)"
    using assms(1) unfolding git_works_def by blast
  obtain es where es: "ord (bw_pending w) = map render_op es" "\<forall>e \<in> set es. inv_op e" "distinct (map fst es)"
    using range_ops[OF assms(2-4)] by blast
  define s2 where "s2 = s \<lparr> gs_state := g2, gs_log := gs_log s @ [CloneCall (clone_options cfg)],
      gs_fs := fold (op_update (fs_path d)) es cl \<rparr>"
  define r where "r = publish G cfg (bw_pending w) d s2"
  have e: "export_in_dir G cfg (ord (bw_pending w)) (bw_pending w) d (s \<lparr> gs_state := fst t1, gs_fs := snd t1 \<rparr>) = r"
    using t(3) apply_ops_update[OF t(2,4) es(2)] by (simp add: export_in_dir_def es(1) r_def s2_def Let_def)
  have l: "fst r = None" "gs_log (snd r) = gs_log s2 @
      [CommitCall (full_message (bw_pending w)) (tree_below d (gs_fs s2)), PushCall (auth cfg)]"
    using publish_works[OF p, of cfg "bw_pending w" s2] by (simp_all add: r_def)
  obtain td fd where t1: "t1 = (td, fd)" by (cases t1)
  have "exportBatch G ord cfg (bw_pending w) s = (None, (snd r) \<lparr> gs_fs := fs_remove_all (fs_path d) (gs_fs (snd r)) \<rparr>)"
    using t(1) e l(1) by (cases r) (simp add: exportBatch_def t1 Let_def)
  then show ?thesis using t(4) es l(2) by (intro exI[of _ d] exI[of _ cl] exI[of _ es]) (simp add: s2_def)
qed

text \<open>After the tick, what was written to \<open>xs\<close> stands in the pushed tree and the queue holds only what came in between.\<close>

lemma tick_publishes:
  assumes "git_works G (bw_cfg w) (gs_state s, gs_fs s)" "queue_inv w" "worker_ok w" "range_order ord"
    "trim_space (GitRepoURL (bw_cfg w)) \<noteq> ''''" "inv_path xs"
    "pending_at w (join_slash (live_elems xs)) = Some \<lparr> pe_kind = opWrite, pe_content = c \<rparr>"
  shows "\<exists>tree s'. flush G ord mid w s = (run_ops mid (w \<lparr> bw_pending := mempty \<rparr>), s') \<and>
     gs_log s' = gs_log s @ [CloneCall (clone_options (bw_cfg w)),
        CommitCall (full_message (bw_pending w)) tree, PushCall (auth (bw_cfg w))] \<and>
     tree (live_elems xs) = Some (File c)"
proof -
  let ?op = "\<lparr> pe_kind = opWrite, pe_content = c \<rparr>"
  obtain d cl es s' where x: "exportBatch G ord (bw_cfg w) (bw_pending w) s = (None, s')" "inv_tree (fs_path d) cl"
    "ord (bw_pending w) = map render_op es" "\<forall>e \<in> set es. inv_op e" "distinct (map fst es)"
    "gs_log s' = gs_log s @ [CloneCall (clone_options (bw_cfg w)),
       CommitCall (full_message (bw_pending w)) (tree_below d (fold (op_update (fs_path d)) es cl)),
       PushCall (auth (bw_cfg w))]"
    using export_works[OF assms(1-4)] by blast
  have ne: "bw_pending w \<noteq> []" using assms(7) by (auto simp: pending_at_def)
  have "(xs, ?op) \<in> set es"
    using queue_entry[OF assms(3,4) x(3,4) assms(6)] assms(7) by blast
  then have "tree_below d (fold (op_update (fs_path d)) es cl) (live_elems xs) = Some (File c)"
    using fold_update_at(1)[OF x(4,5), of xs ?op "fs_path d" cl] op_update_at[OF x(2) assms(6), of ?op]
    by (simp add: tree_below_def)
  then show ?thesis using flush_success[OF ne assms(5) x(1), of mid] x(6) by blast
qed

subsection \<open>The way back\<close>

text \<open>An added path whose file is fetched in full and whose manifest matches the path is applied with its digest.\<close>

lemma serve_added_applied:
  assumes "ParseInventoryExportPath p = Some parsed"
    "FetchGitHubRawFile X C (wh_GitHubToken wh) fullName sha p w = (Inr raw, w1)"
    "MaterialHashFromNormalizedYAML X raw = Inr h" "x_y2j X (firstYAMLDocument raw) = Some j"
    "u_unmarshal U j = Some ob" "manifest_matches U parsed ob"
    "\<And>ob' s. fst (c_patch C ob' fieldOwner True s) = None"
  defines "applied \<equiv> u_set_annotations U (stamped_annotations U ob h) ob"
  shows "\<exists>w2. serve_added X U C wh fullName sha p w = (result_of p ''applied'' NoDetail, w2) \<and>
     w_calls w2 = w_calls w1 @ [PatchCall applied fieldOwner True]"
proof -
  have v: "validatePathManifestIdentity U parsed ob = None" using assms(6) by (simp add: validate_iff)
  obtain s where s: "do_patch C applied fieldOwner True w1 = (None, s)"
    using assms(7)[of applied "w_state w1"] by (cases "do_patch C applied fieldOwner True w1") (auto simp: do_patch_def split: prod.splits)
  then have "w_calls s = w_calls w1 @ [PatchCall applied fieldOwner True]"
    using do_calls(1)[of C applied fieldOwner True w1] by simp
  moreover have "ApplyInventoryYAML X U C parsed raw w1 = (None, s)"
    using assms(3-5) v s by (simp add: ApplyInventoryYAML_def FirstYAMLDocument_def applied_def Let_def)
  ultimately show ?thesis using assms(1,2) by (simp add: serve_added_def)
qed

lemma stamped_applied:
  assumes "unstr_laws U"
  shows "stamped U (u_set_annotations U (stamped_annotations U ob h) ob) h"
proof -
  have "u_annotations U (u_set_annotations U (stamped_annotations U ob h) ob) = Some (stamped_annotations U ob h)"
    by (rule unstr_lawsD[OF assms stamped_not_empty])
  then show ?thesis by (simp add: stamped_def stamped_annotations_def mget_mput)
qed

text \<open>An object with the annotations of another one that carries a digest carries it too.\<close>

lemma stamped_cong: "u_annotations U ob = u_annotations U ob' \<Longrightarrow> stamped U ob h = stamped U ob' h"
  by (simp add: stamped_def)

end
