(* ===== verification/Concurrent.thy ===== *)
theory Concurrent
  imports Cluster
begin

section \<open>Pushes served at the same time\<close>

text \<open>
  \<open>net/http\<close> serves every request in a goroutine of its own, so the two loops of \<open>ServeHTTP\<close> interleave with those
  of other requests between any two calls. A \<open>thread\<close> is an authentic push being served: the paths it has left, the file it
  has fetched and not yet applied, its results so far. \<open>thread_step\<close> goes to the next call that leaves the
  process; \<open>net_step\<close> lets any thread take a step. The lemmas show that one thread alone computes what
  \<open>ServeHTTP\<close> computes, and that a thread whose objects no other thread names does to them what it does alone.
\<close>

record thread =
  th_push :: push_paths
  th_added :: "string list"
  th_fetched :: "(string \<times> ParsedInventoryPath \<times> bytes) option"
  th_removed :: "string list"
  th_ra :: "webhookResult list"
  th_rr :: "webhookResult list"

definition thread_of :: "push_paths \<Rightarrow> thread" where
  "thread_of push = \<lparr> th_push = push, th_added = ps_AddedModified push, th_fetched = None,
     th_removed = ps_Removed push, th_ra = [], th_rr = [] \<rparr>"

definition thread_step ::
  "ext \<Rightarrow> 'o unstr \<Rightarrow> ('o, 'w) client \<Rightarrow> WebhookHandler \<Rightarrow> thread \<Rightarrow> ('o, 'w) world \<Rightarrow> (thread \<times> ('o, 'w) world) option" where
  "thread_step X U C h t w =
     (case th_fetched t of
        Some (p, parsed, raw) \<Rightarrow>
          (let (ar, w1) = ApplyInventoryYAML X U C parsed raw w;
               r = (case ar of Some e \<Rightarrow> result_of p ''error'' (ApplyFailed e) | None \<Rightarrow> result_of p ''applied'' NoDetail)
           in Some (t \<lparr> th_fetched := None, th_ra := th_ra t @ [r] \<rparr>, w1))
      | None \<Rightarrow>
          (case th_added t of
             p # ps \<Rightarrow>
               (case ParseInventoryExportPath p of
                  None \<Rightarrow> Some (t \<lparr> th_added := ps, th_ra := th_ra t @ [result_of p ''ignored'' PathNotInventory] \<rparr>, w)
                | Some parsed \<Rightarrow>
                    (let (fr, w1) = FetchGitHubRawFile X C (wh_GitHubToken h) (ps_FullName (th_push t)) (ps_HeadSHA (th_push t)) p w
                     in case fr of
                          Inl e \<Rightarrow> Some (t \<lparr> th_added := ps, th_ra := th_ra t @ [result_of p ''error'' (FetchFailed e)] \<rparr>, w1)
                        | Inr raw \<Rightarrow> Some (t \<lparr> th_added := ps, th_fetched := Some (p, parsed, raw) \<rparr>, w1)))
           | [] \<Rightarrow>
               (case th_removed t of
                  q # qs \<Rightarrow>
                    (let (r, w1) = serve_removed U C q w
                     in Some (t \<lparr> th_removed := qs, th_rr := th_rr t @ [r] \<rparr>, w1))
                | [] \<Rightarrow> None)))"

definition thread_done :: "thread \<Rightarrow> bool" where
  "thread_done t = (th_fetched t = None \<and> th_added t = [] \<and> th_removed t = [])"

lemma thread_done_iff: "thread_step X U C h t w = None \<longleftrightarrow> thread_done t"
  by (auto simp: thread_step_def thread_done_def Let_def split: option.split list.split prod.split sum.split)

inductive net_step ::
  "ext \<Rightarrow> 'o unstr \<Rightarrow> ('o, 'w) client \<Rightarrow> WebhookHandler \<Rightarrow> thread list \<times> ('o, 'w) world \<Rightarrow> thread list \<times> ('o, 'w) world \<Rightarrow> bool"
  for X U C h where
  step: "i < length ts \<Longrightarrow> thread_step X U C h (ts ! i) w = Some (t, w') \<Longrightarrow>
    net_step X U C h (ts, w) (ts[i := t], w')"

inductive_cases net_stepE: "net_step X U C h (ts, w) s"

subsection \<open>One thread alone\<close>

lemma thread_added:
  assumes "serve_added X U C h (ps_FullName (th_push t)) (ps_HeadSHA (th_push t)) p w = (r, w')"
    and "th_fetched t = None" "th_added t = p # ps"
  shows "(net_step X U C h)\<^sup>*\<^sup>* ([t], w) ([t \<lparr> th_added := ps, th_ra := th_ra t @ [r] \<rparr>], w')"
proof -
  let ?F = "FetchGitHubRawFile X C (wh_GitHubToken h) (ps_FullName (th_push t)) (ps_HeadSHA (th_push t)) p w"
  let ?t = "t \<lparr> th_added := ps, th_ra := th_ra t @ [r] \<rparr>"
  have one: "(net_step X U C h) ([u], v) ([u'], v')" if "thread_step X U C h u v = Some (u', v')" for u v u' v'
    using net_step.step[of 0 "[u]" X U C h v u' v'] that by simp
  obtain fr w1 where f: "?F = (fr, w1)" by fastforce
  show ?thesis
  proof (cases "\<exists>parsed raw. ParseInventoryExportPath p = Some parsed \<and> fr = Inr raw")
    case False
    then have "thread_step X U C h t w = Some (?t, w')"
      using assms f by (auto simp: thread_step_def serve_added_def split: option.splits sum.splits)
    then show ?thesis using one by blast
  next
    case True
    then obtain parsed raw where p: "ParseInventoryExportPath p = Some parsed" "fr = Inr raw" by blast
    obtain ar w2 where a: "ApplyInventoryYAML X U C parsed raw w1 = (ar, w2)" by fastforce
    let ?u = "t \<lparr> th_added := ps, th_fetched := Some (p, parsed, raw) \<rparr>"
    have "thread_step X U C h t w = Some (?u, w1)"
      using assms f p by (simp add: thread_step_def)
    moreover have "thread_step X U C h ?u w1 = Some (?t, w')"
      using assms f p a by (auto simp: thread_step_def serve_added_def split: option.splits)
    ultimately show ?thesis using one by (meson converse_rtranclp_into_rtranclp r_into_rtranclp)
  qed
qed

lemma thread_added_all:
  assumes "serve_each (serve_added X U C h (ps_FullName (th_push t)) (ps_HeadSHA (th_push t))) ps w = (rs, w')"
    and "th_fetched t = None" "th_added t = ps"
  shows "(net_step X U C h)\<^sup>*\<^sup>* ([t], w) ([t \<lparr> th_added := [], th_ra := th_ra t @ rs \<rparr>], w')"
  using assms
proof (induction ps arbitrary: t w rs)
  case Nil
  have e: "t \<lparr> th_added := [], th_ra := th_ra t @ rs \<rparr> = t" using Nil by (cases t) simp
  show ?case unfolding e using Nil by simp
next
  case (Cons p ps)
  obtain r w1 rs1 where s: "serve_added X U C h (ps_FullName (th_push t)) (ps_HeadSHA (th_push t)) p w = (r, w1)"
    "serve_each (serve_added X U C h (ps_FullName (th_push t)) (ps_HeadSHA (th_push t))) ps w1 = (rs1, w')" "rs = r # rs1"
    using Cons.prems(1) by (auto split: prod.splits)
  let ?t = "t \<lparr> th_added := ps, th_ra := th_ra t @ [r] \<rparr>"
  have "(net_step X U C h)\<^sup>*\<^sup>* ([?t], w1) ([?t \<lparr> th_added := [], th_ra := th_ra ?t @ rs1 \<rparr>], w')"
    by (rule Cons.IH) (use s(2) Cons.prems(2) in simp_all)
  then show ?case
    using thread_added[OF s(1) Cons.prems(2,3)] s(3) by (simp add: rtranclp_trans)
qed

lemma thread_removed_all:
  assumes "serve_each (serve_removed U C) qs w = (rs, w')"
    and "th_fetched t = None" "th_added t = []" "th_removed t = qs"
  shows "(net_step X U C h)\<^sup>*\<^sup>* ([t], w) ([t \<lparr> th_removed := [], th_rr := th_rr t @ rs \<rparr>], w')"
  using assms
proof (induction qs arbitrary: t w rs)
  case Nil
  have e: "t \<lparr> th_removed := [], th_rr := th_rr t @ rs \<rparr> = t" using Nil by (cases t) simp
  show ?case unfolding e using Nil by simp
next
  case (Cons q qs)
  obtain r w1 rs1 where s: "serve_removed U C q w = (r, w1)" "serve_each (serve_removed U C) qs w1 = (rs1, w')" "rs = r # rs1"
    using Cons.prems(1) by (auto split: prod.splits)
  let ?t = "t \<lparr> th_removed := qs, th_rr := th_rr t @ [r] \<rparr>"
  have "net_step X U C h ([t], w) ([?t], w1)"
    using net_step.step[of 0 "[t]" X U C h w ?t w1] s(1) Cons.prems(2-4) by (simp add: thread_step_def)
  moreover have "(net_step X U C h)\<^sup>*\<^sup>* ([?t], w1) ([?t \<lparr> th_removed := [], th_rr := th_rr ?t @ rs1 \<rparr>], w')"
    by (rule Cons.IH) (use s(2) Cons.prems(2,3) in simp_all)
  ultimately show ?case using s(3) by (simp add: converse_rtranclp_into_rtranclp)
qed

text \<open>Alone, a thread ends with the results and the world of \<open>ServeHTTP\<close>.\<close>

lemma thread_alone:
  assumes "authentic h r body" "ParseGitHubPushPaths body = Inr push" "ServeHTTP X U C h r w = (resp, w')"
  shows "\<exists>t. (net_step X U C h)\<^sup>*\<^sup>* ([thread_of push], w) ([t], w') \<and> thread_done t \<and> resp = RespOK (th_ra t @ th_rr t)"
proof -
  let ?f = "serve_added X U C h (ps_FullName push) (ps_HeadSHA push)"
  obtain ra w1 where a: "serve_each ?f (ps_AddedModified push) w = (ra, w1)" by fastforce
  obtain rr w2 where b: "serve_each (serve_removed U C) (ps_Removed push) w1 = (rr, w2)" by fastforce
  let ?t = "thread_of push" and ?t1 = "(thread_of push) \<lparr> th_added := [], th_ra := ra \<rparr>"
  have "(net_step X U C h)\<^sup>*\<^sup>* ([?t], w) ([?t1], w1)"
    using thread_added_all[of X U C h ?t "ps_AddedModified push" w ra w1] a by (simp add: thread_of_def)
  moreover have "(net_step X U C h)\<^sup>*\<^sup>* ([?t1], w1) ([?t1 \<lparr> th_removed := [], th_rr := rr \<rparr>], w2)"
    using thread_removed_all[OF b, of ?t1 X h] by (simp add: thread_of_def)
  ultimately have "(net_step X U C h)\<^sup>*\<^sup>* ([?t], w) ([?t1 \<lparr> th_removed := [], th_rr := rr \<rparr>], w2)"
    by (rule rtranclp_trans)
  moreover have "resp = RespOK (ra @ rr)" "w' = w2"
    using assms(3) by (simp_all add: serve_authentic[OF assms(1)] assms(2) a b)
  ultimately show ?thesis
    by (intro exI[of _ "?t1 \<lparr> th_removed := [], th_rr := rr \<rparr>"]) (simp add: thread_done_def thread_of_def)
qed

text \<open>A thread among others may run as if it were alone.\<close>

lemma net_steps_among:
  assumes "(net_step X U C h)\<^sup>*\<^sup>* ([t], w) s" "i < length ts" "ts ! i = t"
  shows "\<exists>t'. fst s = [t'] \<and> (net_step X U C h)\<^sup>*\<^sup>* (ts, w) (ts[i := t'], snd s)"
  using assms(1)
proof induction
  case base
  have "ts[i := t] = ts" using assms(3) by auto
  then show ?case by simp
next
  case (step s s')
  then obtain u where u: "s = ([u], snd s)" "(net_step X U C h)\<^sup>*\<^sup>* (ts, w) (ts[i := u], snd s)"
    by (metis prod.collapse)
  from step(2) obtain u' where u': "thread_step X U C h u (snd s) = Some (u', snd s')" "fst s' = [u']"
    by (subst (asm) u(1)) (auto elim!: net_stepE)
  have "net_step X U C h (ts[i := u], snd s) ((ts[i := u])[i := u'], snd s')"
    by (rule net_step.step) (use u'(1) assms(2) in simp_all)
  then show ?case using u(2) u'(2) by (simp add: rtranclp.rtrancl_into_rtrancl)
qed

subsection \<open>Threads side by side\<close>

text \<open>What a path asks for at one object, as a function of what is stored there.\<close>

definition put_at ::
  "ext \<Rightarrow> 'o unstr \<Rightarrow> ('o, 'w) cluster \<Rightarrow> WebhookHandler \<Rightarrow> push_paths \<Rightarrow> object_key \<Rightarrow> string \<Rightarrow> 'o option \<Rightarrow> 'o option" where
  "put_at X U K h push key p v = put_path X U K h push p (\<lambda>_. v) key"

definition del_at :: "('o, 'w) cluster \<Rightarrow> object_key \<Rightarrow> string \<Rightarrow> 'o option \<Rightarrow> 'o option" where
  "del_at K key p v = del_path K p (\<lambda>_. v) key"

lemma put_at: "put_path X U K h push p M key = put_at X U K h push key p (M key)"
  by (simp add: put_at_def put_path_def put_object_def split: option.split)

lemma del_at: "del_path K p M key = del_at K key p (M key)"
  by (simp add: del_at_def del_path_def del_object_def split: option.split)

lemma fold_put_at: "fold (put_path X U K h push) ps M key = fold (put_at X U K h push key) ps (M key)"
  by (induction ps arbitrary: M) (simp_all add: put_at)

lemma fold_del_at: "fold (del_path K) ps M key = fold (del_at K key) ps (M key)"
  by (induction ps arbitrary: M) (simp_all add: del_at)

lemma outcomes_snoc:
  "v \<in> outcomes g rs v0 \<Longrightarrow> v' = g (wres_Path r) v \<or> wres_Status r = ''error'' \<and> v' = v \<Longrightarrow> v' \<in> outcomes g (rs @ [r]) v0"
  by (induction rs arbitrary: v0) (auto split: if_splits)

text \<open>A thread and one object: what it has done to the object is an outcome of the paths it has served.\<close>

definition thread_ok :: "('o, 'w) cluster \<Rightarrow> WebhookHandler \<Rightarrow> push_paths \<Rightarrow> thread \<Rightarrow> bool" where
  "thread_ok K h push t \<longleftrightarrow> th_push t = push \<and>
     map wres_Path (th_ra t) @ (case th_fetched t of None \<Rightarrow> [] | Some (p, _) \<Rightarrow> [p]) @ th_added t = ps_AddedModified push \<and>
     map wres_Path (th_rr t) @ th_removed t = ps_Removed push \<and>
     (th_rr t \<noteq> [] \<longrightarrow> th_added t = [] \<and> th_fetched t = None) \<and>
     (\<forall>p parsed raw. th_fetched t = Some (p, parsed, raw) \<longrightarrow>
        ParseInventoryExportPath p = Some parsed \<and> raw = pushed_file K h push p)"

definition thread_did ::
  "ext \<Rightarrow> 'o unstr \<Rightarrow> ('o, 'w) cluster \<Rightarrow> WebhookHandler \<Rightarrow> object_key \<Rightarrow> 'o option \<Rightarrow> thread \<Rightarrow> 'o option \<Rightarrow> bool" where
  "thread_did X U K h key v0 t v =
     (\<exists>v1 \<in> outcomes (put_at X U K h (th_push t) key) (th_ra t) v0. v \<in> outcomes (del_at K key) (th_rr t) v1)"

lemma thread_did_added:
  assumes "thread_did X U K h key v0 t v" "th_rr t = []"
    and "v' = put_at X U K h (th_push t) key (wres_Path r) v \<or> wres_Status r = ''error'' \<and> v' = v"
    and "th_push t' = th_push t" "th_ra t' = th_ra t @ [r]" "th_rr t' = []"
  shows "thread_did X U K h key v0 t' v'"
  using assms outcomes_snoc[where g = "put_at X U K h (th_push t) key" and r = r and v = v and v' = v']
  by (simp add: thread_did_def)

lemma thread_did_removed:
  assumes "thread_did X U K h key v0 t v"
    and "v' = del_at K key (wres_Path r) v \<or> wres_Status r = ''error'' \<and> v' = v"
    and "th_push t' = th_push t" "th_ra t' = th_ra t" "th_rr t' = th_rr t @ [r]"
  shows "thread_did X U K h key v0 t' v'"
  using assms outcomes_snoc[where g = "del_at K key" and r = r and v = v and v' = v']
  by (auto simp: thread_did_def)

text \<open>A step keeps what belongs to the thread and moves each object of the cluster along.\<close>

definition moves ::
  "ext \<Rightarrow> 'o unstr \<Rightarrow> ('o, 'w) cluster \<Rightarrow> WebhookHandler \<Rightarrow> push_paths \<Rightarrow> thread \<Rightarrow> ('o, 'w) world \<Rightarrow> thread \<Rightarrow> ('o, 'w) world \<Rightarrow> bool" where
  "moves X U K h push t w t' w' \<longleftrightarrow> thread_ok K h push t' \<and>
     (\<forall>key v0. thread_did X U K h key v0 t (cl_at K (w_state w) key) \<longrightarrow> thread_did X U K h key v0 t' (cl_at K (w_state w') key)) \<and>
     (\<forall>key. (\<forall>p \<in> set (ps_AddedModified push @ ps_Removed push). path_object p \<noteq> Some key) \<longrightarrow>
        cl_at K (w_state w') key = cl_at K (w_state w) key)"

text \<open>The effect of a step on the whole cluster: none, an added path is served, or a removed one.\<close>

definition serves_path ::
  "(string \<Rightarrow> 'm \<Rightarrow> 'm) \<Rightarrow> webhookResult \<Rightarrow> 'm \<Rightarrow> 'm \<Rightarrow> bool" where
  "serves_path g r M M' = (M' = g (wres_Path r) M \<or> wres_Status r = ''error'' \<and> M' = M)"

definition step_effect ::
  "ext \<Rightarrow> 'o unstr \<Rightarrow> ('o, 'w) cluster \<Rightarrow> WebhookHandler \<Rightarrow> push_paths \<Rightarrow> thread \<Rightarrow> 'o objects \<Rightarrow> thread \<Rightarrow> 'o objects \<Rightarrow> bool" where
  "step_effect X U K h push t M t' M' \<longleftrightarrow> thread_ok K h push t' \<and>
     (th_ra t' = th_ra t \<and> th_rr t' = th_rr t \<and> M' = M \<or>
      (\<exists>r. th_rr t = [] \<and> th_ra t' = th_ra t @ [r] \<and> th_rr t' = [] \<and> wres_Path r \<in> set (ps_AddedModified push) \<and>
         serves_path (put_path X U K h push) r M M') \<or>
      (\<exists>r. th_ra t' = th_ra t \<and> th_rr t' = th_rr t @ [r] \<and> wres_Path r \<in> set (ps_Removed push) \<and>
         serves_path (del_path K) r M M'))"

lemma effect_moves:
  assumes "key_laws U" "thread_ok K h push t"
    and e: "step_effect X U K h push t (cl_at K (w_state w)) t' (cl_at K (w_state w'))"
  shows "moves X U K h push t w t' w'"
proof -
  let ?M = "cl_at K (w_state w)" and ?M' = "cl_at K (w_state w')"
  have ok: "thread_ok K h push t'" using e by (simp add: step_effect_def)
  have push: "th_push t = push" "th_push t' = th_push t" using assms(2) ok by (simp_all add: thread_ok_def)
  consider (same) "th_ra t' = th_ra t" "th_rr t' = th_rr t" "?M' = ?M"
    | (added) r where "th_rr t = []" "th_ra t' = th_ra t @ [r]" "th_rr t' = []"
        "wres_Path r \<in> set (ps_AddedModified push)" "serves_path (put_path X U K h push) r ?M ?M'"
    | (removed) r where "th_ra t' = th_ra t" "th_rr t' = th_rr t @ [r]"
        "wres_Path r \<in> set (ps_Removed push)" "serves_path (del_path K) r ?M ?M'"
    using e unfolding step_effect_def by blast
  then show ?thesis
  proof cases
    case same
    then show ?thesis using ok push by (simp add: moves_def thread_did_def)
  next
    case added
    have at: "?M' key = put_at X U K h (th_push t) key (wres_Path r) (?M key) \<or> wres_Status r = ''error'' \<and> ?M' key = ?M key" for key
      using added(5) push by (auto simp: serves_path_def put_at)
    have "?M' key = ?M key" if "path_object (wres_Path r) \<noteq> Some key" for key
      using added(5) put_path_other[OF assms(1) that] by (auto simp: serves_path_def)
    then show ?thesis
      using ok added(4) thread_did_added[OF _ added(1) at push(2) added(2,3)] unfolding moves_def by auto
  next
    case removed
    have at: "?M' key = del_at K key (wres_Path r) (?M key) \<or> wres_Status r = ''error'' \<and> ?M' key = ?M key" for key
      using removed(4) by (auto simp: serves_path_def del_at)
    have "?M' key = ?M key" if "path_object (wres_Path r) \<noteq> Some key" for key
      using removed(4) del_path_other[OF that] by (auto simp: serves_path_def)
    then show ?thesis
      using ok removed(3) thread_did_removed[OF _ at push(2) removed(1,2)] unfolding moves_def by auto
  qed
qed

lemma thread_ok_added:
  assumes "thread_ok K h push t" "th_fetched t = None" "th_added t = p # ps"
  shows "p \<in> set (ps_AddedModified push)" "th_rr t = []" "th_push t = push"
    and "wres_Path r = p \<Longrightarrow> thread_ok K h push (t \<lparr> th_added := ps, th_ra := th_ra t @ [r] \<rparr>)"
    and "ParseInventoryExportPath p = Some parsed \<Longrightarrow>
      thread_ok K h push (t \<lparr> th_added := ps, th_fetched := Some (p, parsed, pushed_file K h push p) \<rparr>)"
proof -
  have "map wres_Path (th_ra t) @ p # ps = ps_AddedModified push" using assms by (simp add: thread_ok_def)
  then show "p \<in> set (ps_AddedModified push)" by (metis in_set_conv_decomp)
qed (use assms in \<open>auto simp: thread_ok_def\<close>)

lemma step_added:
  assumes L: "cluster_laws U C K" and ok: "thread_ok K h push t"
    and t: "th_fetched t = None" "th_added t = p # ps"
    and s: "thread_step X U C h t w = Some (t', w')"
  shows "step_effect X U K h push t (cl_at K (w_state w)) t' (cl_at K (w_state w'))"
proof (cases "ParseInventoryExportPath p")
  note A = thread_ok_added[OF ok t]
  case None
  let ?r = "result_of p ''ignored'' PathNotInventory"
  have r: "wres_Path ?r = p" by (simp add: result_of_def)
  have t': "t' = t \<lparr> th_added := ps, th_ra := th_ra t @ [?r] \<rparr>" "w' = w"
    using s t None by (simp_all add: thread_step_def)
  show ?thesis
    using A(1,2) A(4)[OF r] None by (auto simp: step_effect_def serves_path_def t' r put_path_def)
next
  note A = thread_ok_added[OF ok t]
  case (Some parsed)
  obtain fr w1 where f: "FetchGitHubRawFile X C (wh_GitHubToken h) (ps_FullName push) (ps_HeadSHA push) p w = (fr, w1)"
    by fastforce
  note F = fetched_file[OF L f]
  show ?thesis
  proof (cases fr)
    case (Inl e)
    let ?r = "result_of p ''error'' (FetchFailed e)"
    have r: "wres_Path ?r = p" "wres_Status ?r = ''error''" by (simp_all add: result_of_def)
    have t': "t' = t \<lparr> th_added := ps, th_ra := th_ra t @ [?r] \<rparr>" "w' = w1"
      using s t Some f Inl A(3) by (simp_all add: thread_step_def)
    show ?thesis
      using A(1,2) A(4)[OF r(1)] F(1) by (auto simp: step_effect_def serves_path_def t' r)
  next
    case (Inr raw)
    have raw: "raw = pushed_file K h push p" using F(2) Inr by (simp add: pushed_file_def)
    have t': "t' = t \<lparr> th_added := ps, th_fetched := Some (p, parsed, raw) \<rparr>" "w' = w1"
      using s t Some f Inr A(3) by (simp_all add: thread_step_def)
    show ?thesis using A(5)[OF Some] F(1) by (simp add: step_effect_def t' raw)
  qed
qed

lemma step_fetched:
  assumes L: "cluster_laws U C K" and ok: "thread_ok K h push t"
    and q: "th_fetched t = Some (p, parsed, raw)" and s: "thread_step X U C h t w = Some (t', w')"
  shows "step_effect X U K h push t (cl_at K (w_state w)) t' (cl_at K (w_state w'))"
proof -
  have f: "ParseInventoryExportPath p = Some parsed" "raw = pushed_file K h push p" "th_rr t = []"
    using ok q by (auto simp: thread_ok_def)
  have "map wres_Path (th_ra t) @ p # th_added t = ps_AddedModified push" using ok q by (simp add: thread_ok_def)
  then have pin: "p \<in> set (ps_AddedModified push)" by (metis in_set_conv_decomp)
  obtain ar w1 where a: "ApplyInventoryYAML X U C parsed raw w = (ar, w1)" by fastforce
  define r where "r = (case ar of Some e \<Rightarrow> result_of p ''error'' (ApplyFailed e) | None \<Rightarrow> result_of p ''applied'' NoDetail)"
  have t': "t' = t \<lparr> th_fetched := None, th_ra := th_ra t @ [r] \<rparr>" "w' = w1"
    using s q a by (simp_all add: thread_step_def r_def)
  have r: "wres_Path r = p" "ar \<noteq> None \<Longrightarrow> wres_Status r = ''error''"
    by (auto simp: r_def result_of_def split: option.split)
  have "serves_path (put_path X U K h push) r (cl_at K (w_state w)) (cl_at K (w_state w'))"
    using apply_cluster[OF L a] r f(1,2) t'(2) by (auto simp: serves_path_def put_path_def)
  moreover have "thread_ok K h push t'" using ok q r(1) f(3) by (auto simp: thread_ok_def t')
  ultimately show ?thesis using r(1) f(3) pin by (auto simp: step_effect_def t')
qed

lemma step_removed:
  assumes L: "cluster_laws U C K" "key_laws U" and ok: "thread_ok K h push t"
    and t: "th_fetched t = None" "th_added t = []" and s: "thread_step X U C h t w = Some (t', w')"
  shows "step_effect X U K h push t (cl_at K (w_state w)) t' (cl_at K (w_state w'))"
proof -
  obtain q qs where q: "th_removed t = q # qs" using s t by (cases "th_removed t") (simp_all add: thread_step_def)
  have "map wres_Path (th_rr t) @ q # qs = ps_Removed push" using ok q by (simp add: thread_ok_def)
  then have qin: "q \<in> set (ps_Removed push)" by (metis in_set_conv_decomp)
  obtain r w1 where d: "serve_removed U C q w = (r, w1)" by fastforce
  have r: "wres_Path r = q" using serve_removed_path[of U C q w] d by simp
  have t': "t' = t \<lparr> th_removed := qs, th_rr := th_rr t @ [r] \<rparr>" "w' = w1"
    using s t q d by (simp_all add: thread_step_def)
  have "thread_ok K h push t'" using ok t q r by (auto simp: thread_ok_def t')
  then show ?thesis
    using serve_removed_cluster[OF L d] r qin by (auto simp: step_effect_def serves_path_def t')
qed

lemma thread_step_effect:
  assumes "cluster_laws U C K" "key_laws U" "thread_ok K h push t" "thread_step X U C h t w = Some (t', w')"
  shows "step_effect X U K h push t (cl_at K (w_state w)) t' (cl_at K (w_state w'))"
proof (cases "th_fetched t")
  case (Some x)
  then show ?thesis using step_fetched[OF assms(1,3) _ assms(4)] by (cases x) auto
next
  case None
  then show ?thesis
    using step_added[OF assms(1,3) None _ assms(4)] step_removed[OF assms(1-3) None _ assms(4)]
    by (cases "th_added t") auto
qed

lemma thread_step_moves:
  assumes "cluster_laws U C K" "key_laws U" "thread_ok K h push t" "thread_step X U C h t w = Some (t', w')"
  shows "moves X U K h push t w t' w'"
  by (rule effect_moves[OF assms(2,3) thread_step_effect[OF assms]])

subsection \<open>Any interleaving\<close>

definition names :: "push_paths \<Rightarrow> object_key \<Rightarrow> bool" where
  "names push key = (\<exists>p \<in> set (ps_AddedModified push @ ps_Removed push). path_object p = Some key)"

definition only_names :: "push_paths list \<Rightarrow> nat \<Rightarrow> object_key \<Rightarrow> bool" where
  "only_names pushes i key = (\<forall>j < length pushes. j \<noteq> i \<longrightarrow> \<not> names (pushes ! j) key)"

definition net_inv ::
  "ext \<Rightarrow> 'o unstr \<Rightarrow> ('o, 'w) cluster \<Rightarrow> WebhookHandler \<Rightarrow> push_paths list \<Rightarrow> 'o objects \<Rightarrow> thread list \<times> ('o, 'w) world \<Rightarrow> bool" where
  "net_inv X U K h pushes M s \<longleftrightarrow> length (fst s) = length pushes \<and>
     (\<forall>i < length pushes. thread_ok K h (pushes ! i) (fst s ! i)) \<and>
     (\<forall>key. \<forall>i < length pushes. only_names pushes i key \<longrightarrow>
        thread_did X U K h key (M key) (fst s ! i) (cl_at K (w_state (snd s)) key)) \<and>
     (\<forall>key. (\<forall>j < length pushes. \<not> names (pushes ! j) key) \<longrightarrow> cl_at K (w_state (snd s)) key = M key)"

lemma net_invD:
  assumes "net_inv X U K h pushes M (ts, w)"
  shows "length ts = length pushes" "i < length pushes \<Longrightarrow> thread_ok K h (pushes ! i) (ts ! i)"
    "i < length pushes \<Longrightarrow> only_names pushes i key \<Longrightarrow> thread_did X U K h key (M key) (ts ! i) (cl_at K (w_state w) key)"
    "\<forall>j < length pushes. \<not> names (pushes ! j) key \<Longrightarrow> cl_at K (w_state w) key = M key"
  using assms unfolding net_inv_def fst_conv snd_conv by blast+

lemma net_inv_init: "net_inv X U K h pushes (cl_at K (w_state w)) (map thread_of pushes, w)"
  by (simp add: net_inv_def thread_ok_def thread_of_def thread_did_def)

lemma net_inv_step:
  assumes L: "cluster_laws U C K" "key_laws U"
    and s: "net_step X U C h s s'" and inv: "net_inv X U K h pushes M s"
  shows "net_inv X U K h pushes M s'"
  using s
proof cases
  case (step j ts w t w')
  note D = net_invD[OF inv[unfolded step(1)]]
  have len: "length ts = length pushes" and ok: "\<And>i. i < length pushes \<Longrightarrow> thread_ok K h (pushes ! i) (ts ! i)"
    by (rule D(1), rule D(2))
  have j: "j < length pushes" using step(3) len by simp
  have m: "moves X U K h (pushes ! j) (ts ! j) w t w'"
    by (rule thread_step_moves[OF L ok[OF j] step(4)])
  have okt: "thread_ok K h (pushes ! j) t"
    and did: "\<And>key v0. thread_did X U K h key v0 (ts ! j) (cl_at K (w_state w) key) \<Longrightarrow>
      thread_did X U K h key v0 t (cl_at K (w_state w') key)"
    using m unfolding moves_def by blast+
  have same: "cl_at K (w_state w') key = cl_at K (w_state w) key" if "\<not> names (pushes ! j) key" for key
    using m that unfolding moves_def names_def by blast
  have "thread_did X U K h key (M key) (ts[j := t] ! i) (cl_at K (w_state w') key)"
    if i: "i < length pushes" and o: "only_names pushes i key" for i key
  proof -
    have d: "thread_did X U K h key (M key) (ts ! i) (cl_at K (w_state w) key)"
      by (rule D(3)[OF i o])
    show ?thesis
    proof (cases "i = j")
      case True
      then show ?thesis using did d len i by simp
    next
      case False
      then have "\<not> names (pushes ! j) key" using o j by (auto simp: only_names_def)
      then show ?thesis using d same False by simp
    qed
  qed
  moreover have "thread_ok K h (pushes ! i) (ts[j := t] ! i)" if "i < length pushes" for i
    using ok[OF that] okt len that by (cases "i = j") simp_all
  moreover have "cl_at K (w_state w') key = M key" if "\<forall>i < length pushes. \<not> names (pushes ! i) key" for key
    using same[of key] that j D(4)[OF that] by simp
  ultimately show ?thesis unfolding net_inv_def step(2) fst_conv snd_conv length_list_update using len by blast
qed

lemma net_inv_steps:
  assumes "cluster_laws U C K" "key_laws U" "(net_step X U C h)\<^sup>*\<^sup>* s s'" "net_inv X U K h pushes M s"
  shows "net_inv X U K h pushes M s'"
  using assms(3,4) by induction (use net_inv_step[OF assms(1,2)] in blast)+

lemma thread_did_ok:
  assumes "thread_did X U K h key (M key) t v" "thread_ok K h push t" "thread_done t"
    and "\<forall>r \<in> set (th_ra t @ th_rr t). wres_Status r \<noteq> ''error''"
  shows "v = fold (del_path K) (ps_Removed push) (fold (put_path X U K h push) (ps_AddedModified push) M) key"
proof -
  have p: "map wres_Path (th_ra t) = ps_AddedModified push" "map wres_Path (th_rr t) = ps_Removed push" "th_push t = push"
    using assms(2,3) by (simp_all add: thread_ok_def thread_done_def)
  have "v = fold (del_at K key) (map wres_Path (th_rr t)) (fold (put_at X U K h push key) (map wres_Path (th_ra t)) (M key))"
    using assms(1,4) p(3) by (simp add: thread_did_def outcomes_ok)
  then show ?thesis by (simp add: fold_del_at fold_put_at p)
qed

lemma concurrent_served:
  assumes "cluster_laws U C K" "key_laws U" "(net_step X U C h)\<^sup>*\<^sup>* (map thread_of pushes, w) (ts, w')"
    and "i < length pushes" "only_names pushes i key" "thread_done (ts ! i)"
    and "\<forall>r \<in> set (th_ra (ts ! i) @ th_rr (ts ! i)). wres_Status r \<noteq> ''error''"
  shows "cl_at K (w_state w') key = fold (del_path K) (ps_Removed (pushes ! i))
    (fold (put_path X U K h (pushes ! i)) (ps_AddedModified (pushes ! i)) (cl_at K (w_state w))) key"
proof -
  have inv: "net_inv X U K h pushes (cl_at K (w_state w)) (ts, w')"
    by (rule net_inv_steps[OF assms(1-3) net_inv_init])
  then have "thread_did X U K h key (cl_at K (w_state w) key) (ts ! i) (cl_at K (w_state w') key)"
    "thread_ok K h (pushes ! i) (ts ! i)"
    using net_invD[OF inv] assms(4,5) by blast+
  then show ?thesis using assms(6,7) by (rule thread_did_ok)
qed

lemma concurrent_other:
  assumes "cluster_laws U C K" "key_laws U" "(net_step X U C h)\<^sup>*\<^sup>* (map thread_of pushes, w) (ts, w')"
    and "\<forall>j < length pushes. \<not> names (pushes ! j) key"
  shows "cl_at K (w_state w') key = cl_at K (w_state w) key"
  by (rule net_invD(4)[OF net_inv_steps[OF assms(1-3) net_inv_init] assms(4)])

end
