(* ===== verification/Serial.thy ===== *)
theory Serial
  imports Concurrent
begin

section \<open>Concurrent pushes are serialisable\<close>

text \<open>
  Whatever the interleaving of the calls, the cluster is one that serving the same paths one after the other, each at
  once, can leave. A history lists the served paths in the order in which their results were recorded;
  \<open>replays\<close> are the clusters a history allows. Pushes that name the same object are covered: the history says in
  which order they reached it.
\<close>

datatype served = Put (server: nat) (result: webhookResult) | Del (server: nat) (result: webhookResult)

primrec served_op ::
  "ext \<Rightarrow> 'o unstr \<Rightarrow> ('o, 'w) cluster \<Rightarrow> WebhookHandler \<Rightarrow> push_paths list \<Rightarrow> served \<Rightarrow> string \<Rightarrow> 'o objects \<Rightarrow> 'o objects" where
  "served_op X U K h pushes (Put i r) = put_path X U K h (pushes ! i)"
| "served_op X U K h pushes (Del i r) = del_path K"

fun replays ::
  "ext \<Rightarrow> 'o unstr \<Rightarrow> ('o, 'w) cluster \<Rightarrow> WebhookHandler \<Rightarrow> push_paths list \<Rightarrow> served list \<Rightarrow> 'o objects \<Rightarrow> 'o objects set" where
  "replays X U K h pushes [] M = {M}"
| "replays X U K h pushes (x # tr) M =
     (\<Union>M' \<in> {M'. serves_path (served_op X U K h pushes x) (result x) M M'}. replays X U K h pushes tr M')"

lemma replays_snoc:
  "N \<in> replays X U K h pushes tr M \<Longrightarrow> serves_path (served_op X U K h pushes x) (result x) N N' \<Longrightarrow>
   N' \<in> replays X U K h pushes (tr @ [x]) M"
  by (induction tr arbitrary: M) auto

text \<open>A history without errors has one replay.\<close>

lemma serves_path_ok: "wres_Status r \<noteq> ''error'' \<Longrightarrow> Collect (serves_path g r M) = {g (wres_Path r) M}"
  by (auto simp: serves_path_def)

lemma replays_ok:
  "\<forall>x \<in> set tr. wres_Status (result x) \<noteq> ''error'' \<Longrightarrow>
   replays X U K h pushes tr M = {fold (\<lambda>x. served_op X U K h pushes x (wres_Path (result x))) tr M}"
  by (induction tr arbitrary: M) (simp_all add: serves_path_ok)

text \<open>A history agrees with the threads when each finds its own results in it, in its own order.\<close>

definition agrees :: "served list \<Rightarrow> thread list \<Rightarrow> bool" where
  "agrees tr ts \<longleftrightarrow> (\<forall>x \<in> set tr. server x < length ts) \<and>
     (\<forall>i < length ts. filter (\<lambda>x. server x = i) tr = map (Put i) (th_ra (ts ! i)) @ map (Del i) (th_rr (ts ! i)))"

lemma agrees_snoc:
  assumes "agrees tr ts" "i < length ts" "server x = i"
    and "map (Put i) (th_ra t) @ map (Del i) (th_rr t) =
         (map (Put i) (th_ra (ts ! i)) @ map (Del i) (th_rr (ts ! i))) @ [x]"
  shows "agrees (tr @ [x]) (ts[i := t])"
  using assms by (auto simp: agrees_def nth_list_update)

lemma agrees_same:
  assumes "agrees tr ts" "th_ra t = th_ra (ts ! i)" "th_rr t = th_rr (ts ! i)"
  shows "agrees tr (ts[i := t])"
proof -
  have "th_ra (ts[i := t] ! j) = th_ra (ts ! j) \<and> th_rr (ts[i := t] ! j) = th_rr (ts ! j)" if "j < length ts" for j
    using assms(2,3) that by (cases "j = i") simp_all
  then show ?thesis using assms(1) by (simp add: agrees_def)
qed

definition serial_inv ::
  "ext \<Rightarrow> 'o unstr \<Rightarrow> ('o, 'w) cluster \<Rightarrow> WebhookHandler \<Rightarrow> push_paths list \<Rightarrow> 'o objects \<Rightarrow> thread list \<times> ('o, 'w) world \<Rightarrow> bool" where
  "serial_inv X U K h pushes M s \<longleftrightarrow> length (fst s) = length pushes \<and>
     (\<forall>i < length pushes. thread_ok K h (pushes ! i) (fst s ! i)) \<and>
     (\<exists>tr. agrees tr (fst s) \<and> cl_at K (w_state (snd s)) \<in> replays X U K h pushes tr M)"

lemma serial_inv_init: "serial_inv X U K h pushes (cl_at K (w_state w)) (map thread_of pushes, w)"
  unfolding serial_inv_def
  by (intro conjI exI[of _ "[]"]) (simp_all add: agrees_def thread_ok_def thread_of_def)

lemma serial_inv_step:
  assumes L: "cluster_laws U C K" "key_laws U"
    and s: "net_step X U C h s s'" and inv: "serial_inv X U K h pushes M s"
  shows "serial_inv X U K h pushes M s'"
  using s
proof cases
  case (step i ts w t w')
  let ?M = "cl_at K (w_state w)" and ?M' = "cl_at K (w_state w')"
  obtain tr where len: "length ts = length pushes" and ok: "\<forall>j < length pushes. thread_ok K h (pushes ! j) (ts ! j)"
    and tr: "agrees tr ts" "?M \<in> replays X U K h pushes tr M"
    using inv unfolding serial_inv_def step(1) fst_conv snd_conv by blast
  have i: "i < length ts" "thread_ok K h (pushes ! i) (ts ! i)" using step(3) ok len by simp_all
  note e = thread_step_effect[OF L i(2) step(4)]
  have "\<exists>tr'. agrees tr' (ts[i := t]) \<and> ?M' \<in> replays X U K h pushes tr' M"
    using e unfolding step_effect_def
  proof (elim conjE disjE exE)
    assume "th_ra t = th_ra (ts ! i)" "th_rr t = th_rr (ts ! i)" "?M' = ?M"
    then show ?thesis using agrees_same[OF tr(1)] tr(2) by auto
  next
    fix r assume a: "th_rr (ts ! i) = []" "th_ra t = th_ra (ts ! i) @ [r]" "th_rr t = []"
      and v: "serves_path (put_path X U K h (pushes ! i)) r ?M ?M'"
    have "agrees (tr @ [Put i r]) (ts[i := t])" by (rule agrees_snoc[OF tr(1) i(1)]) (simp_all add: a)
    moreover have "?M' \<in> replays X U K h pushes (tr @ [Put i r]) M"
      by (rule replays_snoc[OF tr(2)]) (simp add: v)
    ultimately show ?thesis by blast
  next
    fix r assume a: "th_ra t = th_ra (ts ! i)" "th_rr t = th_rr (ts ! i) @ [r]"
      and v: "serves_path (del_path K) r ?M ?M'"
    have "agrees (tr @ [Del i r]) (ts[i := t])" by (rule agrees_snoc[OF tr(1) i(1)]) (simp_all add: a)
    moreover have "?M' \<in> replays X U K h pushes (tr @ [Del i r]) M"
      by (rule replays_snoc[OF tr(2)]) (simp add: v)
    ultimately show ?thesis by blast
  qed
  moreover have "thread_ok K h (pushes ! j) (ts[i := t] ! j)" if "j < length pushes" for j
    using e ok len that by (cases "j = i") (simp_all add: step_effect_def)
  ultimately show ?thesis
    unfolding serial_inv_def step(2) fst_conv snd_conv length_list_update using len by blast
qed

lemma serial_inv_steps:
  assumes "cluster_laws U C K" "key_laws U" "(net_step X U C h)\<^sup>*\<^sup>* s s'" "serial_inv X U K h pushes M s"
  shows "serial_inv X U K h pushes M s'"
  using assms(3,4) by induction (use serial_inv_step[OF assms(1,2)] in blast)+

lemma thread_ok_paths:
  "thread_ok K h push t \<Longrightarrow> thread_done t \<Longrightarrow>
   map wres_Path (th_ra t) = ps_AddedModified push \<and> map wres_Path (th_rr t) = ps_Removed push"
  by (simp add: thread_ok_def thread_done_def)

lemma serialised:
  assumes "cluster_laws U C K" "key_laws U" "(net_step X U C h)\<^sup>*\<^sup>* (map thread_of pushes, w) (ts, w')"
  shows "\<exists>tr. agrees tr ts \<and> cl_at K (w_state w') \<in> replays X U K h pushes tr (cl_at K (w_state w)) \<and>
    (\<forall>i < length pushes. thread_done (ts ! i) \<longrightarrow>
       map wres_Path (th_ra (ts ! i)) = ps_AddedModified (pushes ! i) \<and>
       map wres_Path (th_rr (ts ! i)) = ps_Removed (pushes ! i))"
proof -
  have "serial_inv X U K h pushes (cl_at K (w_state w)) (ts, w')"
    by (rule serial_inv_steps[OF assms serial_inv_init])
  then show ?thesis unfolding serial_inv_def fst_conv snd_conv using thread_ok_paths by blast
qed

end
