(* ===== verification/PropsCluster.thy ===== *)
theory PropsCluster
  imports PropsSync Publish Serial
begin

section \<open>Properties of the cluster under pushes\<close>

text \<open>
  What a run of the webhook leaves on the cluster: path by path what the push asks for, nothing else, the same
  again when the push is delivered twice; and one push for which this is not what Git holds. The witnesses
  evaluate the signed pushes of \<open>PropsSync\<close> on the cluster \<open>k0\<close>.
\<close>

subsection \<open>The sample pushes\<close>

lemma push0_paths [simp]: "ps_AddedModified (push0 r) = [path0]" "ps_Removed (push0 r) = [r]"
  by (simp_all add: push0_def)

lemma pushed_file0: "pushed_file k0 handler0 (push0 r) path0 = yaml0"
proof -
  have "length yaml0 \<le> 300" unfolding yaml0_def app0_def by code_simp
  then show ?thesis
    by (simp add: pushed_file_def k0_def files0_def push0_def raw_request_def mget_def maxRawFile_def)
qed

definition applied0 :: "json gomap" where
  "applied0 = u_set_annotations u0 (stamped_annotations u0 app0 hash0) app0"

lemma incoming0: "incoming x0 u0 parsed0 yaml0 = Some applied0"
proof -
  have "u_unmarshal u0 yaml0 = Some app0" by (simp add: u0_def yaml0_decodes)
  then show ?thesis by (simp add: incoming_def yaml0_hash app0_doc matches0 applied0_def)
qed

lemma parse_same_yml: "ParseInventoryExportPath same_yml = Some parsed0"
  unfolding same_yml_def by code_simp

lemma parse_other_yml: "ParseInventoryExportPath other_yml = Some (parsed0 \<lparr> pp_Name := ''old'' \<rparr>)"
  unfolding other_yml_def by code_simp

lemma path_objects0:
  "path_object path0 = Some (''Application'', ''argocd'', ''web'')"
  "path_object same_yml = Some (''Application'', ''argocd'', ''web'')"
  "path_object other_yml = Some (''Application'', ''argocd'', ''old'')"
  by (simp_all add: path_object_def parse_path0 parse_same_yml parse_other_yml parsed0_def ArgoKindFromPlural_def)

lemma key_applied0: "ob_key u0 applied0 = (''Application'', ''argocd'', ''web'')"
  using incoming_key[OF u0_keys parse_path0 incoming0] by (simp add: path_objects0)

lemma serve_added0:
  "\<exists>w2. serve_added x0 u0 c0 handler0 ''acme/inv'' ''c0ffee'' path0 w = (result_of path0 ''applied'' NoDetail, w2)"
proof -
  have f: "FetchGitHubRawFile x0 c0 (wh_GitHubToken handler0) ''acme/inv'' ''c0ffee'' path0 w =
      (Inr yaml0, snd (FetchGitHubRawFile x0 c0 (wh_GitHubToken handler0) ''acme/inv'' ''c0ffee'' path0 w))"
    using pushed_file0[of other_yml]
    by (simp add: FetchGitHubRawFile_def do_http_def c0_def k0_def files0_def push0_def pushed_file_def raw_request_def
        handler0_def mget_def read_limited_def Let_def)
  have u: "u_unmarshal u0 yaml0 = Some app0" by (simp add: u0_def yaml0_decodes)
  have d: "x_y2j x0 (firstYAMLDocument yaml0) = Some yaml0" by (simp add: app0_doc)
  have "\<exists>w2. serve_added x0 u0 c0 handler0 ''acme/inv'' ''c0ffee'' path0 w = (result_of path0 ''applied'' NoDetail, w2) \<and>
      w_calls w2 = w_calls (snd (FetchGitHubRawFile x0 c0 (wh_GitHubToken handler0) ''acme/inv'' ''c0ffee'' path0 w)) @
        [PatchCall (u_set_annotations u0 (stamped_annotations u0 app0 hash0) app0) fieldOwner True]"
    by (rule serve_added_applied[OF parse_path0 f yaml0_hash d u matches0]) (simp add: c0_def)
  then show ?thesis by blast
qed


lemma serve_removed0:
  assumes "sample_path r"
  shows "\<exists>d w2. serve_removed u0 c0 r w = (result_of r ''deleted'' d, w2)"
  using assms
  by (auto simp: serve_removed_def sample_path_def parse_same_yml parse_other_yml parsed0_def ArgoKindFromPlural_def
      do_delete_def c0_def split: option.splits)

lemma serve0:
  assumes "sample_path r"
  shows "\<exists>d w'. ServeHTTP x0 u0 c0 handler0 (request0 r) w =
    (RespOK [result_of path0 ''applied'' NoDetail, result_of r ''deleted'' d], w')"
proof -
  obtain w1 where a: "serve_added x0 u0 c0 handler0 ''acme/inv'' ''c0ffee'' path0 w = (result_of path0 ''applied'' NoDetail, w1)"
    using serve_added0 by blast
  obtain d w2 where "serve_removed u0 c0 r w1 = (result_of r ''deleted'' d, w2)"
    using serve_removed0[OF assms] by blast
  then have "ServeHTTP x0 u0 c0 handler0 (request0 r) w =
      (RespOK [result_of path0 ''applied'' NoDetail, result_of r ''deleted'' d], w2)"
    using serve_authentic[OF request0_push(1)[OF assms], of x0 u0 c0 w] a
    by (simp add: request0_push(2)[OF assms]) (simp add: push0_def)
  then show ?thesis by blast
qed

subsection \<open>What a push does to the cluster\<close>

text \<open>C5: The cluster follows the push. An authentic push is answered with one result per path, the added
  and modified paths first, each list in sorted order. The cluster afterwards is the one before with every path
  served in this order: for an added path that names an object and whose file is the manifest of that object,
  the manifest with the digest as its stamp merged into the object, for a removed path the object deleted; a
  path reported as an error has been served or has had no effect.\<close>

theorem cluster_follows_push:
  assumes "cluster_laws U C K" "key_laws U" "authentic h r body" "ParseGitHubPushPaths body = Inr push"
  shows "\<exists>ra rr M. fst (ServeHTTP X U C h r w) = RespOK (ra @ rr) \<and>
    map wres_Path ra = ps_AddedModified push \<and> map wres_Path rr = ps_Removed push \<and>
    sorted (ps_AddedModified push) \<and> sorted (ps_Removed push) \<and>
    M \<in> outcomes (put_path X U K h push) ra (cl_at K (w_state w)) \<and>
    cl_at K (w_state (snd (ServeHTTP X U C h r w))) \<in> outcomes (del_path K) rr M"
proof -
  have "sorted (ps_AddedModified push)" "sorted (ps_Removed push)"
    using assms(4) unfolding parse_push_iff by auto
  then show ?thesis using serve_cluster[OF assms, of X w] by blast
qed

theorem cluster_follows_push_witness:
  "cl_at k0 (w_state (snd (ServeHTTP x0 u0 c0 handler0 (request0 other_yml) world0)))
     (''Application'', ''argocd'', ''web'') = Some applied0"
proof -
  let ?key = "(''Application'', ''argocd'', ''web'')" and ?s = "ServeHTTP x0 u0 c0 handler0 (request0 other_yml) world0"
  obtain d w' where s: "?s = (RespOK [result_of path0 ''applied'' NoDetail, result_of other_yml ''deleted'' d], w')"
    using serve0 sample_paths(1) by blast
  from cluster_follows_push[OF k0_laws u0_keys request0_push[OF sample_paths(1)], of x0 world0]
  obtain ra rr M where o: "RespOK [result_of path0 ''applied'' NoDetail, result_of other_yml ''deleted'' d] = RespOK (ra @ rr)"
    "map wres_Path ra = [path0]"
    "M \<in> outcomes (put_path x0 u0 k0 handler0 (push0 other_yml)) ra (cl_at k0 (w_state world0))"
    "cl_at k0 (w_state w') \<in> outcomes (del_path k0) rr M"
    unfolding s fst_conv snd_conv push0_paths by (elim exE conjE)
  obtain z where z: "ra = [z]" using o(2) by (cases ra) auto
  have "ra = [result_of path0 ''applied'' NoDetail]" "rr = [result_of other_yml ''deleted'' d]"
    using o(1) by (simp_all add: z)
  then have "cl_at k0 (w_state w') = del_path k0 other_yml (put_path x0 u0 k0 handler0 (push0 other_yml) path0 Map.empty)"
    using o(3,4) by (simp add: result_of_def world0_def k0_def)
  moreover have "put_path x0 u0 k0 handler0 (push0 other_yml) path0 Map.empty ?key = Some applied0"
    by (simp add: put_path_def parse_path0 pushed_file0 incoming0 put_object_def key_applied0) (simp add: k0_def)
  ultimately show ?thesis using s by (simp add: del_path_other path_objects0)
qed

text \<open>C24: The sender of a push can read what became of it. The answer to an authentic push is a JSON document
  from which a client reads, for every path of the push in the order they were served, the path, its status and
  the detail the handler composed, byte for byte; a path that was ignored or failed always has a detail. The
  texts of outside errors that a detail quotes have to be valid UTF-8 (the encoder replaces what is not); the
  paths of the push are valid because the JSON decoder repairs what it reads.\<close>

theorem reply_lists_every_result:
  assumes "authentic h r body" "ParseGitHubPushPaths body = Inr push"
    "\<forall>p \<in> set (ps_AddedModified push) \<union> set (ps_Removed push). utf8_ok (cause p)"
  shows "\<exists>rs rep. fst (ServeHTTP X U C h r w) = RespOK rs \<and>
    rep = reply pr cause bad (fst (ServeHTTP X U C h r w)) \<and>
    rp_Status rep = 200 \<and> rp_Headers rep = [(''Content-Type'', ''application/json'')] \<and>
    read_reply (rp_Body rep) = Some (map (\<lambda>x. (wres_Path x, wres_Status x, result_text pr cause x)) rs) \<and>
    map wres_Path rs = ps_AddedModified push @ ps_Removed push \<and>
    (\<forall>x \<in> set rs. wres_Status x \<in> {''applied'', ''deleted'', ''ignored'', ''error''} \<and>
       (wres_Status x \<in> {''ignored'', ''error''} \<longrightarrow> result_text pr cause x \<noteq> ''''))"
proof -
  obtain rs where rs: "fst (ServeHTTP X U C h r w) = RespOK rs"
    "map wres_Path rs = ps_AddedModified push @ ps_Removed push"
    using serve_results_paths[OF assms(1,2)] by blast
  have e: "explained x" if "x \<in> set rs" for x
    using serve_explained[OF assms(1,2) rs(1)] that by blast
  have "wres_Path x \<in> set (ps_AddedModified push) \<union> set (ps_Removed push)" if "x \<in> set rs" for x
    using that rs(2) by (metis image_eqI set_append set_map)
  then have "\<forall>x \<in> set rs. printable_result pr cause x"
    using e assms(3) push_paths_utf8(3)[OF assms(2)] by (blast intro: explained_printable)
  then have "read_reply (rp_Body (reply pr cause bad (RespOK rs))) =
      Some (map (\<lambda>x. (wres_Path x, wres_Status x, result_text pr cause x)) rs)"
    by (simp add: reply_def results_reply_def read_reply_body)
  moreover have "\<forall>x \<in> set rs. wres_Status x \<in> {''applied'', ''deleted'', ''ignored'', ''error''} \<and>
      (wres_Status x \<in> {''ignored'', ''error''} \<longrightarrow> result_text pr cause x \<noteq> '''')"
    using e by (auto simp: explained_def result_text_def detail_text_empty)
  ultimately show ?thesis using rs by (simp add: reply_def results_reply_def)
qed

theorem reply_lists_every_result_witness:
  "\<exists>t. read_reply (rp_Body (reply (\<lambda>u. False) (\<lambda>p. ''connection refused'') ''''
      (fst (ServeHTTP x0 u0 c0 handler0 (request0 other_yml) world0)))) =
    Some [(path0, ''applied'', ''''), (other_yml, ''deleted'', t)]"
proof -
  obtain d w' where s: "ServeHTTP x0 u0 c0 handler0 (request0 other_yml) world0 =
      (RespOK [result_of path0 ''applied'' NoDetail, result_of other_yml ''deleted'' d], w')"
    using serve0 sample_paths(1) by blast
  have "\<forall>p \<in> set (ps_AddedModified (push0 other_yml)) \<union> set (ps_Removed (push0 other_yml)).
      utf8_ok ((\<lambda>p. ''connection refused'') p)" by simp
  from reply_lists_every_result[OF request0_push[OF sample_paths(1)] this,
      of x0 u0 c0 world0 "\<lambda>u. False" "''''"]
  show ?thesis
    unfolding s fst_conv by (auto simp: result_of_def result_text_def detail_text_def)
qed

text \<open>C12: Whatever a request carries and whatever fails on the way, an object that no path of an authentic
  push names is left as it is. Objects of other kinds than Application and ApplicationSet are never named.\<close>

theorem other_objects_are_untouched:
  assumes "cluster_laws U C K" "key_laws U"
    and "\<forall>body push p. authentic h r body \<longrightarrow> ParseGitHubPushPaths body = Inr push \<longrightarrow>
       p \<in> set (ps_AddedModified push @ ps_Removed push) \<longrightarrow> path_object p \<noteq> Some key"
  shows "cl_at K (w_state (snd (ServeHTTP X U C h r w))) key = cl_at K (w_state w) key"
proof (cases "\<exists>body push. authentic h r body \<and> ParseGitHubPushPaths body = Inr push")
  case True
  then obtain body push where b: "authentic h r body" "ParseGitHubPushPaths body = Inr push" by blast
  have n: "path_object p \<noteq> Some key" if "p \<in> set (ps_AddedModified push @ ps_Removed push)" for p
    using assms(3) b that by blast
  obtain ra rr M where o: "map wres_Path ra = ps_AddedModified push" "map wres_Path rr = ps_Removed push"
    "M \<in> outcomes (put_path X U K h push) ra (cl_at K (w_state w))"
    "cl_at K (w_state (snd (ServeHTTP X U C h r w))) \<in> outcomes (del_path K) rr M"
    using serve_cluster[OF assms(1,2) b, of X w] by blast
  have "wres_Path x \<in> set (ps_AddedModified push)" if "x \<in> set ra" for x
    unfolding o(1)[symmetric] using that by simp
  then have "M key = cl_at K (w_state w) key"
    by (intro outcomes_other[OF o(3)] put_path_other[OF assms(2)] n) simp
  moreover have "wres_Path x \<in> set (ps_Removed push)" if "x \<in> set rr" for x
    unfolding o(2)[symmetric] using that by simp
  then have "cl_at K (w_state (snd (ServeHTTP X U C h r w))) key = M key"
    by (intro outcomes_other[OF o(4)] del_path_other n) simp
  ultimately show ?thesis by simp
next
  case False
  have "snd (ServeHTTP X U C h r w) = w"
  proof (cases "\<exists>body. authentic h r body")
    case True
    then obtain body where b: "authentic h r body" by blast
    then obtain e where "ParseGitHubPushPaths body = Inl e"
      using False by (cases "ParseGitHubPushPaths body") auto
    then show ?thesis using serve_authentic[OF b, of X U C w] by simp
  qed (use serve_rejects(1) in blast)
  then show ?thesis by simp
qed

lemma path_object_kind: "path_object p = Some (kind, ns, n) \<Longrightarrow> argo_kind kind"
  by (auto simp: path_object_def ArgoKindFromPlural_def argo_kind_def split: option.splits if_splits)

theorem other_objects_are_untouched_witness:
  "cl_at k0 (w_state (snd (ServeHTTP x0 u0 c0 handler0 (request0 same_yml)
      \<lparr> w_state = [(''Secret'', ''argocd'', ''web'') \<mapsto> app0], w_calls = [] \<rparr>))) (''Secret'', ''argocd'', ''web'') = Some app0"
proof -
  have "path_object p \<noteq> Some (''Secret'', ''argocd'', ''web'')" for p
    using path_object_kind[of p "''Secret''" "''argocd''" "''web''"] by (auto simp: argo_kind_def)
  then show ?thesis
    using other_objects_are_untouched[OF k0_laws u0_keys, of handler0 "request0 same_yml" "(''Secret'', ''argocd'', ''web'')" x0
      "\<lparr> w_state = [(''Secret'', ''argocd'', ''web'') \<mapsto> app0], w_calls = [] \<rparr>"]
    by (simp add: k0_def)
qed



lemma results0_ok: "\<forall>x \<in> set [result_of path0 ''applied'' NoDetail, result_of r ''deleted'' d]. wres_Status x \<noteq> ''error''"
  by (simp add: result_of_def)


text \<open>C25: Concurrent pushes do not disturb each other. However the calls of any number of pushes served at the
  same time interleave, an object that only one of them names ends up as if this push had been served
  alone from the start, provided this push meets no error, whether or not the others have ended or failed.\<close>

theorem concurrent_pushes_are_isolated:
  assumes "cluster_laws U C K" "key_laws U"
    and "(net_step X U C h)\<^sup>*\<^sup>* (map thread_of pushes, w) (ts, w')" "i < length pushes" "only_names pushes i key"
    and "thread_done (ts ! i)" "\<forall>x \<in> set (th_ra (ts ! i) @ th_rr (ts ! i)). wres_Status x \<noteq> ''error''"
    and "authentic h r body" "ParseGitHubPushPaths body = Inr (pushes ! i)"
    and "ServeHTTP X U C h r w = (RespOK rs, w1)" "\<forall>x \<in> set rs. wres_Status x \<noteq> ''error''"
  shows "cl_at K (w_state w') key = cl_at K (w_state w1) key"
  unfolding serve_cluster_ok[OF assms(1,2,8-11)] by (rule concurrent_served[OF assms(1-7)])

definition quiet :: push_paths where
  "quiet = \<lparr> ps_FullName = ''acme/inv'', ps_HeadSHA = ''c0ffee'', ps_AddedModified = [''README.md''], ps_Removed = [] \<rparr>"

theorem concurrent_pushes_are_isolated_witness:
  "\<exists>ts w'. (net_step x0 u0 c0 handler0)\<^sup>*\<^sup>* (map thread_of [quiet, push0 other_yml], world0) (ts, w') \<and>
     thread_done (ts ! 1) \<and>
     w_state w' (''Application'', ''argocd'', ''web'') =
       w_state (snd (ServeHTTP x0 u0 c0 handler0 (request0 other_yml) world0)) (''Application'', ''argocd'', ''web'')"
proof -
  let ?ps = "[quiet, push0 other_yml]" and ?key = "(''Application'', ''argocd'', ''web'')"
  obtain d w1 where s: "ServeHTTP x0 u0 c0 handler0 (request0 other_yml) world0 =
      (RespOK [result_of path0 ''applied'' NoDetail, result_of other_yml ''deleted'' d], w1)"
    using serve0[OF sample_paths(1)] by blast
  obtain t where t: "(net_step x0 u0 c0 handler0)\<^sup>*\<^sup>* ([thread_of (push0 other_yml)], world0) ([t], w1)" "thread_done t"
    "RespOK [result_of path0 ''applied'' NoDetail, result_of other_yml ''deleted'' d] = RespOK (th_ra t @ th_rr t)"
    using thread_alone[OF request0_push[OF sample_paths(1)] s] by blast
  from net_steps_among[OF t(1), of 1 "map thread_of ?ps"]
  have run: "(net_step x0 u0 c0 handler0)\<^sup>*\<^sup>* (map thread_of ?ps, world0) ((map thread_of ?ps)[1 := t], w1)" by simp
  have ti: "((map thread_of ?ps)[1 := t]) ! 1 = t" by simp
  have ok: "\<forall>x \<in> set (th_ra t @ th_rr t). wres_Status x \<noteq> ''error''"
    using results0_ok t(3) unfolding web_response.inject by metis
  have "ParseInventoryExportPath ''README.md'' = None" by code_simp
  then have "path_object ''README.md'' = None" by (simp add: path_object_def)
  then have o: "only_names ?ps 1 ?key"
    by (simp add: only_names_def names_def quiet_def less_Suc_eq)
  have "cl_at k0 (w_state w1) ?key = cl_at k0 (w_state w1) ?key"
    by (rule concurrent_pushes_are_isolated[OF k0_laws u0_keys run _ o _ _ request0_push(1)[OF sample_paths(1)] _ s results0_ok])
       (use t(2) ok request0_push(2)[OF sample_paths(1)] in \<open>simp_all add: ti\<close>)
  then show ?thesis using run t(2) ti by (metis s snd_conv)
qed


text \<open>Two pushes of the same object, one after the other.\<close>

lemma two_pushes:
  "\<exists>t1 t2 w'. (net_step x0 u0 c0 handler0)\<^sup>*\<^sup>* (map thread_of [push0 same_yml, push0 other_yml], world0) ([t1, t2], w') \<and>
     thread_done t1 \<and> thread_done t2"
proof -
  obtain d1 w1 where s1: "ServeHTTP x0 u0 c0 handler0 (request0 same_yml) world0 =
      (RespOK [result_of path0 ''applied'' NoDetail, result_of same_yml ''deleted'' d1], w1)"
    using serve0[OF sample_paths(2)] by blast
  obtain d2 w2 where s2: "ServeHTTP x0 u0 c0 handler0 (request0 other_yml) w1 =
      (RespOK [result_of path0 ''applied'' NoDetail, result_of other_yml ''deleted'' d2], w2)"
    using serve0[OF sample_paths(1)] by blast
  let ?ts = "map thread_of [push0 same_yml, push0 other_yml]"
  obtain t1 where t1: "(net_step x0 u0 c0 handler0)\<^sup>*\<^sup>* ([thread_of (push0 same_yml)], world0) ([t1], w1)" "thread_done t1"
    using thread_alone[OF request0_push[OF sample_paths(2)] s1] by blast
  obtain t2 where t2: "(net_step x0 u0 c0 handler0)\<^sup>*\<^sup>* ([thread_of (push0 other_yml)], w1) ([t2], w2)" "thread_done t2"
    using thread_alone[OF request0_push[OF sample_paths(1)] s2] by blast
  have "(net_step x0 u0 c0 handler0)\<^sup>*\<^sup>* (?ts, world0) ([t1, thread_of (push0 other_yml)], w1)"
    using net_steps_among[OF t1(1), of 0 ?ts] by simp
  moreover have "(net_step x0 u0 c0 handler0)\<^sup>*\<^sup>* ([t1, thread_of (push0 other_yml)], w1) ([t1, t2], w2)"
    using net_steps_among[OF t2(1), of 1 "[t1, thread_of (push0 other_yml)]"] by simp
  ultimately show ?thesis using t1(2) t2(2) by (meson rtranclp_trans)
qed


text \<open>C40: A push that gives a file the other suffix, \<open>.yml\<close> for \<open>.yaml\<close> or the reverse, deletes the object:
  the new path is served first and applied, then the old path, which names the same object, deletes it.\<close>

theorem respelled_file_deletes_its_object:
  assumes "cluster_laws U C K" "key_laws U" "authentic h r body" "ParseGitHubPushPaths body = Inr push"
    and "ServeHTTP X U C h r w = (RespOK rs, w')" "\<forall>x \<in> set rs. wres_Status x \<noteq> ''error''"
    and "\<And>ob. cl_bury K ob = None" "exportable (kind, ns, n)"
    and "a = ''inventory/'' @ ArgoPluralKind X kind @ ''/'' @ ns @ ''/'' @ n @ ''.yaml''"
    and "b = ''inventory/'' @ ArgoPluralKind X kind @ ''/'' @ ns @ ''/'' @ n @ ''.yml''"
    and "a \<in> set (ps_AddedModified push) \<and> b \<in> set (ps_Removed push) \<or>
         b \<in> set (ps_AddedModified push) \<and> a \<in> set (ps_Removed push)"
  shows "path_object a = Some (kind, ns, n) \<and> path_object b = Some (kind, ns, n) \<and>
    cl_at K (w_state w') (kind, ns, n) = None"
proof -
  have p: "path_object a = Some (kind, ns, n)" "path_object b = Some (kind, ns, n)"
    using ep.dec_enc[OF assms(8), of X] path_object_yml[OF assms(8), of X]
    by (simp_all add: assms(9,10) export_path_def)
  have "q \<in> set (ps_Removed push) \<Longrightarrow> path_object q = Some (kind, ns, n) \<Longrightarrow>
      cl_at K (w_state w') (kind, ns, n) = None" for q
    unfolding serve_cluster_ok[OF assms(1-6)] by (rule fold_del_gone(2)[OF assms(7)])
  then show ?thesis using p assms(11) by blast
qed

theorem respelled_file_deletes_its_object_witness:
  "\<exists>d w'. ServeHTTP x0 u0 c0 handler0 (request0 same_yml) world0 =
      (RespOK [result_of path0 ''applied'' NoDetail, result_of same_yml ''deleted'' d], w') \<and>
    w_state w' (''Application'', ''argocd'', ''web'') = None"
proof -
  obtain d w' where s: "ServeHTTP x0 u0 c0 handler0 (request0 same_yml) world0 =
      (RespOK [result_of path0 ''applied'' NoDetail, result_of same_yml ''deleted'' d], w')"
    using serve0[OF sample_paths(2)] by blast
  have e: "exportable (''Application'', ''argocd'', ''web'')" by code_simp
  have k: "cl_bury k0 ob = None" for ob by (simp add: k0_def)
  have m: "path0 \<in> set (ps_AddedModified (push0 same_yml)) \<and> same_yml \<in> set (ps_Removed (push0 same_yml)) \<or>
      same_yml \<in> set (ps_AddedModified (push0 same_yml)) \<and> path0 \<in> set (ps_Removed (push0 same_yml))"
    by simp
  have "cl_at k0 (w_state w') (''Application'', ''argocd'', ''web'') = None"
    using respelled_file_deletes_its_object[OF k0_laws u0_keys request0_push[OF sample_paths(2)] s results0_ok k e _ _ m]
    by (simp add: path0_def same_yml_def)
  then show ?thesis using s by (auto simp: k0_def)
qed


text \<open>Nothing orders the pushes: whatever was applied before, also from a newer commit, a push that is served without
  error leaves an object it adds as the file of its own commit says. A push that is delivered late takes the
  object back.\<close>

lemma late_push_wins:
  assumes "cluster_laws U C K" "key_laws U" "authentic h r body" "ParseGitHubPushPaths body = Inr push" "names_once push"
    and "ServeHTTP X U C h r w = (RespOK rs, w')" "\<forall>x \<in> set rs. wres_Status x \<noteq> ''error''"
    and "p \<in> set (ps_AddedModified push)" "ParseInventoryExportPath p = Some parsed"
    and "incoming X U parsed (pushed_file K h push p) = Some ob"
  shows "cl_at K (w_state w') (ob_key U ob) = Some (cl_merge K ob (cl_at K (w_state w) (ob_key U ob)))"
proof (rule pushed_object[OF assms(1-4,6-10)])
  show "\<forall>q \<in> set (ps_AddedModified push @ ps_Removed push). path_object q = Some (ob_key U ob) \<longrightarrow> q = p"
    using assms(5,8) incoming_key[OF assms(2,9,10)] unfolding names_once_def
    by (metis UnI1 option.distinct(1) set_append)
qed

end
