(* ===== verification/GoFlag.thy ===== *)
theory GoFlag
  imports GoPath
begin

section \<open>The command line parser of Go's package flag\<close>

text \<open>
  \<open>FlagSet.parseOne\<close> and \<open>Parse\<close> of the standard library, which the three programs call through
  \<open>flag.Parse\<close>. A flag set is a lookup from names to a kind and a \<open>Set\<close> function on the values the
  flags are bound to. The command line's flag set exits with status 2 on an error and 0 on a request
  for help. The lemmas show that arguments written \<open>--name=value\<close> are set one after the other, that
  parsing stops at the first argument that is not a flag, and that it always ends.
\<close>

datatype flag_kind = BoolFlag | ValueFlag

type_synonym 'f setter = "string \<Rightarrow> 'f \<Rightarrow> 'f option"

type_synonym 'f flagset = "string \<Rightarrow> (flag_kind \<times> 'f setter) option"

datatype flag_error =
    BadFlagSyntax string
  | FlagNotDefined string
  | FlagNeedsArgument string
  | InvalidFlagValue string string
  | HelpRequested

text \<open>\<open>strconv.ParseBool\<close>.\<close>

definition parse_bool :: "string \<Rightarrow> bool option" where
  "parse_bool s =
     (if s \<in> {''1'', ''t'', ''T'', ''TRUE'', ''true'', ''True''} then Some True
      else if s \<in> {''0'', ''f'', ''F'', ''FALSE'', ''false'', ''False''} then Some False
      else None)"

definition string_flag :: "(string \<Rightarrow> 'f \<Rightarrow> 'f) \<Rightarrow> flag_kind \<times> 'f setter" where
  "string_flag upd = (ValueFlag, \<lambda>v f. Some (upd v f))"

definition bool_flag :: "(bool \<Rightarrow> 'f \<Rightarrow> 'f) \<Rightarrow> flag_kind \<times> 'f setter" where
  "bool_flag upd = (BoolFlag, \<lambda>v f. map_option (\<lambda>b. upd b f) (parse_bool v))"

text \<open>The name and the value after the first \<open>=\<close> that is not the first character.\<close>

definition cut_value :: "string \<Rightarrow> string \<times> string option" where
  "cut_value s =
     (let r = tl s in
      if CHR ''='' \<in> set r
      then (take 1 s @ takeWhile (\<lambda>c. c \<noteq> CHR ''='') r, Some (tl (dropWhile (\<lambda>c. c \<noteq> CHR ''='') r)))
      else (s, None))"

datatype 'f flag_step = FlagSeen "string list" 'f | FlagsEnd "string list" | FlagFail flag_error

definition set_flag :: "'f setter \<Rightarrow> string \<Rightarrow> string \<Rightarrow> string list \<Rightarrow> 'f \<Rightarrow> 'f flag_step" where
  "set_flag set_value name v args f =
     (case set_value v f of
        None \<Rightarrow> FlagFail (InvalidFlagValue v name)
      | Some g \<Rightarrow> FlagSeen args g)"

text \<open>A flag whose name and value have been cut, before the remaining arguments.\<close>

definition parse_named ::
  "'f flagset \<Rightarrow> string \<Rightarrow> string option \<Rightarrow> string list \<Rightarrow> 'f \<Rightarrow> 'f flag_step" where
  "parse_named formal name v args f =
     (case formal name of
        None \<Rightarrow> if name = ''help'' \<or> name = ''h'' then FlagFail HelpRequested
                else FlagFail (FlagNotDefined name)
      | Some (BoolFlag, set_value) \<Rightarrow>
          set_flag set_value name (case v of None \<Rightarrow> ''true'' | Some x \<Rightarrow> x) args f
      | Some (ValueFlag, set_value) \<Rightarrow>
          (case v of
             Some x \<Rightarrow> set_flag set_value name x args f
           | None \<Rightarrow> (case args of
                        [] \<Rightarrow> FlagFail (FlagNeedsArgument name)
                      | x # rest \<Rightarrow> set_flag set_value name x rest f)))"

definition parse_one :: "'f flagset \<Rightarrow> string list \<Rightarrow> 'f \<Rightarrow> 'f flag_step" where
  "parse_one formal args f =
     (case args of
        [] \<Rightarrow> FlagsEnd []
      | s # rest \<Rightarrow>
          if length s < 2 \<or> hd s \<noteq> CHR ''-'' then FlagsEnd args
          else if s = ''--'' then FlagsEnd rest
          else
            (let name = drop (if s ! 1 = CHR ''-'' then 2 else 1) s in
             if name = [] \<or> hd name = CHR ''-'' \<or> hd name = CHR ''='' then FlagFail (BadFlagSyntax s)
             else (let (n, v) = cut_value name in parse_named formal n v rest f)))"

lemma parse_one_shorter: "parse_one formal args f = FlagSeen rest g \<Longrightarrow> length rest < length args"
  by (auto simp: parse_one_def parse_named_def set_flag_def Let_def
      split: list.splits if_splits prod.splits option.splits flag_kind.splits)

function parse_flags :: "'f flagset \<Rightarrow> string list \<Rightarrow> 'f \<Rightarrow> flag_error + 'f \<times> string list" where
  "parse_flags formal args f =
     (case parse_one formal args f of
        FlagFail e \<Rightarrow> Inl e
      | FlagsEnd rest \<Rightarrow> Inr (f, rest)
      | FlagSeen rest g \<Rightarrow> parse_flags formal rest g)"
  by auto
termination
  by (relation "measure (\<lambda>(formal, args, f). length args)") (auto dest: parse_one_shorter)

declare parse_flags.simps [simp del]

definition flag_exit :: "flag_error \<Rightarrow> int" where
  "flag_exit e = (if e = HelpRequested then 0 else 2)"

subsection \<open>Arguments of the form --name=value\<close>

definition flag_name :: "string \<Rightarrow> bool" where
  "flag_name n = (n \<noteq> [] \<and> CHR ''='' \<notin> set n \<and> hd n \<noteq> CHR ''-'')"

definition flag_arg :: "string \<times> string \<Rightarrow> string" where
  "flag_arg e = ''--'' @ fst e @ ''='' @ snd e"

lemma cut_value_arg:
  assumes "flag_name n"
  shows "cut_value (n @ ''='' @ v) = (n, Some v)"
proof (cases n)
  case (Cons c r)
  have "CHR ''='' \<notin> set r" using assms Cons by (simp add: flag_name_def)
  then have "takeWhile (\<lambda>c. c \<noteq> CHR ''='') (r @ CHR ''='' # v) = r"
    "dropWhile (\<lambda>c. c \<noteq> CHR ''='') (r @ CHR ''='' # v) = CHR ''='' # v"
    by (induction r) auto
  then show ?thesis by (simp add: Cons cut_value_def Let_def)
qed (use assms in \<open>simp add: flag_name_def\<close>)

lemma parse_one_arg:
  assumes "flag_name n" "formal n = Some (k, set_value)" "set_value v f = Some g"
  shows "parse_one formal (flag_arg (n, v) # rest) f = FlagSeen rest g"
proof -
  obtain c r where n: "n = c # r" "c \<noteq> CHR ''-''" "c \<noteq> CHR ''=''"
    using assms(1) by (cases n) (auto simp: flag_name_def)
  have "parse_one formal (flag_arg (n, v) # rest) f = parse_named formal n (Some v) rest f"
    using n cut_value_arg[OF assms(1), of v] by (simp add: parse_one_def flag_arg_def Let_def)
  then show ?thesis
    using assms(2,3) by (simp add: parse_named_def set_flag_def split: flag_kind.splits)
qed

lemma parse_flags_arg:
  assumes "flag_name n" "formal n = Some (k, set_value)" "set_value v f = Some g"
  shows "parse_flags formal (flag_arg (n, v) # rest) f = parse_flags formal rest g"
  by (simp add: parse_flags.simps[of formal "flag_arg (n, v) # rest"] parse_one_arg[of n formal k set_value v f g, OF assms])

lemma parse_flags_end:
  assumes "args = [] \<or> (\<exists>s rest. args = s # rest \<and> (length s < 2 \<or> hd s \<noteq> CHR ''-''))"
  shows "parse_flags formal args f = Inr (f, args)"
  using assms by (auto simp: parse_flags.simps[of formal args] parse_one_def)

lemma parse_flags_terminator: "parse_flags formal (''--'' # rest) f = Inr (f, rest)"
  by (simp add: parse_flags.simps[of formal "''--'' # rest"] parse_one_def)

lemma parse_bool_texts [simp]: "parse_bool ''true'' = Some True" "parse_bool ''false'' = Some False"
  by (simp_all add: parse_bool_def)

end
