(* ===== verification/Bootstrap.thy ===== *)
theory Bootstrap
  imports GoFlag Reconciler SyncWebhook
begin

section \<open>internal/bootstrap: schemes and the options of a manager\<close>

text \<open>
  The programs build one controller-runtime manager. controller-runtime is not in the repository:
  its calls are an argument \<open>R\<close> over a state \<open>'s\<close>, each with the error it returns, and every call is
  logged in order. A scheme is the list of what was registered in it. \<open>NewManager\<close> translates the
  flags into the options of the manager; the TLS options are functions on a TLS configuration in the
  source and have a name each here. The lemmas give the protocols the servers offer, the certificate
  directories, and when the metrics endpoint asks for authorisation.
\<close>

subsection \<open>Schemes\<close>

datatype scheme_entry =
    TypesOf string
  | KnownType string string string
  | MetaTypes string string

type_synonym scheme = "scheme_entry list"

text \<open>\<open>utilruntime.Must(p.AddToScheme(s))\<close>: a panic, here \<open>None\<close>, when the package refuses.\<close>

definition must_add :: "(string \<Rightarrow> bool) \<Rightarrow> string \<Rightarrow> scheme \<Rightarrow> scheme option" where
  "must_add ok p s = (if ok p then Some (s @ [TypesOf p]) else None)"

definition clientgoscheme :: string where
  "clientgoscheme = ''k8s.io/client-go/kubernetes/scheme''"

definition opsv1alpha1 :: string where
  "opsv1alpha1 = ''accord/api/v1alpha1''"

definition NewInventoryScheme :: "(string \<Rightarrow> bool) \<Rightarrow> scheme option" where
  "NewInventoryScheme ok =
     map_option (\<lambda>s. s @ [KnownType ''argoproj.io'' ''v1alpha1'' ''Unstructured'',
                          MetaTypes ''argoproj.io'' ''v1alpha1''])
       (must_add ok clientgoscheme [])"

definition NewScheme :: "(string \<Rightarrow> bool) \<Rightarrow> scheme option" where
  "NewScheme ok = Option.bind (must_add ok clientgoscheme []) (must_add ok opsv1alpha1)"

subsection \<open>The options\<close>

record ManagerInputs =
  mi_Scheme :: scheme
  mi_LeaderElectionID :: string
  mi_MetricsAddr :: string
  mi_ProbeAddr :: string
  mi_EnableLeaderElection :: bool
  mi_SecureMetrics :: bool
  mi_EnableHTTP2 :: bool
  mi_MetricsCertPath :: string
  mi_MetricsCertName :: string
  mi_MetricsCertKey :: string
  mi_WebhookCertPath :: string
  mi_WebhookCertName :: string
  mi_WebhookCertKey :: string

record tls_config =
  tls_NextProtos :: "string list"

datatype tls_opt = DisableHTTP2

primrec run_tls_opt :: "tls_opt \<Rightarrow> tls_config \<Rightarrow> tls_config" where
  "run_tls_opt DisableHTTP2 c = c \<lparr> tls_NextProtos := [''http/1.1''] \<rparr>"

datatype metrics_filter = WithAuthenticationAndAuthorization

text \<open>The fields of the two servers' options the source sets, at their zero values first.\<close>

record webhook_options =
  wo_TLSOpts :: "tls_opt list"
  wo_CertDir :: string
  wo_CertName :: string
  wo_KeyName :: string

record metrics_options =
  mo_BindAddress :: string
  mo_SecureServing :: bool
  mo_TLSOpts :: "tls_opt list"
  mo_FilterProvider :: "metrics_filter option"
  mo_CertDir :: string
  mo_CertName :: string
  mo_KeyName :: string

record manager_options =
  mgo_Scheme :: scheme
  mgo_Metrics :: metrics_options
  mgo_WebhookServer :: webhook_options
  mgo_HealthProbeBindAddress :: string
  mgo_LeaderElection :: bool
  mgo_LeaderElectionID :: string

definition manager_options_of :: "ManagerInputs \<Rightarrow> manager_options" where
  "manager_options_of inp =
     (let tlsOpts = (if \<not> mi_EnableHTTP2 inp then [DisableHTTP2] else []);
          webhookTLSOpts = tlsOpts;
          wo0 = \<lparr> wo_TLSOpts = webhookTLSOpts, wo_CertDir = '''', wo_CertName = '''', wo_KeyName = '''' \<rparr>;
          wo = (if 0 < length (mi_WebhookCertPath inp)
                then wo0 \<lparr> wo_CertDir := mi_WebhookCertPath inp, wo_CertName := mi_WebhookCertName inp,
                           wo_KeyName := mi_WebhookCertKey inp \<rparr>
                else wo0);
          mo0 = \<lparr> mo_BindAddress = mi_MetricsAddr inp, mo_SecureServing = mi_SecureMetrics inp,
                  mo_TLSOpts = tlsOpts, mo_FilterProvider = None,
                  mo_CertDir = '''', mo_CertName = '''', mo_KeyName = '''' \<rparr>;
          mo1 = (if mi_SecureMetrics inp
                 then mo0 \<lparr> mo_FilterProvider := Some WithAuthenticationAndAuthorization \<rparr> else mo0);
          mo = (if 0 < length (mi_MetricsCertPath inp)
                then mo1 \<lparr> mo_CertDir := mi_MetricsCertPath inp, mo_CertName := mi_MetricsCertName inp,
                           mo_KeyName := mi_MetricsCertKey inp \<rparr>
                else mo1)
      in \<lparr> mgo_Scheme = mi_Scheme inp, mgo_Metrics = mo, mgo_WebhookServer = wo,
           mgo_HealthProbeBindAddress = mi_ProbeAddr inp,
           mgo_LeaderElection = mi_EnableLeaderElection inp,
           mgo_LeaderElectionID = mi_LeaderElectionID inp \<rparr>)"

subsection \<open>The calls on controller-runtime\<close>

text \<open>What \<open>SetupWithManager\<close> hands over: a controller's object kind, its name and its reconciler.\<close>

datatype reconciler =
    ApplicationReconciler ReconcileDeps
  | ApplicationSetReconciler ReconcileDeps
  | MirrorUpgradeRequestReconciler scheme

datatype boot_call =
    GetConfig
  | CreateManager manager_options
  | AddRunnable BatchWorker
  | BuildController gvk string reconciler
  | RegisterWebhook string WebhookHandler
  | AddHealthzCheck string
  | AddReadyzCheck string
  | StartManager

record 's runtime =
  rt_scheme_ok :: "string \<Rightarrow> bool"
  rt_call :: "boot_call \<Rightarrow> 's \<Rightarrow> string option \<times> 's"

record 's boot =
  b_state :: 's
  b_log :: "boot_call list"

datatype outcome = Exited int | Panicked

definition do_boot :: "'s runtime \<Rightarrow> boot_call \<Rightarrow> 's boot \<Rightarrow> string option \<times> 's boot" where
  "do_boot R c b =
     (let (e, s) = rt_call R c (b_state b) in (e, \<lparr> b_state = s, b_log = b_log b @ [c] \<rparr>))"

text \<open>
  \<open>if err := call; err != nil { ...; os.Exit(1) }\<close> and what follows. A call without an error result
  goes on in any case.
\<close>

definition or_exit ::
  "'s runtime \<Rightarrow> boot_call \<Rightarrow> 's boot \<Rightarrow> ('s boot \<Rightarrow> outcome \<times> 's boot) \<Rightarrow> outcome \<times> 's boot" where
  "or_exit R c b k =
     (let (e, b1) = do_boot R c b in case e of Some msg \<Rightarrow> (Exited 1, b1) | None \<Rightarrow> k b1)"

definition and_go_on ::
  "'s runtime \<Rightarrow> boot_call \<Rightarrow> 's boot \<Rightarrow> ('s boot \<Rightarrow> outcome \<times> 's boot) \<Rightarrow> outcome \<times> 's boot" where
  "and_go_on R c b k = k (snd (do_boot R c b))"

text \<open>
  \<open>NewManager\<close>: \<open>ctrl.GetConfigOrDie\<close> exits by itself with status 1; \<open>ctrl.NewManager\<close>'s error is
  wrapped and returned, and every caller exits with status 1 on it.
\<close>

definition NewManager ::
  "'s runtime \<Rightarrow> ManagerInputs \<Rightarrow> 's boot \<Rightarrow> ('s boot \<Rightarrow> outcome \<times> 's boot) \<Rightarrow> outcome \<times> 's boot" where
  "NewManager R inp b k =
     or_exit R GetConfig b (\<lambda>b1. or_exit R (CreateManager (manager_options_of inp)) b1 k)"

subsection \<open>What the options mean\<close>

definition protocols :: "tls_opt list \<Rightarrow> tls_config \<Rightarrow> string list" where
  "protocols opts c = tls_NextProtos (fold run_tls_opt opts c)"

lemma protocols_options:
  "protocols (mo_TLSOpts (mgo_Metrics (manager_options_of inp))) c =
     (if mi_EnableHTTP2 inp then tls_NextProtos c else [''http/1.1''])"
  "protocols (wo_TLSOpts (mgo_WebhookServer (manager_options_of inp))) c =
     (if mi_EnableHTTP2 inp then tls_NextProtos c else [''http/1.1''])"
  by (simp_all add: protocols_def manager_options_of_def Let_def)

lemma metrics_filter_iff:
  "mo_FilterProvider (mgo_Metrics (manager_options_of inp)) \<noteq> None \<longleftrightarrow> mi_SecureMetrics inp"
  "mo_SecureServing (mgo_Metrics (manager_options_of inp)) = mi_SecureMetrics inp"
  by (simp_all add: manager_options_of_def Let_def)

lemma certificate_options:
  "mo_CertDir (mgo_Metrics (manager_options_of inp)) = mi_MetricsCertPath inp"
  "wo_CertDir (mgo_WebhookServer (manager_options_of inp)) = mi_WebhookCertPath inp"
  "wo_CertName (mgo_WebhookServer (manager_options_of inp)) =
     (if mi_WebhookCertPath inp = '''' then '''' else mi_WebhookCertName inp)"
  by (simp_all add: manager_options_of_def Let_def)

subsection \<open>A sequence of calls that stops at the first error\<close>

fun run_calls :: "'s runtime \<Rightarrow> boot_call list \<Rightarrow> 's boot \<Rightarrow> outcome \<times> 's boot" where
  "run_calls R [] b = (Exited 0, b)"
| "run_calls R (c # cs) b = or_exit R c b (run_calls R cs)"

lemma run_calls_log:
  "\<exists>n \<le> length cs. b_log (snd (run_calls R cs b)) = b_log b @ take n cs \<and>
     (fst (run_calls R cs b) = Exited 0 \<and> n = length cs \<or> fst (run_calls R cs b) = Exited 1 \<and> 0 < n)"
proof (induction cs arbitrary: b)
  case (Cons c cs)
  obtain e b1 where d: "do_boot R c b = (e, b1)" by (cases "do_boot R c b")
  then have l: "b_log b1 = b_log b @ [c]" by (auto simp: do_boot_def split: prod.splits)
  show ?case
  proof (cases e)
    case None
    then have r: "run_calls R (c # cs) b = run_calls R cs b1" by (simp add: or_exit_def d)
    obtain n where n: "n \<le> length cs" "b_log (snd (run_calls R cs b1)) = b_log b1 @ take n cs"
      "fst (run_calls R cs b1) = Exited 0 \<and> n = length cs \<or> fst (run_calls R cs b1) = Exited 1 \<and> 0 < n"
      using Cons[of b1] by blast
    show ?thesis unfolding r using n l by (intro exI[of _ "Suc n"]) auto
  next
    case (Some msg)
    then have r: "run_calls R (c # cs) b = (Exited 1, b1)" by (simp add: or_exit_def d)
    show ?thesis unfolding r using l by (intro exI[of _ 1]) simp
  qed
qed simp

text \<open>The last call of a sequence is made only after all before it have succeeded.\<close>

lemma run_calls_last:
  assumes "c \<in> set (drop (length (b_log b)) (b_log (snd (run_calls R (cs @ [c]) b))))" "c \<notin> set cs"
  shows "b_log (snd (run_calls R (cs @ [c]) b)) = b_log b @ cs @ [c]"
proof -
  obtain n where n: "n \<le> length (cs @ [c])" "b_log (snd (run_calls R (cs @ [c]) b)) = b_log b @ take n (cs @ [c])"
    using run_calls_log[of "cs @ [c]" R b] by blast
  have "n = Suc (length cs)"
  proof (rule ccontr)
    assume "n \<noteq> Suc (length cs)"
    then have "take n (cs @ [c]) = take n cs" using n(1) by simp
    then show False using assms n(2) by (auto dest: in_set_takeD)
  qed
  then show ?thesis using n(2) by simp
qed

end
