(* ===== verification/Mains.thy ===== *)
theory Mains
  imports Bootstrap
begin

section \<open>cmd/*/main.go: the start of the three programs\<close>

text \<open>
  Each \<open>main\<close> is a sequence of stages with \<open>os.Exit(1)\<close> on the first error: settings from the
  environment, a scheme, the command line, the manager, what runs under it, the two probes, and
  \<open>mgr.Start\<close>, which returns when the process is told to stop. The flags that other packages register
  (zap's and \<open>--kubeconfig\<close>) are the flag set \<open>xf\<close> over their own values, under other names than the
  program's flags. The batch worker and the cache are one object each, shared by the two reconcilers
  and the manager; the calls carry their initial values. The lemmas bring each program into the form
  of a list of calls run up to the first error.
\<close>

subsection \<open>The flags of a program\<close>

record 'z flag_values =
  fv_metricsAddr :: string
  fv_probeAddr :: string
  fv_enableLeaderElection :: bool
  fv_secureMetrics :: bool
  fv_webhookCertPath :: string
  fv_webhookCertName :: string
  fv_webhookCertKey :: string
  fv_metricsCertPath :: string
  fv_metricsCertName :: string
  fv_metricsCertKey :: string
  fv_enableHTTP2 :: bool
  fv_extern :: 'z

definition default_flags :: "'z \<Rightarrow> 'z flag_values" where
  "default_flags z =
     \<lparr> fv_metricsAddr = ''0'', fv_probeAddr = '':8081'', fv_enableLeaderElection = False,
       fv_secureMetrics = True, fv_webhookCertPath = '''', fv_webhookCertName = ''tls.crt'',
       fv_webhookCertKey = ''tls.key'', fv_metricsCertPath = '''', fv_metricsCertName = ''tls.crt'',
       fv_metricsCertKey = ''tls.key'', fv_enableHTTP2 = False, fv_extern = z \<rparr>"

definition extern_flag :: "'z flagset \<Rightarrow> 'z flag_values flagset" where
  "extern_flag xf name =
     map_option (\<lambda>(k, set_value). (k, \<lambda>v f. map_option (\<lambda>z. f \<lparr> fv_extern := z \<rparr>) (set_value v (fv_extern f))))
       (xf name)"

definition program_flags :: "'z flagset \<Rightarrow> 'z flag_values flagset" where
  "program_flags xf name =
     (if name = ''metrics-bind-address'' then Some (string_flag (\<lambda>v. fv_metricsAddr_update (\<lambda>_. v)))
      else if name = ''health-probe-bind-address'' then Some (string_flag (\<lambda>v. fv_probeAddr_update (\<lambda>_. v)))
      else if name = ''leader-elect'' then Some (bool_flag (\<lambda>b. fv_enableLeaderElection_update (\<lambda>_. b)))
      else if name = ''metrics-secure'' then Some (bool_flag (\<lambda>b. fv_secureMetrics_update (\<lambda>_. b)))
      else if name = ''webhook-cert-path'' then Some (string_flag (\<lambda>v. fv_webhookCertPath_update (\<lambda>_. v)))
      else if name = ''webhook-cert-name'' then Some (string_flag (\<lambda>v. fv_webhookCertName_update (\<lambda>_. v)))
      else if name = ''webhook-cert-key'' then Some (string_flag (\<lambda>v. fv_webhookCertKey_update (\<lambda>_. v)))
      else if name = ''metrics-cert-path'' then Some (string_flag (\<lambda>v. fv_metricsCertPath_update (\<lambda>_. v)))
      else if name = ''metrics-cert-name'' then Some (string_flag (\<lambda>v. fv_metricsCertName_update (\<lambda>_. v)))
      else if name = ''metrics-cert-key'' then Some (string_flag (\<lambda>v. fv_metricsCertKey_update (\<lambda>_. v)))
      else if name = ''enable-http2'' then Some (bool_flag (\<lambda>b. fv_enableHTTP2_update (\<lambda>_. b)))
      else extern_flag xf name)"

definition manager_inputs :: "scheme \<Rightarrow> string \<Rightarrow> 'z flag_values \<Rightarrow> ManagerInputs" where
  "manager_inputs s leaderID v =
     \<lparr> mi_Scheme = s, mi_LeaderElectionID = leaderID,
       mi_MetricsAddr = fv_metricsAddr v, mi_ProbeAddr = fv_probeAddr v,
       mi_EnableLeaderElection = fv_enableLeaderElection v, mi_SecureMetrics = fv_secureMetrics v,
       mi_EnableHTTP2 = fv_enableHTTP2 v,
       mi_MetricsCertPath = fv_metricsCertPath v, mi_MetricsCertName = fv_metricsCertName v,
       mi_MetricsCertKey = fv_metricsCertKey v,
       mi_WebhookCertPath = fv_webhookCertPath v, mi_WebhookCertName = fv_webhookCertName v,
       mi_WebhookCertKey = fv_webhookCertKey v \<rparr>"

subsection \<open>The controllers' registrations\<close>

definition Application_SetupWithManager :: "ReconcileDeps \<Rightarrow> boot_call" where
  "Application_SetupWithManager deps =
     BuildController ApplicationGVK ''accord-inventory-application'' (ApplicationReconciler deps)"

definition ApplicationSet_SetupWithManager :: "ReconcileDeps \<Rightarrow> boot_call" where
  "ApplicationSet_SetupWithManager deps =
     BuildController ApplicationSetGVK ''accord-inventory-applicationset'' (ApplicationSetReconciler deps)"

definition MirrorUpgradeRequestGVK :: gvk where
  "MirrorUpgradeRequestGVK = GVK ''ops.accord.io'' ''v1alpha1'' ''MirrorUpgradeRequest''"

definition Mirror_SetupWithManager :: "scheme \<Rightarrow> boot_call" where
  "Mirror_SetupWithManager s =
     BuildController MirrorUpgradeRequestGVK ''mirrorupgraderequest'' (MirrorUpgradeRequestReconciler s)"

text \<open>The reconciler of the mirror upgrader has no logic yet: no error, no call.\<close>

definition Mirror_Reconcile :: "request \<Rightarrow> ('o, 'w) world \<Rightarrow> reconcile_error option \<times> ('o, 'w) world" where
  "Mirror_Reconcile req w = (None, w)"

subsection \<open>The programs\<close>

definition inventory_main ::
  "'s runtime \<Rightarrow> env \<Rightarrow> 'z flagset \<Rightarrow> 'z \<Rightarrow> string list \<Rightarrow> 's boot \<Rightarrow> outcome \<times> 's boot" where
  "inventory_main R env xf z args b =
     (case LoadInventoryControllerConfig env of
        Inl e \<Rightarrow> (Exited 1, b)
      | Inr cfg \<Rightarrow>
     (case NewInventoryScheme (rt_scheme_ok R) of
        None \<Rightarrow> (Panicked, b)
      | Some s \<Rightarrow>
     (case parse_flags (program_flags xf) args (default_flags z) of
        Inl e \<Rightarrow> (Exited (flag_exit e), b)
      | Inr (v, rest) \<Rightarrow>
          NewManager R (manager_inputs s ''accord-inventory.accord.io'' v) b (\<lambda>b.
          let cache = NewHashCache;
              worker = NewBatchWorker cfg
          in or_exit R (AddRunnable worker) b (\<lambda>b.
          let deps = \<lparr> rd_cache = cache, rd_queue = worker, rd_tmpl = ExportPathTemplate cfg \<rparr>
          in or_exit R (Application_SetupWithManager deps) b (\<lambda>b.
             or_exit R (ApplicationSet_SetupWithManager deps) b (\<lambda>b.
             or_exit R (AddHealthzCheck ''healthz'') b (\<lambda>b.
             or_exit R (AddReadyzCheck ''readyz'') b (\<lambda>b.
             or_exit R StartManager b (\<lambda>b. (Exited 0, b)))))))))))"

definition sync_main ::
  "'s runtime \<Rightarrow> env \<Rightarrow> 'z flagset \<Rightarrow> 'z \<Rightarrow> string list \<Rightarrow> 's boot \<Rightarrow> outcome \<times> 's boot" where
  "sync_main R env xf z args b =
     (case LoadSyncOperatorConfig env of
        Inl e \<Rightarrow> (Exited 1, b)
      | Inr cfg \<Rightarrow>
     (case NewInventoryScheme (rt_scheme_ok R) of
        None \<Rightarrow> (Panicked, b)
      | Some s \<Rightarrow>
     (case parse_flags (program_flags xf) args (default_flags z) of
        Inl e \<Rightarrow> (Exited (flag_exit e), b)
      | Inr (v, rest) \<Rightarrow>
          NewManager R (manager_inputs s ''accord-sync-operator.accord.io'' v) b (\<lambda>b.
          let h = \<lparr> wh_GitHubToken = SyncGitAccessToken cfg, wh_WebhookSecret = WebhookSecret cfg \<rparr>
          in and_go_on R (RegisterWebhook WebhookPath h) b (\<lambda>b.
             or_exit R (AddHealthzCheck ''healthz'') b (\<lambda>b.
             or_exit R (AddReadyzCheck ''readyz'') b (\<lambda>b.
             or_exit R StartManager b (\<lambda>b. (Exited 0, b)))))))))"

definition mirror_main ::
  "'s runtime \<Rightarrow> 'z flagset \<Rightarrow> 'z \<Rightarrow> string list \<Rightarrow> 's boot \<Rightarrow> outcome \<times> 's boot" where
  "mirror_main R xf z args b =
     (case NewScheme (rt_scheme_ok R) of
        None \<Rightarrow> (Panicked, b)
      | Some s \<Rightarrow>
     (case parse_flags (program_flags xf) args (default_flags z) of
        Inl e \<Rightarrow> (Exited (flag_exit e), b)
      | Inr (v, rest) \<Rightarrow>
          NewManager R (manager_inputs s ''b858da39.accord.io'' v) b (\<lambda>b.
             or_exit R (Mirror_SetupWithManager s) b (\<lambda>b.
             or_exit R (AddHealthzCheck ''healthz'') b (\<lambda>b.
             or_exit R (AddReadyzCheck ''readyz'') b (\<lambda>b.
             or_exit R StartManager b (\<lambda>b. (Exited 0, b))))))))"

subsection \<open>The programs as lists of calls\<close>

lemma run_calls_fun:
  "run_calls R [] = (\<lambda>b. (Exited 0, b))" "run_calls R (c # cs) = (\<lambda>b. or_exit R c b (run_calls R cs))"
  by (simp_all add: fun_eq_iff)

definition inventory_deps :: "InventoryControllerConfig \<Rightarrow> ReconcileDeps" where
  "inventory_deps cfg =
     \<lparr> rd_cache = NewHashCache, rd_queue = NewBatchWorker cfg, rd_tmpl = ExportPathTemplate cfg \<rparr>"

definition inventory_stages :: "InventoryControllerConfig \<Rightarrow> scheme \<Rightarrow> 'z flag_values \<Rightarrow> boot_call list" where
  "inventory_stages cfg s v =
     [GetConfig, CreateManager (manager_options_of (manager_inputs s ''accord-inventory.accord.io'' v)),
      AddRunnable (NewBatchWorker cfg),
      BuildController ApplicationGVK ''accord-inventory-application'' (ApplicationReconciler (inventory_deps cfg)),
      BuildController ApplicationSetGVK ''accord-inventory-applicationset''
        (ApplicationSetReconciler (inventory_deps cfg)),
      AddHealthzCheck ''healthz'', AddReadyzCheck ''readyz'']"

lemma inventory_main_calls:
  "inventory_main R env xf z args b =
     (case LoadInventoryControllerConfig env of
        Inl e \<Rightarrow> (Exited 1, b)
      | Inr cfg \<Rightarrow>
     (case NewInventoryScheme (rt_scheme_ok R) of
        None \<Rightarrow> (Panicked, b)
      | Some s \<Rightarrow>
     (case parse_flags (program_flags xf) args (default_flags z) of
        Inl e \<Rightarrow> (Exited (flag_exit e), b)
      | Inr (v, rest) \<Rightarrow> run_calls R (inventory_stages cfg s v @ [StartManager]) b)))"
  by (simp add: inventory_main_def inventory_stages_def NewManager_def run_calls_fun Let_def inventory_deps_def
      Application_SetupWithManager_def ApplicationSet_SetupWithManager_def
      split: sum.split option.split prod.split)

definition sync_handler :: "SyncOperatorConfig \<Rightarrow> WebhookHandler" where
  "sync_handler cfg = \<lparr> wh_GitHubToken = SyncGitAccessToken cfg, wh_WebhookSecret = WebhookSecret cfg \<rparr>"

definition sync_stages :: "SyncOperatorConfig \<Rightarrow> scheme \<Rightarrow> 'z flag_values \<Rightarrow> boot_call list" where
  "sync_stages cfg s v =
     [GetConfig, CreateManager (manager_options_of (manager_inputs s ''accord-sync-operator.accord.io'' v)),
      RegisterWebhook WebhookPath (sync_handler cfg), AddHealthzCheck ''healthz'', AddReadyzCheck ''readyz'']"

text \<open>\<open>Register\<close> has no error result: a runtime in which it never fails is the same to the program.\<close>

definition register_succeeds :: "'s runtime \<Rightarrow> 's runtime" where
  "register_succeeds R =
     R \<lparr> rt_call := (\<lambda>c s. case c of RegisterWebhook p h \<Rightarrow> (None, snd (rt_call R c s)) | _ \<Rightarrow> rt_call R c s) \<rparr>"

lemma register_succeeds_or_exit:
  "and_go_on R (RegisterWebhook p h) b k = or_exit (register_succeeds R) (RegisterWebhook p h) b k"
  "(\<And>p h. c \<noteq> RegisterWebhook p h) \<Longrightarrow> or_exit R c b k = or_exit (register_succeeds R) c b k"
  by (simp_all add: and_go_on_def or_exit_def do_boot_def register_succeeds_def Let_def split: prod.split boot_call.split)

lemma sync_main_calls:
  "sync_main R env xf z args b =
     (case LoadSyncOperatorConfig env of
        Inl e \<Rightarrow> (Exited 1, b)
      | Inr cfg \<Rightarrow>
     (case NewInventoryScheme (rt_scheme_ok R) of
        None \<Rightarrow> (Panicked, b)
      | Some s \<Rightarrow>
     (case parse_flags (program_flags xf) args (default_flags z) of
        Inl e \<Rightarrow> (Exited (flag_exit e), b)
      | Inr (v, rest) \<Rightarrow> run_calls (register_succeeds R) (sync_stages cfg s v @ [StartManager]) b)))"
  by (simp add: sync_main_def sync_stages_def NewManager_def run_calls_fun Let_def sync_handler_def
      register_succeeds_or_exit[where R = R] split: sum.split option.split prod.split)

definition mirror_stages :: "scheme \<Rightarrow> 'z flag_values \<Rightarrow> boot_call list" where
  "mirror_stages s v =
     [GetConfig, CreateManager (manager_options_of (manager_inputs s ''b858da39.accord.io'' v)),
      Mirror_SetupWithManager s, AddHealthzCheck ''healthz'', AddReadyzCheck ''readyz'']"

lemma mirror_main_calls:
  "mirror_main R xf z args b =
     (case NewScheme (rt_scheme_ok R) of
        None \<Rightarrow> (Panicked, b)
      | Some s \<Rightarrow>
     (case parse_flags (program_flags xf) args (default_flags z) of
        Inl e \<Rightarrow> (Exited (flag_exit e), b)
      | Inr (v, rest) \<Rightarrow> run_calls R (mirror_stages s v @ [StartManager]) b))"
  by (simp add: mirror_main_def mirror_stages_def NewManager_def run_calls_fun split: sum.split option.split prod.split)

subsection \<open>The command line of given flag values\<close>

definition bool_text :: "bool \<Rightarrow> string" where
  "bool_text b = (if b then ''true'' else ''false'')"

definition flag_args :: "'z flag_values \<Rightarrow> (string \<times> string) list" where
  "flag_args v =
     [(''metrics-bind-address'', fv_metricsAddr v), (''health-probe-bind-address'', fv_probeAddr v),
      (''leader-elect'', bool_text (fv_enableLeaderElection v)), (''metrics-secure'', bool_text (fv_secureMetrics v)),
      (''webhook-cert-path'', fv_webhookCertPath v), (''webhook-cert-name'', fv_webhookCertName v),
      (''webhook-cert-key'', fv_webhookCertKey v), (''metrics-cert-path'', fv_metricsCertPath v),
      (''metrics-cert-name'', fv_metricsCertName v), (''metrics-cert-key'', fv_metricsCertKey v),
      (''enable-http2'', bool_text (fv_enableHTTP2 v))]"

lemma set_string: "snd (string_flag upd) x f = Some (upd x f)"
  by (simp add: string_flag_def)

lemma set_bool: "snd (bool_flag upd) (bool_text x) f = Some (upd x f)"
  by (cases x) (simp_all add: bool_flag_def bool_text_def)

lemma parse_flags_set:
  assumes "formal n = Some fl" "flag_name n" "snd fl v f = Some g"
  shows "parse_flags formal (flag_arg (n, v) # rest) f = parse_flags formal rest g"
  using parse_flags_arg[of n formal "fst fl" "snd fl" v f g rest] assms by simp

lemma parse_string_arg:
  "program_flags xf n = Some (string_flag upd) \<Longrightarrow> flag_name n \<Longrightarrow>
   parse_flags (program_flags xf) (flag_arg (n, x) # rest) f = parse_flags (program_flags xf) rest (upd x f)"
  by (rule parse_flags_set[OF _ _ set_string])

lemma parse_bool_arg:
  "program_flags xf n = Some (bool_flag upd) \<Longrightarrow> flag_name n \<Longrightarrow>
   parse_flags (program_flags xf) (flag_arg (n, bool_text x) # rest) f = parse_flags (program_flags xf) rest (upd x f)"
  by (rule parse_flags_set[OF _ _ set_bool])

lemma flag_names:
  "flag_name ''metrics-bind-address''" "flag_name ''health-probe-bind-address''" "flag_name ''leader-elect''"
  "flag_name ''metrics-secure''" "flag_name ''webhook-cert-path''" "flag_name ''webhook-cert-name''"
  "flag_name ''webhook-cert-key''" "flag_name ''metrics-cert-path''" "flag_name ''metrics-cert-name''"
  "flag_name ''metrics-cert-key''" "flag_name ''enable-http2''"
  by (simp_all add: flag_name_def)

lemma program_flag:
  "program_flags xf ''metrics-bind-address'' = Some (string_flag (\<lambda>v. fv_metricsAddr_update (\<lambda>_. v)))"
  "program_flags xf ''health-probe-bind-address'' = Some (string_flag (\<lambda>v. fv_probeAddr_update (\<lambda>_. v)))"
  "program_flags xf ''leader-elect'' = Some (bool_flag (\<lambda>b. fv_enableLeaderElection_update (\<lambda>_. b)))"
  "program_flags xf ''metrics-secure'' = Some (bool_flag (\<lambda>b. fv_secureMetrics_update (\<lambda>_. b)))"
  "program_flags xf ''webhook-cert-path'' = Some (string_flag (\<lambda>v. fv_webhookCertPath_update (\<lambda>_. v)))"
  "program_flags xf ''webhook-cert-name'' = Some (string_flag (\<lambda>v. fv_webhookCertName_update (\<lambda>_. v)))"
  "program_flags xf ''webhook-cert-key'' = Some (string_flag (\<lambda>v. fv_webhookCertKey_update (\<lambda>_. v)))"
  "program_flags xf ''metrics-cert-path'' = Some (string_flag (\<lambda>v. fv_metricsCertPath_update (\<lambda>_. v)))"
  "program_flags xf ''metrics-cert-name'' = Some (string_flag (\<lambda>v. fv_metricsCertName_update (\<lambda>_. v)))"
  "program_flags xf ''metrics-cert-key'' = Some (string_flag (\<lambda>v. fv_metricsCertKey_update (\<lambda>_. v)))"
  "program_flags xf ''enable-http2'' = Some (bool_flag (\<lambda>b. fv_enableHTTP2_update (\<lambda>_. b)))"
  by (simp_all add: program_flags_def)

lemma parse_flag_args:
  "parse_flags (program_flags xf) (map flag_arg (flag_args v) @ args) (default_flags z) =
     parse_flags (program_flags xf) args (v \<lparr> fv_extern := z \<rparr>)"
  unfolding flag_args_def list.map append_Cons append_Nil
  by (simp only: parse_string_arg[OF program_flag(1) flag_names(1)] parse_string_arg[OF program_flag(2) flag_names(2)]
      parse_bool_arg[OF program_flag(3) flag_names(3)] parse_bool_arg[OF program_flag(4) flag_names(4)]
      parse_string_arg[OF program_flag(5) flag_names(5)] parse_string_arg[OF program_flag(6) flag_names(6)]
      parse_string_arg[OF program_flag(7) flag_names(7)] parse_string_arg[OF program_flag(8) flag_names(8)]
      parse_string_arg[OF program_flag(9) flag_names(9)] parse_string_arg[OF program_flag(10) flag_names(10)]
      parse_bool_arg[OF program_flag(11) flag_names(11)])
     (cases v, simp add: default_flags_def)

end
