(* ===== verification/PropsStartup.thy ===== *)
theory PropsStartup
  imports Mains Instances
begin

section \<open>Properties of the start of the programs\<close>

text \<open>
  What the three \<open>main\<close> functions promise whatever controller-runtime answers, with witnesses on a
  runtime in which every call succeeds.
\<close>

definition r0 :: "unit runtime" where
  "r0 = \<lparr> rt_scheme_ok = (\<lambda>p. True), rt_call = (\<lambda>c s. (None, s)) \<rparr>"

definition boot0 :: "unit boot" where
  "boot0 = \<lparr> b_state = (), b_log = [] \<rparr>"

definition env0 :: env where
  "env0 = (\<lambda>k. if k = ''WEBHOOK_SECRET'' then ''s3cret'' else '''')"

definition no_extern :: "unit flagset" where
  "no_extern = (\<lambda>n. None)"

lemma run_calls_r0: "run_calls r0 cs b = (Exited 0, \<lparr> b_state = (), b_log = b_log b @ cs \<rparr>)"
  by (induction cs arbitrary: b) (simp_all add: or_exit_def do_boot_def r0_def)



text \<open>C31: The sync operator fails closed: every handler it registers, on the one webhook path, has a
  secret with a visible character, so it answers 400, 401 or 405 and does nothing when the
  signature is missing or wrong; without such a secret the process exits with status 1 before any call.\<close>

theorem sync_operator_fails_closed:
  assumes "sync_main R env (xf :: 'z flagset) z args b = (out, b')" "b_log b = []"
  shows "case LoadSyncOperatorConfig env of
      Inl e \<Rightarrow> trim_space (env ''WEBHOOK_SECRET'') = '''' \<and> out = Exited 1 \<and> b' = b
    | Inr cfg \<Rightarrow> (\<forall>p h. RegisterWebhook p h \<in> set (b_log b') \<longrightarrow>
        p = ''/api/v1/webhook'' \<and> trim_space (wh_WebhookSecret h) \<noteq> '''' \<and>
        (\<forall>r. (\<forall>body. VerifyHMACSignature (wh_WebhookSecret h) (header_get r SignatureHeader) body \<noteq> None) \<longrightarrow>
           snd (ServeHTTP X U C h r w) = w \<and>
           response_status (fst (ServeHTTP X U C h r w)) \<in> {400, 401, 405}))"
proof (cases "LoadSyncOperatorConfig env")
  case (Inl e)
  then have "trim_space (env ''WEBHOOK_SECRET'') = ''''"
    by (simp add: LoadSyncOperatorConfig_def Let_def split: if_splits)
  then show ?thesis using Inl assms(1) by (simp add: sync_main_calls)
next
  case (Inr cfg)
  have secret: "trim_space (WebhookSecret cfg) \<noteq> ''''"
    using Inr by (auto simp: LoadSyncOperatorConfig_def Let_def split: if_splits)
  have log: "set (b_log b') \<subseteq> (\<Union>s v. set (sync_stages cfg s (v :: 'z flag_values) @ [StartManager]))"
  proof (cases "b_log b' = []")
    case False
    then obtain s and v :: "'z flag_values" where m: "run_calls (register_succeeds R) (sync_stages cfg s v @ [StartManager]) b = (out, b')"
      using assms Inr by (auto simp: sync_main_calls split: option.splits sum.splits prod.splits)
    then have "\<exists>n. b_log b' = take n (sync_stages cfg s v @ [StartManager])"
      using run_calls_log[of "sync_stages cfg s v @ [StartManager]" "register_succeeds R" b] assms(2) by auto
    then show ?thesis using set_take_subset by fastforce
  qed simp
  have "p = ''/api/v1/webhook'' \<and> trim_space (wh_WebhookSecret h) \<noteq> ''''"
    if "RegisterWebhook p h \<in> set (b_log b')" for p h
  proof -
    have "p = WebhookPath \<and> h = sync_handler cfg" using that log by (auto simp: sync_stages_def)
    then show ?thesis using secret by (simp add: WebhookPath_def sync_handler_def)
  qed
  moreover have "snd (ServeHTTP X U C h r w) = w \<and> response_status (fst (ServeHTTP X U C h r w)) \<in> {400, 401, 405}"
    if "\<forall>body. VerifyHMACSignature (wh_WebhookSecret h) (header_get r SignatureHeader) body \<noteq> None" for h r
    by (intro conjI serve_rejects) (use that in \<open>auto simp: authentic_def\<close>)
  ultimately show ?thesis using Inr by (simp del: not_None_eq)
qed

lemma register_succeeds_r0: "register_succeeds r0 = r0"
  by (simp add: register_succeeds_def r0_def fun_eq_iff split: boot_call.split)

theorem sync_operator_fails_closed_witness:
  "let h = \<lparr> wh_GitHubToken = '''', wh_WebhookSecret = ''s3cret'' \<rparr>;
       q = \<lparr> wr_Method = ''POST'', wr_Headers = [], wr_Body = ''{}'', wr_BodyBroken = False \<rparr>;
       w = \<lparr> w_state = Map.empty, w_calls = [] \<rparr>
   in RegisterWebhook ''/api/v1/webhook'' h \<in> set (b_log (snd (sync_main r0 env0 no_extern () [] boot0))) \<and>
      snd (ServeHTTP x0 u0 c0 h q w) = w"
proof -
  let ?h = "\<lparr> wh_GitHubToken = '''', wh_WebhookSecret = ''s3cret'' \<rparr>"
  let ?q = "\<lparr> wr_Method = ''POST'', wr_Headers = [], wr_Body = ''{}'', wr_BodyBroken = False \<rparr>"
  let ?w = "\<lparr> w_state = Map.empty, w_calls = [] \<rparr>"
  have cfg: "LoadSyncOperatorConfig env0 = Inr \<lparr> WebhookSecret = ''s3cret'', SyncGitAccessToken = '''' \<rparr>"
    by (simp add: LoadSyncOperatorConfig_def env0_def Let_def trim_visible visible_ascii_def)
  obtain s where s: "NewInventoryScheme (rt_scheme_ok r0) = Some s"
    by (simp add: NewInventoryScheme_def must_add_def r0_def)
  have v: "parse_flags (program_flags no_extern) [] (default_flags ()) = Inr (default_flags (), [])"
    by (rule parse_flags_end) simp
  obtain b' where m: "sync_main r0 env0 no_extern () [] boot0 = (Exited 0, b')"
    and r: "RegisterWebhook ''/api/v1/webhook'' ?h \<in> set (b_log b')"
    by (simp add: sync_main_calls cfg s v register_succeeds_r0 run_calls_r0)
       (simp add: sync_stages_def WebhookPath_def sync_handler_def)
  have "\<forall>body. VerifyHMACSignature (wh_WebhookSecret ?h) (header_get ?q SignatureHeader) body \<noteq> None"
    by (simp add: header_get_def VerifyHMACSignature_def)
  moreover have "b_log boot0 = []" by (simp add: boot0_def)
  note f = sync_operator_fails_closed[OF m this, of x0 u0 c0 ?w, unfolded cfg sum.case, rule_format, OF r]
  ultimately have "snd (ServeHTTP x0 u0 c0 ?h ?q ?w) = ?w" using f by blast
  then show ?thesis using r unfolding m snd_conv Let_def by blast
qed

text \<open>C30: The command line that spells out every flag of a program is read back as exactly those
  values, whatever other packages register.\<close>

theorem flags_round_trip:
  "parse_flags (program_flags xf) (map flag_arg (flag_args v)) (default_flags (fv_extern v)) = Inr (v, [])"
  using parse_flag_args[of xf v "[]" "fv_extern v"] by (simp add: parse_flags_end)

text \<open>C32: Unless HTTP/2 is enabled both servers offer HTTP/1.1 only; the metrics endpoint is served over
  TLS and asks for authorisation exactly with the secure flag; each server gets its own certificate
  directory.\<close>

theorem manager_options_are_safe:
  "protocols (mo_TLSOpts (mgo_Metrics (manager_options_of inp))) c =
     (if mi_EnableHTTP2 inp then tls_NextProtos c else [''http/1.1'']) \<and>
   protocols (wo_TLSOpts (mgo_WebhookServer (manager_options_of inp))) c =
     (if mi_EnableHTTP2 inp then tls_NextProtos c else [''http/1.1'']) \<and>
   (mo_FilterProvider (mgo_Metrics (manager_options_of inp)) \<noteq> None) = mi_SecureMetrics inp \<and>
   mo_SecureServing (mgo_Metrics (manager_options_of inp)) = mi_SecureMetrics inp \<and>
   mo_CertDir (mgo_Metrics (manager_options_of inp)) = mi_MetricsCertPath inp \<and>
   wo_CertDir (mgo_WebhookServer (manager_options_of inp)) = mi_WebhookCertPath inp"
  using protocols_options[of inp c] metrics_filter_iff[of inp] certificate_options[of inp] by simp

end
