(* ===== verification/Remote.thy ===== *)
theory Remote
  imports Publish
begin

section \<open>The remote repository under any run of the batch worker\<close>

text \<open>
  go-git with a remote repository behind it: \<open>rm_tree\<close> is the tree of the branch on the remote,
  \<open>rm_head\<close> the tree of the commit checked out in a directory, \<open>rm_ok\<close> says that the branch has the
  layout of an inventory. \<open>remote_laws\<close> is what Git documents of the calls the worker makes, with the
  worker as the only writer of the branch; a push that reports an error may still have taken effect.
  The lemmas follow the branch through an export, a flush and the whole ticker loop.
\<close>

record 'g remote =
  rm_tree :: "'g \<Rightarrow> fs"
  rm_head :: "'g \<Rightarrow> string \<Rightarrow> fs"
  rm_ok :: "'g \<Rightarrow> bool"

text \<open>Two trees with the same files at the places of the inventory layout, live and archived.\<close>

definition same_inventory :: "fs \<Rightarrow> fs \<Rightarrow> bool" where
  "same_inventory t u = (\<forall>x. inv_targets [] x \<longrightarrow> t x = u x)"

definition keeps :: "'g remote \<Rightarrow> 'g \<Rightarrow> 'g \<Rightarrow> bool" where
  "keeps R g g' = (rm_tree R g' = rm_tree R g \<and> (rm_ok R g \<longrightarrow> rm_ok R g'))"

definition mkdirtemp_law :: "'g git \<Rightarrow> 'g remote \<Rightarrow> bool" where
  "mkdirtemp_law G R = (\<forall>g f r g' f'. g_mkdirtemp G (g, f) = (r, g', f') \<longrightarrow>
     keeps R g g' \<and> (\<forall>d. r = Inr d \<longrightarrow> rooted_path d))"

definition clone_law :: "'g git \<Rightarrow> 'g remote \<Rightarrow> bool" where
  "clone_law G R = (\<forall>d opts g f r g' f'. g_clone G d opts (g, f) = (r, g', f') \<longrightarrow>
     keeps R g g' \<and>
     (r = None \<and> rm_ok R g \<longrightarrow> inv_tree (fs_path d) f' \<and>
        same_inventory (tree_below d f') (rm_tree R g) \<and> same_inventory (rm_head R g' d) (rm_tree R g)))"

definition status_law :: "'g git \<Rightarrow> 'g remote \<Rightarrow> bool" where
  "status_law G R = (\<forall>d g f. g_status G d (g, f) = Inr True \<longrightarrow>
     same_inventory (tree_below d f) (rm_head R g d))"

definition commit_law :: "'g git \<Rightarrow> 'g remote \<Rightarrow> bool" where
  "commit_law G R =
     ((\<forall>d g f r g'. g_add G d (g, f) = (r, g') \<longrightarrow> keeps R g g' \<and> rm_head R g' = rm_head R g) \<and>
      (\<forall>d m g f r g'. g_commit G d m (g, f) = (r, g') \<longrightarrow> keeps R g g') \<and>
      (\<forall>d m g f g1 g2. g_add G d (g, f) = (None, g1) \<and> g_commit G d m (g1, f) = (None, g2) \<longrightarrow>
         same_inventory (rm_head R g2 d) (tree_below d f)))"

definition push_law :: "'g git \<Rightarrow> 'g remote \<Rightarrow> bool" where
  "push_law G R = (\<forall>d a g f r g'. g_push G d a (g, f) = (r, g') \<longrightarrow>
     same_inventory (rm_head R g d) (tree_below d f) \<longrightarrow>
     (rm_ok R g \<and> inv_tree (fs_path d) f \<longrightarrow> rm_ok R g') \<and>
     (same_inventory (rm_tree R g') (rm_head R g d) \<or> r \<noteq> None \<and> rm_tree R g' = rm_tree R g))"

definition remote_laws :: "'g git \<Rightarrow> 'g remote \<Rightarrow> bool" where
  "remote_laws G R \<longleftrightarrow>
     mkdirtemp_law G R \<and> clone_law G R \<and> status_law G R \<and> commit_law G R \<and> push_law G R"

lemma remote_lawsD:
  assumes "remote_laws G R"
  shows "g_mkdirtemp G (g, f) = (r1, g1, f1) \<Longrightarrow> keeps R g g1 \<and> (\<forall>d. r1 = Inr d \<longrightarrow> rooted_path d)"
    and "g_clone G d opts (g, f) = (r, g1, f1) \<Longrightarrow> keeps R g g1 \<and>
         (r = None \<and> rm_ok R g \<longrightarrow> inv_tree (fs_path d) f1 \<and>
            same_inventory (tree_below d f1) (rm_tree R g) \<and> same_inventory (rm_head R g1 d) (rm_tree R g))"
    and "g_add G d (g, f) = (r, g1) \<Longrightarrow> keeps R g g1 \<and> rm_head R g1 = rm_head R g"
    and "g_status G d (g, f) = Inr True \<Longrightarrow> same_inventory (tree_below d f) (rm_head R g d)"
    and "g_commit G d m (g, f) = (r, g1) \<Longrightarrow> keeps R g g1"
    and "g_add G d (g, f) = (None, g1) \<Longrightarrow> g_commit G d m (g1, f) = (None, g2) \<Longrightarrow>
         same_inventory (rm_head R g2 d) (tree_below d f)"
    and "g_push G d a (g, f) = (r, g1) \<Longrightarrow> same_inventory (rm_head R g d) (tree_below d f) \<Longrightarrow> (rm_ok R g \<and> inv_tree (fs_path d) f \<longrightarrow> rm_ok R g1) \<and>
         (same_inventory (rm_tree R g1) (rm_head R g d) \<or> r \<noteq> None \<and> rm_tree R g1 = rm_tree R g)"
proof -
  have l: "mkdirtemp_law G R" "clone_law G R" "status_law G R" "commit_law G R" "push_law G R"
    using assms by (simp_all add: remote_laws_def)
  show "g_mkdirtemp G (g, f) = (r1, g1, f1) \<Longrightarrow> keeps R g g1 \<and> (\<forall>d. r1 = Inr d \<longrightarrow> rooted_path d)"
    using l(1) unfolding mkdirtemp_law_def by blast
  show "g_clone G d opts (g, f) = (r, g1, f1) \<Longrightarrow> keeps R g g1 \<and>
         (r = None \<and> rm_ok R g \<longrightarrow> inv_tree (fs_path d) f1 \<and>
            same_inventory (tree_below d f1) (rm_tree R g) \<and> same_inventory (rm_head R g1 d) (rm_tree R g))"
    using l(2) unfolding clone_law_def by blast
  show "g_status G d (g, f) = Inr True \<Longrightarrow> same_inventory (tree_below d f) (rm_head R g d)"
    using l(3) unfolding status_law_def by blast
  show "g_add G d (g, f) = (r, g1) \<Longrightarrow> keeps R g g1 \<and> rm_head R g1 = rm_head R g"
    "g_commit G d m (g, f) = (r, g1) \<Longrightarrow> keeps R g g1"
    "g_add G d (g, f) = (None, g1) \<Longrightarrow> g_commit G d m (g1, f) = (None, g2) \<Longrightarrow>
         same_inventory (rm_head R g2 d) (tree_below d f)"
    using l(4) unfolding commit_law_def by blast+
  show "g_push G d a (g, f) = (r, g1) \<Longrightarrow> same_inventory (rm_head R g d) (tree_below d f) \<Longrightarrow> (rm_ok R g \<and> inv_tree (fs_path d) f \<longrightarrow> rm_ok R g1) \<and>
         (same_inventory (rm_tree R g1) (rm_head R g d) \<or> r \<noteq> None \<and> rm_tree R g1 = rm_tree R g)"
    using l(5) unfolding push_law_def by blast
qed

lemma same_inventory_trans: "same_inventory t u \<Longrightarrow> same_inventory u v \<Longrightarrow> same_inventory t v"
  and same_inventory_sym: "same_inventory t u \<Longrightarrow> same_inventory u t"
  by (simp_all add: same_inventory_def)

lemma keeps_trans: "keeps R g g' \<Longrightarrow> keeps R g' g'' \<Longrightarrow> keeps R g g''"
  by (auto simp: keeps_def)

subsection \<open>An export\<close>

text \<open>The branch after a call: the given tree, or unchanged if the call failed.\<close>

definition branch_after :: "'g remote \<Rightarrow> fs \<Rightarrow> 'g \<Rightarrow> 'e option \<Rightarrow> 'g \<Rightarrow> bool" where
  "branch_after R t g r g' \<longleftrightarrow> rm_ok R g' \<and>
     (same_inventory (rm_tree R g') t \<or> r \<noteq> None \<and> rm_tree R g' = rm_tree R g)"

lemma branch_failed: "rm_ok R g \<Longrightarrow> keeps R g g' \<Longrightarrow> branch_after R t g (Some e) g'"
  by (auto simp: branch_after_def keeps_def)

lemma publish_branch:
  assumes L: "remote_laws G R" and ok: "rm_ok R (gs_state s)" and tree: "inv_tree (fs_path d) (gs_fs s)"
    and head: "same_inventory (rm_head R (gs_state s) d) (rm_tree R (gs_state s))"
    and p: "publish G cfg batch d s = (r, s')"
  shows "branch_after R (tree_below d (gs_fs s)) (gs_state s) r (gs_state s')"
proof -
  let ?f = "gs_fs s" and ?g = "gs_state s"
  obtain ra ga where a: "g_add G d (?g, ?f) = (ra, ga)" by fastforce
  obtain rc gc where c: "g_commit G d (full_message batch) (ga, ?f) = (rc, gc)" by fastforce
  obtain rp gp where q: "g_push G d (auth cfg) (gc, ?f) = (rp, gp)" by fastforce
  note A = remote_lawsD(3)[OF L a] and C = remote_lawsD(5)[OF L c] and P = remote_lawsD(7)[OF L q]
  have id: "keeps R ?g ?g" by (simp add: keeps_def)
  have gc: "keeps R ?g gc" by (rule keeps_trans[OF conjunct1[OF A] C])
  have clean: "branch_after R (tree_below d ?f) ?g None ga" if "g_status G d (ga, ?f) = Inr True"
  proof -
    have t: "rm_tree R ga = rm_tree R ?g" "rm_ok R ga" "rm_head R ga d = rm_head R ?g d"
      using A ok by (simp_all add: keeps_def)
    have "same_inventory (rm_head R ?g d) (tree_below d ?f)"
      using remote_lawsD(4)[OF L that] unfolding t(3) by (rule same_inventory_sym)
    then have "same_inventory (rm_tree R ?g) (tree_below d ?f)"
      using same_inventory_trans[OF same_inventory_sym[OF head]] by blast
    then show ?thesis
      by (simp add: branch_after_def t)
  qed
  have pushed: "branch_after R (tree_below d ?f) ?g (map_option GitPushFailed rp) gp" if "ra = None" "rc = None"
  proof -
    have h: "same_inventory (rm_head R gc d) (tree_below d ?f)"
      using remote_lawsD(6)[OF L] a c that by blast
    have okc: "rm_ok R gc" "rm_tree R gc = rm_tree R ?g" using gc ok by (simp_all add: keeps_def)
    show ?thesis
      using P[OF h] okc tree same_inventory_trans[OF _ h] unfolding branch_after_def by fastforce
  qed
  show ?thesis
    using p a c q clean pushed branch_failed[OF ok id] branch_failed[OF ok conjunct1[OF A]]
      branch_failed[OF ok gc]
    by (auto simp: publish_def Let_def split: option.splits sum.splits if_splits)
qed

lemma export_branch:
  assumes L: "remote_laws G R" and ok: "rm_ok R (gs_state s)" and ops: "\<forall>e \<in> set es. inv_op e"
    and o: "ord batch = map render_op es" and x: "exportBatch G ord cfg batch s = (r, s')"
  shows "\<exists>d cl. inv_tree (fs_path d) cl \<and> same_inventory (tree_below d cl) (rm_tree R (gs_state s)) \<and>
      branch_after R (tree_below d (fold (op_update (fs_path d)) es cl)) (gs_state s) r (gs_state s')
    \<or> r \<noteq> None \<and> rm_ok R (gs_state s') \<and> rm_tree R (gs_state s') = rm_tree R (gs_state s)"
proof -
  obtain rd gd fd where m: "g_mkdirtemp G (gs_state s, gs_fs s) = (rd, gd, fd)" by (metis prod.exhaust)
  note M = remote_lawsD(1)[OF L m]
  have okd: "rm_ok R gd" "rm_tree R gd = rm_tree R (gs_state s)" using M ok by (simp_all add: keeps_def)
  show ?thesis
  proof (cases rd)
    case (Inl e)
    then show ?thesis using x okd by (auto simp: exportBatch_def m Let_def)
  next
    case (Inr d)
    obtain rc gc cl where c: "g_clone G d (clone_options cfg) (gd, fd) = (rc, gc, cl)" by (metis prod.exhaust)
    note C = remote_lawsD(2)[OF L c]
    have okc: "rm_ok R gc" "rm_tree R gc = rm_tree R (gs_state s)" using C okd by (simp_all add: keeps_def)
    show ?thesis
    proof (cases rc)
      case (Some e)
      then show ?thesis using x okc Inr by (auto simp: exportBatch_def export_in_dir_def m c Let_def)
    next
      case None
      have cl: "inv_tree (fs_path d) cl" "same_inventory (tree_below d cl) (rm_tree R (gs_state s))"
        "same_inventory (rm_head R gc d) (rm_tree R gc)"
        using C None okd okc by auto
      let ?f = "fold (op_update (fs_path d)) es cl"
      let ?s2 = "s \<lparr> gs_state := gc, gs_log := gs_log s @ [CloneCall (clone_options cfg)], gs_fs := ?f \<rparr>"
      obtain r' s3 where p: "publish G cfg batch d ?s2 = (r', s3)" by fastforce
      have "rooted_path d" using M Inr by simp
      then have "apply_ops d (map render_op es) cl = (None, ?f)" using cl(1) ops by (rule apply_ops_update)
      then have e: "r = r'" "gs_state s' = gs_state s3"
        using x p None Inr by (auto simp: exportBatch_def export_in_dir_def m c o Let_def)
      have "inv_tree (fs_path d) ?f"
        using cl(1) ops by (induction es arbitrary: cl) (auto simp: inv_tree_update)
      then have "branch_after R (tree_below d ?f) gc r' (gs_state s3)"
        using publish_branch[OF L _ _ _ p] okc(1) cl(3) by simp
      then have "branch_after R (tree_below d ?f) (gs_state s) r (gs_state s')"
        unfolding e branch_after_def okc(2) .
      then show ?thesis using cl(1,2) by blast
    qed
  qed
qed

text \<open>What an operation leaves at a live path.\<close>

definition live_after :: "pendingExport option \<Rightarrow> node option \<Rightarrow> node option" where
  "live_after op old =
     (case op of None \<Rightarrow> old
      | Some x \<Rightarrow> if pe_kind x = opWrite then Some (File (pe_content x)) else None)"

lemma live_after_again: "live_after op (live_after op old) = live_after op old"
  by (simp add: live_after_def split: option.split)

lemma export_path:
  fixes R :: "'g remote" and s s' :: "'g gst"
  assumes "remote_laws G R" "rm_ok R (gs_state s)" "queue_inv w" "worker_ok w" "range_order ord"
    and x: "exportBatch G ord cfg (bw_pending w) s = (r, s')"
  shows "rm_ok R (gs_state s')"
    and "inv_path xs \<Longrightarrow> rm_tree R (gs_state s') (live_elems xs)
           = live_after (pending_at w (join_slash (live_elems xs))) (rm_tree R (gs_state s) (live_elems xs))
         \<or> r \<noteq> None \<and> rm_tree R (gs_state s') (live_elems xs) = rm_tree R (gs_state s) (live_elems xs)"
proof -
  obtain es where es: "ord (bw_pending w) = map render_op es" "\<forall>e \<in> set es. inv_op e" "distinct (map fst es)"
    using range_ops[OF assms(3-5)] by blast
  note B = export_branch[OF assms(1,2) es(2,1) x]
  then show "rm_ok R (gs_state s')" by (auto simp: branch_after_def)
  let ?p = "join_slash (live_elems xs)" and ?old = "rm_tree R (gs_state s) (live_elems xs)"
  assume xs: "inv_path xs"
  have t: "inv_targets [] (live_elems xs)" using live_target[OF xs, of "[]"] by simp
  have at: "tree_below d (fold (op_update (fs_path d)) es cl) (live_elems xs) = live_after (pending_at w ?p) ?old"
    if c: "inv_tree (fs_path d) cl" "same_inventory (tree_below d cl) (rm_tree R (gs_state s))" for d cl
  proof (cases "pending_at w ?p")
    case None
    then have "xs \<notin> fst ` set es" using queue_entry[OF assms(4,5) es(1,2) xs] by fastforce
    from fold_update_other(1)[OF es(2) xs this] show ?thesis
      using c(2) t None by (simp add: tree_below_def same_inventory_def live_after_def)
  next
    case (Some op)
    then have "(xs, op) \<in> set es" using queue_entry[OF assms(4,5) es(1,2) xs] by blast
    from fold_update_at(1)[OF es(2,3) this] show ?thesis
      using op_update_at[OF c(1) xs, of op] Some by (simp add: tree_below_def live_after_def)
  qed
  show "rm_tree R (gs_state s') (live_elems xs) = live_after (pending_at w ?p) ?old
      \<or> r \<noteq> None \<and> rm_tree R (gs_state s') (live_elems xs) = ?old"
    using B at t unfolding branch_after_def same_inventory_def by metis
qed

subsection \<open>Any run of the worker\<close>

text \<open>The operations enqueued in a run, in order; after \<open>EvDone\<close> the worker has returned.\<close>

fun ops_of :: "worker_event list \<Rightarrow> worker_op list" where
  "ops_of [] = []"
| "ops_of (EvOp x # es) = x # ops_of es"
| "ops_of (EvTick mid # es) = mid @ ops_of es"
| "ops_of (EvDone # es) = []"

definition last_op :: "worker_op list \<Rightarrow> string \<Rightarrow> pendingExport option" where
  "last_op ops p = map_of (rev (map entry_of ops)) p"

lemma last_op_append: "last_op (a @ b) p = (case last_op b p of None \<Rightarrow> last_op a p | Some x \<Rightarrow> Some x)"
  by (simp add: last_op_def map_add_def split: option.splits)

lemma run_ops_last_op:
  "worker_ok w \<Longrightarrow> pending_at (run_ops ops w) p =
     (case last_op ops p of None \<Rightarrow> pending_at w p | Some op \<Rightarrow> Some op)"
  unfolding last_op_def by (rule run_ops_last_wins)

lemma last_op_None: "\<forall>x \<in> set ops. fst (entry_of x) \<noteq> p \<Longrightarrow> last_op ops p = None"
  by (auto simp: last_op_def map_of_eq_None_iff)

definition inv_worker_op :: "worker_op \<Rightarrow> bool" where
  "inv_worker_op x = (\<exists>xs. inv_path xs \<and> fst (entry_of x) = join_slash (live_elems xs))"

text \<open>No export fails while another client enqueues on a path of its batch.\<close>

fun undisturbed ::
  "'g git \<Rightarrow> (batch \<Rightarrow> (string \<times> pendingExport) list) \<Rightarrow> worker_event list \<Rightarrow> BatchWorker \<Rightarrow> 'g gst \<Rightarrow> bool" where
  "undisturbed G ord [] w s = True"
| "undisturbed G ord (EvOp x # es) w s = undisturbed G ord es (run_op x w) s"
| "undisturbed G ord (EvTick mid # es) w s =
     ((fst (exportBatch G ord (bw_cfg w) (bw_pending w) s) \<noteq> None \<longrightarrow>
         (\<forall>x \<in> set mid. pending_at w (fst (entry_of x)) = None)) \<and>
      undisturbed G ord es (fst (flush G ord mid w s)) (snd (flush G ord mid w s)))"
| "undisturbed G ord (EvDone # es) w s = True"

lemma queue_inv_iff:
  "worker_ok w \<Longrightarrow> queue_inv w \<longleftrightarrow>
   (\<forall>p op. pending_at w p = Some op \<longrightarrow> (\<exists>xs. inv_op (xs, op) \<and> p = join_slash (live_elems xs)))"
  by (fastforce simp: queue_inv_def pending_at_def worker_ok_def mget_in_set render_op_def)

lemma known_entry: "known_kind (snd (entry_of x))"
  by (cases x) (simp_all add: known_kind_def)

lemma queue_inv_run_ops:
  "queue_inv w \<Longrightarrow> \<forall>x \<in> set ops. inv_worker_op x \<Longrightarrow> queue_inv (run_ops ops w)"
proof (induction ops arbitrary: w)
  case (Cons x ops)
  then obtain xs where "inv_path xs" "fst (entry_of x) = join_slash (live_elems xs)"
    by (auto simp: inv_worker_op_def)
  then have "queue_inv (run_op x w)"
    using queue_inv_put[OF Cons.prems(1)] known_entry by (simp add: run_op_entry)
  then show ?case using Cons by (simp add: run_ops_def)
qed (simp add: run_ops_def)

text \<open>
  The invariant: what is pending on a path is the last operation on it; where nothing is pending, the
  branch is what the last operation leaves. \<open>g0\<close> is the state of Git when the run began.
\<close>

definition path_follows ::
  "'g remote \<Rightarrow> 'g \<Rightarrow> worker_op list \<Rightarrow> BatchWorker \<Rightarrow> 'g \<Rightarrow> string list \<Rightarrow> bool" where
  "path_follows R g0 ops w g xs =
     (let p = join_slash (live_elems xs) in
      case pending_at w p of
        Some op \<Rightarrow> last_op ops p = Some op
      | None \<Rightarrow> rm_tree R g (live_elems xs) = live_after (last_op ops p) (rm_tree R g0 (live_elems xs)))"

definition follows :: "'g remote \<Rightarrow> 'g \<Rightarrow> worker_op list \<Rightarrow> BatchWorker \<Rightarrow> 'g \<Rightarrow> bool" where
  "follows R g0 ops w g \<longleftrightarrow> worker_ok w \<and> queue_inv w \<and> rm_ok R g \<and>
     (\<forall>xs. inv_path xs \<longrightarrow> path_follows R g0 ops w g xs)"

lemma follows_ops:
  assumes "follows R g0 ops w g" "\<forall>x \<in> set new. inv_worker_op x"
  shows "follows R g0 (ops @ new) (run_ops new w) g"
proof -
  have ok: "worker_ok w" using assms(1) by (simp add: follows_def)
  have "path_follows R g0 (ops @ new) (run_ops new w) g xs" if "inv_path xs" for xs
  proof -
    have "path_follows R g0 ops w g xs" using assms(1) that by (simp add: follows_def)
    then show ?thesis
      by (simp add: path_follows_def last_op_append run_ops_last_op[OF ok] Let_def split: option.splits)
  qed
  then show ?thesis
    using assms run_ops_ok[OF ok] queue_inv_run_ops by (simp add: follows_def)
qed

lemma follows_taken:
  assumes "remote_laws G R" "range_order ord" "follows R g0 ops w (gs_state s)"
    and "exportBatch G ord cfg (bw_pending w) s = (None, s')"
  shows "follows R g0 ops (w \<lparr> bw_pending := mempty \<rparr>) (gs_state s')"
proof -
  have f: "worker_ok w" "queue_inv w" "rm_ok R (gs_state s)" using assms(3) by (simp_all add: follows_def)
  have "path_follows R g0 ops (w \<lparr> bw_pending := mempty \<rparr>) (gs_state s') xs" if xs: "inv_path xs" for xs
  proof -
    have "path_follows R g0 ops w (gs_state s) xs" using assms(3) xs by (simp add: follows_def)
    then show ?thesis
      using export_path(2)[OF assms(1) f(3,2,1) assms(2,4), of xs] xs
      by (auto simp: path_follows_def pending_at_def live_after_def Let_def split: option.splits)
  qed
  moreover have "rm_ok R (gs_state s')"
    by (rule export_path(1)[OF assms(1) f(3,2,1) assms(2,4)])
  ultimately show ?thesis
    by (simp add: follows_def worker_ok_def queue_inv_def)
qed

lemma follows_put_back:
  assumes L: "remote_laws G R" "range_order ord" and f0: "follows R g0 ops w (gs_state s)"
    and url: "trim_space (GitRepoURL (bw_cfg w)) \<noteq> ''''" "bw_pending w \<noteq> []"
    and x: "exportBatch G ord (bw_cfg w) (bw_pending w) s = (Some e, s')"
    and mid: "\<forall>x \<in> set mid. inv_worker_op x" "\<forall>x \<in> set mid. pending_at w (fst (entry_of x)) = None"
  shows "follows R g0 (ops @ mid) (fst (flush G ord mid w s)) (gs_state s')"
proof -
  have f: "worker_ok w" "queue_inv w" "rm_ok R (gs_state s)" using f0 by (simp_all add: follows_def)
  let ?w1 = "w \<lparr> bw_pending := mempty \<rparr>" and ?w' = "fst (flush G ord mid w s)"
  have ok1: "worker_ok ?w1" by (simp add: worker_ok_def)
  have q1: "queue_inv (run_ops mid ?w1)"
    by (rule queue_inv_run_ops) (use mid(1) in \<open>simp_all add: queue_inv_def\<close>)
  have ok': "worker_ok ?w'" by (rule flush_ok[OF f(1)])
  have p: "pending_at ?w' q = (case pending_at w q of Some op \<Rightarrow> Some op | None \<Rightarrow> pending_at (run_ops mid ?w1) q)"
    for q by (rule flush_failure[OF url(2,1) x L(2) f(1)])
  have p1: "pending_at (run_ops mid ?w1) q = last_op mid q" for q
    unfolding run_ops_last_op[OF ok1] by (simp add: pending_at_def split: option.split)
  have "queue_inv ?w'"
    using f(2) q1 unfolding queue_inv_iff[OF f(1)] queue_inv_iff[OF ok'] queue_inv_iff[OF run_ops_ok[OF ok1]] p
    by (auto split: option.splits)
  moreover have "path_follows R g0 (ops @ mid) ?w' (gs_state s') xs" if xs: "inv_path xs" for xs
  proof -
    let ?p = "join_slash (live_elems xs)"
    have pf: "path_follows R g0 ops w (gs_state s) xs" using f0 xs by (simp add: follows_def)
    have tree: "rm_tree R (gs_state s') (live_elems xs) = rm_tree R (gs_state s) (live_elems xs)"
      if "pending_at w ?p = None"
      using export_path(2)[OF L(1) f(3,2,1) L(2) x xs] that by (simp add: live_after_def)
    have "last_op mid ?p = None" if "pending_at w ?p \<noteq> None"
      using mid(2) that by (intro last_op_None) auto
    then show ?thesis
      using pf tree by (simp add: path_follows_def last_op_append p p1 Let_def split: option.splits)
  qed
  moreover have "rm_ok R (gs_state s')" by (rule export_path(1)[OF L(1) f(3,2,1) L(2) x])
  ultimately show ?thesis using ok' by (simp add: follows_def)
qed

lemma follows_flush:
  assumes L: "remote_laws G R" "range_order ord" and f0: "follows R g0 ops w (gs_state s)"
    and url: "trim_space (GitRepoURL (bw_cfg w)) \<noteq> ''''"
    and mid: "\<forall>x \<in> set mid. inv_worker_op x"
      "fst (exportBatch G ord (bw_cfg w) (bw_pending w) s) \<noteq> None \<Longrightarrow>
         \<forall>x \<in> set mid. pending_at w (fst (entry_of x)) = None"
  shows "follows R g0 (ops @ mid) (fst (flush G ord mid w s)) (gs_state (snd (flush G ord mid w s)))"
proof (cases "bw_pending w = []")
  case True
  then show ?thesis using follows_ops[OF f0 mid(1)] by (simp add: flush_empty)
next
  case False
  obtain r s' where x: "exportBatch G ord (bw_cfg w) (bw_pending w) s = (r, s')" by fastforce
  show ?thesis
  proof (cases r)
    case None
    with x have x': "exportBatch G ord (bw_cfg w) (bw_pending w) s = (None, s')" by simp
    show ?thesis
      using follows_ops[OF follows_taken[OF L f0 x'] mid(1)] flush_success[OF False url x', of mid] by simp
  next
    case (Some e)
    have "snd (flush G ord mid w s) = s'"
      using x Some False url by (simp add: flush_def Let_def)
    then show ?thesis
      using follows_put_back[OF L f0 url False _ mid(1)] mid(2) x Some by simp
  qed
qed

lemma follows_loop:
  assumes L: "remote_laws G R" "range_order ord"
  shows "follows R g0 ops w (gs_state s) \<Longrightarrow> trim_space (GitRepoURL (bw_cfg w)) \<noteq> '''' \<Longrightarrow>
    \<forall>x \<in> set (ops_of es). inv_worker_op x \<Longrightarrow> undisturbed G ord es w s \<Longrightarrow>
    start_loop G ord es w s \<in> {StartRunning w' s', StartReturned w' s'} \<Longrightarrow>
    follows R g0 (ops @ ops_of es) w' (gs_state s')"
proof (induction es arbitrary: ops w s)
  case (Cons e es)
  show ?case
  proof (cases e)
    case (EvOp x)
    have "follows R g0 (ops @ [x]) (run_ops [x] w) (gs_state s)"
      by (rule follows_ops) (use Cons.prems EvOp in simp_all)
    then have "follows R g0 (ops @ [x]) (run_op x w) (gs_state s)" by (simp add: run_ops_def)
    moreover have "bw_cfg (run_op x w) = bw_cfg w" by (simp add: run_op_entry put_pending_def)
    ultimately show ?thesis
      using Cons.IH[of "ops @ [x]" "run_op x w" s] Cons.prems EvOp by simp
  next
    case (EvTick mid)
    obtain w1 s1 where fl: "flush G ord mid w s = (w1, s1)" by fastforce
    have "follows R g0 (ops @ mid) w1 (gs_state s1)"
      using follows_flush[OF L Cons.prems(1,2), of mid] Cons.prems(3,4) EvTick fl by simp
    moreover have "bw_cfg w1 = bw_cfg w" using flush_cfg[of G ord mid w s] fl by simp
    ultimately show ?thesis
      using Cons.IH[of "ops @ mid" w1 s1] Cons.prems EvTick fl by simp
  next
    case EvDone
    then show ?thesis using Cons.prems by simp
  qed
qed simp

lemma follows_New: "rm_ok R g \<Longrightarrow> follows R g [] (NewBatchWorker cfg) g"
  by (simp add: follows_def path_follows_def last_op_def live_after_def pending_at_def NewBatchWorker_def
      worker_ok_def queue_inv_def)


subsection \<open>Catching up\<close>

lemma start_loop_append:
  "start_loop G ord es w s = StartRunning w1 s1 \<Longrightarrow> start_loop G ord (es @ es') w s = start_loop G ord es' w1 s1"
proof (induction es arbitrary: w s)
  case (Cons e es)
  then show ?case by (cases e) (simp_all split: prod.splits)
qed simp

lemma start_loop_cfg:
  "start_loop G ord es w s = StartRunning w1 s1 \<Longrightarrow> bw_cfg w1 = bw_cfg w"
proof (induction es arbitrary: w s)
  case (Cons e es)
  show ?case
  proof (cases e)
    case (EvOp x)
    then show ?thesis using Cons by (fastforce simp: run_op_entry put_pending_def)
  next
    case (EvTick mid)
    obtain w2 s2 where f: "flush G ord mid w s = (w2, s2)" by fastforce
    then have "bw_cfg w1 = bw_cfg w2" using Cons EvTick by simp
    then show ?thesis using flush_cfg[of G ord mid w s] f by simp
  qed (use Cons.prems in simp)
qed simp

text \<open>A flush on which Git works empties a queue of operations on the inventory layout.\<close>

lemma working_flush:
  assumes "git_works G (bw_cfg w) (gs_state s, gs_fs s)" "queue_inv w" "worker_ok w" "range_order ord"
    and "trim_space (GitRepoURL (bw_cfg w)) \<noteq> ''''"
  shows "bw_pending (fst (flush G ord [] w s)) = mempty"
    and "fst (exportBatch G ord (bw_cfg w) (bw_pending w) s) = None"
proof -
  obtain s1 where x: "exportBatch G ord (bw_cfg w) (bw_pending w) s = (None, s1)"
    using export_works[OF assms(1-4)] by blast
  then show "fst (exportBatch G ord (bw_cfg w) (bw_pending w) s) = None" by simp
  show "bw_pending (fst (flush G ord [] w s)) = mempty"
  proof (cases "bw_pending w = []")
    case True
    then show ?thesis by (simp add: flush_empty run_ops_def)
  next
    case False
    then show ?thesis using flush_success[OF False assms(5) x, of "[]"] by (simp add: run_ops_def)
  qed
qed

text \<open>After any run, one working tick brings the branch to the last operation on every path.\<close>

lemma loop_catches_up:
  assumes L: "remote_laws G R" "range_order ord" and s: "rm_ok R (gs_state s)" "trim_space (GitRepoURL cfg) \<noteq> ''''"
    and es: "\<forall>x \<in> set (ops_of es). inv_worker_op x" "undisturbed G ord es (NewBatchWorker cfg) s"
    and run: "start_loop G ord es (NewBatchWorker cfg) s = StartRunning w1 s1"
    and g: "git_works G cfg (gs_state s1, gs_fs s1)"
  shows "\<exists>w' s'. start_loop G ord (es @ [EvTick []]) (NewBatchWorker cfg) s = StartRunning w' s' \<and>
    bw_pending w' = mempty \<and> follows R (gs_state s) (ops_of es) w' (gs_state s')"
proof -
  have cfg: "bw_cfg w1 = cfg" using start_loop_cfg[OF run] by (simp add: NewBatchWorker_def)
  have url: "trim_space (GitRepoURL (bw_cfg (NewBatchWorker cfg))) \<noteq> ''''"
    using s(2) by (simp add: NewBatchWorker_def)
  have f: "follows R (gs_state s) (ops_of es) w1 (gs_state s1)"
    using follows_loop[OF L follows_New[OF s(1)] url es, of w1 s1] run by simp
  obtain w' s' where fl: "flush G ord [] w1 s1 = (w', s')" by fastforce
  have ok: "queue_inv w1" "worker_ok w1" using f by (simp_all add: follows_def)
  have url1: "trim_space (GitRepoURL (bw_cfg w1)) \<noteq> ''''" using s(2) by (simp add: cfg)
  note W = working_flush[OF _ ok L(2) url1, of G s1, unfolded cfg, OF g]
  have "follows R (gs_state s) (ops_of es @ []) w' (gs_state s')"
    using follows_flush[OF L f url1, of "[]"] fl by simp
  then show ?thesis
    using start_loop_append[OF run, of "[EvTick []]"] fl W(1) by simp
qed

end
