(* ===== verification/Control.thy ===== *)
theory Control
  imports Remote
begin

section \<open>The whole inventory controller: reconcilers, queue, worker and remote branch\<close>

text \<open>
  One run of the controller: watch events reach the two reconcilers, ticks flush the queue, and events
  also arrive while an export runs. What a reconciler does is first given abstractly, as a \<open>delta\<close> on
  the cache and the queue that depends on the cache, the object and the answer of the API server only;
  \<open>react_delta\<close> is the refinement. The invariant then ties the cache to the branch on the Git server.
\<close>

subsection \<open>What a reconciler does\<close>

text \<open>An event for an Application (\<open>True\<close>) or an ApplicationSet, with the state of the API server.\<close>

datatype ('o, 'w) watch = Watch bool request "('o, 'w) world"

definition kind_name :: "bool \<Rightarrow> string" where
  "kind_name app = (if app then ''Application'' else ''ApplicationSet'')"

definition watch_gvk :: "bool \<Rightarrow> gvk" where
  "watch_gvk app = (if app then ApplicationGVK else ApplicationSetGVK)"

definition react ::
  "ext \<Rightarrow> 'o unstr \<Rightarrow> ('o, 'w) client \<Rightarrow> ('o, 'w) watch \<Rightarrow> ReconcileDeps \<Rightarrow> ReconcileDeps" where
  "react X U C e d =
     (case e of Watch app req w \<Rightarrow>
        fst (snd (if app then Application_Reconcile X U C d req w else ApplicationSet_Reconcile X U C d req w)))"

datatype delta = Nothing | Export string bytes string | Forget string

definition delta_of ::
  "ext \<Rightarrow> 'o unstr \<Rightarrow> ('o, 'w) client \<Rightarrow> ('o, 'w) watch \<Rightarrow> HashCache \<Rightarrow> delta" where
  "delta_of X U C e c =
     (case e of Watch app req w \<Rightarrow>
        (let key = ExportObjectCacheKey X (kind_name app) (rq_namespace req) (rq_name req) in
         case fst (do_get C (watch_gvk app) (rq_namespace req) (rq_name req) w) of
           Inl ApiNotFound \<Rightarrow> Forget key
         | Inl (ApiOther m) \<Rightarrow> Nothing
         | Inr ob \<Rightarrow>
             (case NormalizedYAMLAndMaterialHash X U ob of
                Inl err \<Rightarrow> Nothing
              | Inr (yb, h) \<Rightarrow>
                  if stamped U ob h \<or> Cache_Get c key = Some h then Nothing else Export key yb h)))"

primrec delta_ops :: "delta \<Rightarrow> worker_op list" where
  "delta_ops Nothing = []"
| "delta_ops (Export key yb h) = [OpEnqueue \<lparr> job_Path = path_of_key key, job_Content = yb \<rparr>]"
| "delta_ops (Forget key) = [OpArchive (path_of_key key)]"

primrec delta_cache :: "delta \<Rightarrow> HashCache \<Rightarrow> HashCache" where
  "delta_cache Nothing c = c"
| "delta_cache (Export key yb h) c = Cache_Set key h c"
| "delta_cache (Forget key) c = Cache_Delete key c"

definition apply_delta :: "delta \<Rightarrow> ReconcileDeps \<Rightarrow> ReconcileDeps" where
  "apply_delta x d =
     d \<lparr> rd_cache := delta_cache x (rd_cache d), rd_queue := run_ops (delta_ops x) (rd_queue d) \<rparr>"

lemma handle_delta:
  assumes "rd_tmpl d = defaultExportPathTemplate"
    and key: "key = ExportObjectCacheKey X kind (rq_namespace req) (rq_name req)"
  shows "snd (handle X U d req ob kind) = apply_delta
    (case NormalizedYAMLAndMaterialHash X U ob of
       Inl err \<Rightarrow> Nothing
     | Inr (yb, h) \<Rightarrow>
         if stamped U ob h \<or> Cache_Get (rd_cache d) key = Some h then Nothing else Export key yb h) d"
proof (cases "NormalizedYAMLAndMaterialHash X U ob")
  case (Inl e)
  then show ?thesis by (simp add: handle_normalize_error apply_delta_def run_ops_def)
next
  case (Inr r)
  then obtain yb h where r: "NormalizedYAMLAndMaterialHash X U ob = Inr (yb, h)" by (cases r) auto
  show ?thesis
  proof (cases "stamped U ob h \<or> Cache_Get (rd_cache d) key = Some h")
    case True
    then show ?thesis
      using handle_stamped[OF r] handle_cached[OF r, of d kind req] r
      by (auto simp: key apply_delta_def run_ops_def)
  next
    case False
    then show ?thesis
      using handle_changed[OF r, of d kind req] r
      by (simp add: key assms(1) render_key apply_delta_def run_ops_def Let_def)
  qed
qed

text \<open>Both reconcilers implement the abstract operation, whatever the queue holds.\<close>

lemma react_delta:
  assumes "rd_tmpl d = defaultExportPathTemplate"
  shows "react X U C e d = apply_delta (delta_of X U C e (rd_cache d)) d"
proof -
  obtain app req w where e: "e = Watch app req w" by (cases e)
  obtain r w1 where r: "do_get C (watch_gvk app) (rq_namespace req) (rq_name req) w = (r, w1)"
    by fastforce
  have "fst (snd (reconcile_kind (watch_gvk app) (kind_name app) X U C d req w)) =
      apply_delta (delta_of X U C e (rd_cache d)) d"
  proof (cases r)
    case (Inl a)
    then show ?thesis
      by (cases a) (simp_all add: reconcile_kind_def delta_of_def e r assms render_key apply_delta_def run_ops_def Let_def)
  next
    case (Inr ob)
    have "fst (snd (reconcile_kind (watch_gvk app) (kind_name app) X U C d req w)) =
        snd (handle X U d req ob (kind_name app))"
      by (simp add: reconcile_kind_def r Inr split: prod.split)
    also have "\<dots> = apply_delta (delta_of X U C e (rd_cache d)) d"
      unfolding handle_delta[OF assms refl] by (simp add: delta_of_def e r Inr Let_def)
    finally show ?thesis .
  qed
  then show ?thesis
    by (cases app) (simp_all add: react_def e Application_Reconcile_def ApplicationSet_Reconcile_def
        watch_gvk_def kind_name_def)
qed

lemma react_frame:
  assumes "rd_tmpl d = defaultExportPathTemplate"
  shows "rd_tmpl (react X U C e d) = defaultExportPathTemplate"
    "rd_cache (react X U C e d) = delta_cache (delta_of X U C e (rd_cache d)) (rd_cache d)"
    "rd_queue (react X U C e d) = run_ops (delta_ops (delta_of X U C e (rd_cache d))) (rd_queue d)"
  by (simp_all add: react_delta[OF assms] apply_delta_def assms)

subsection \<open>Runs\<close>

text \<open>The events that arrive during an export: the operations they enqueue, and the dependencies after them.\<close>

fun reacts ::
  "ext \<Rightarrow> 'o unstr \<Rightarrow> ('o, 'w) client \<Rightarrow> ('o, 'w) watch list \<Rightarrow> ReconcileDeps \<Rightarrow> worker_op list \<times> ReconcileDeps" where
  "reacts X U C [] d = ([], d)"
| "reacts X U C (e # es) d =
     (let (ops, d') = reacts X U C es (react X U C e d)
      in (delta_ops (delta_of X U C e (rd_cache d)) @ ops, d'))"

datatype ('o, 'w) ctl_step = React "('o, 'w) watch" | Tick "('o, 'w) watch list"

fun run_ctl ::
  "'g git \<Rightarrow> (batch \<Rightarrow> (string \<times> pendingExport) list) \<Rightarrow> ext \<Rightarrow> 'o unstr \<Rightarrow> ('o, 'w) client
    \<Rightarrow> ('o, 'w) ctl_step list \<Rightarrow> ReconcileDeps \<times> 'g gst \<Rightarrow> ReconcileDeps \<times> 'g gst" where
  "run_ctl G ord X U C [] st = st"
| "run_ctl G ord X U C (React e # es) st = run_ctl G ord X U C es (react X U C e (fst st), snd st)"
| "run_ctl G ord X U C (Tick mid # es) st =
     (let (ops, d1) = reacts X U C mid (fst st);
          (w, s) = flush G ord ops (rd_queue (fst st)) (snd st)
      in run_ctl G ord X U C es (d1 \<lparr> rd_queue := w \<rparr>, s))"

text \<open>No export fails while an event enqueues on a path of its batch.\<close>

fun ctl_undisturbed ::
  "'g git \<Rightarrow> (batch \<Rightarrow> (string \<times> pendingExport) list) \<Rightarrow> ext \<Rightarrow> 'o unstr \<Rightarrow> ('o, 'w) client
    \<Rightarrow> ('o, 'w) ctl_step list \<Rightarrow> ReconcileDeps \<times> 'g gst \<Rightarrow> bool" where
  "ctl_undisturbed G ord X U C [] st = True"
| "ctl_undisturbed G ord X U C (React e # es) st = ctl_undisturbed G ord X U C es (react X U C e (fst st), snd st)"
| "ctl_undisturbed G ord X U C (Tick mid # es) st =
     (let q = rd_queue (fst st);
          (ops, d1) = reacts X U C mid (fst st);
          (w, s) = flush G ord ops q (snd st)
      in (fst (exportBatch G ord (bw_cfg q) (bw_pending q) (snd st)) \<noteq> None \<longrightarrow>
            (\<forall>x \<in> set ops. pending_at q (fst (entry_of x)) = None)) \<and>
         ctl_undisturbed G ord X U C es (d1 \<lparr> rd_queue := w \<rparr>, s))"

definition valid_watch :: "('o, 'w) watch \<Rightarrow> bool" where
  "valid_watch e = (case e of Watch app req w \<Rightarrow> proper_elem (rq_namespace req) \<and> object_name (rq_name req))"

primrec valid_step :: "('o, 'w) ctl_step \<Rightarrow> bool" where
  "valid_step (React e) = valid_watch e"
| "valid_step (Tick mid) = list_all valid_watch mid"

subsection \<open>The cache tells what Git holds\<close>

lemma kind_name_argo: "argo_kind (kind_name app)"
  by (simp add: kind_name_def argo_kind_def)

lemma key_path:
  "path_of_key (ExportObjectCacheKey X kind ns n) = join_slash (live_elems (object_elems X kind ns n))"
  using render_key[of X kind ns n] render_object[of X kind ns n] by simp

lemma delta_ops_inv:
  assumes "valid_watch e"
  shows "\<forall>x \<in> set (delta_ops (delta_of X U C e c)). inv_worker_op x"
proof -
  obtain app req w where e: "e = Watch app req w" by (cases e)
  let ?key = "ExportObjectCacheKey X (kind_name app) (rq_namespace req) (rq_name req)"
  have "inv_path (object_elems X (kind_name app) (rq_namespace req) (rq_name req))"
    using assms by (intro object_elems_inv kind_name_argo) (simp_all add: valid_watch_def e)
  then have "inv_worker_op (OpArchive (path_of_key ?key))"
    "inv_worker_op (OpEnqueue \<lparr> job_Path = path_of_key ?key, job_Content = yb \<rparr>)" for yb
    by (auto simp: inv_worker_op_def key_path)
  then show ?thesis
    by (auto simp: delta_of_def e Let_def split: sum.splits api_error.splits)
qed

definition cache_backed :: "ext \<Rightarrow> 'o unstr \<Rightarrow> worker_op list \<Rightarrow> HashCache \<Rightarrow> bool" where
  "cache_backed X U ops c =
     (cache_ok c \<and> (\<forall>key h. Cache_Get c key = Some h \<longrightarrow>
        (\<exists>yb. last_op ops (path_of_key key) = Some \<lparr> pe_kind = opWrite, pe_content = yb \<rparr> \<and> exports X U yb h)))"

lemma delta_exports: "delta_of X U C e c = Export key yb h \<Longrightarrow> exports X U yb h"
  by (auto simp: delta_of_def exports_def Let_def split: watch.splits sum.splits api_error.splits if_splits)

lemma cache_backed_delta:
  assumes "cache_backed X U ops c"
  shows "cache_backed X U (ops @ delta_ops (delta_of X U C e c)) (delta_cache (delta_of X U C e c) c)"
proof -
  have ok: "cache_ok c" using assms by (simp add: cache_backed_def)
  have one: "last_op [x] p = (if p = fst (entry_of x) then Some (snd (entry_of x)) else None)" for x p
    by (cases "entry_of x") (simp add: last_op_def)
  show ?thesis
  proof (cases "delta_of X U C e c")
    case Nothing
    then show ?thesis using assms by simp
  next
    case (Export key yb h)
    then show ?thesis
      using assms delta_exports[OF Export] hc.inv_store[OF ok]
      by (auto simp: cache_backed_def last_op_append one hc.lookup_store[OF ok] path_of_key_inject)
  next
    case (Forget key)
    then show ?thesis
      using assms hc.inv_erase[OF ok]
      by (auto simp: cache_backed_def last_op_append one hc.lookup_erase[OF ok] path_of_key_inject)
  qed
qed

lemma reacts_backed:
  assumes "rd_tmpl d = defaultExportPathTemplate" "cache_backed X U ops (rd_cache d)" "list_all valid_watch es"
    "reacts X U C es d = (new, d')"
  shows "rd_tmpl d' = defaultExportPathTemplate \<and> cache_backed X U (ops @ new) (rd_cache d') \<and>
    (\<forall>x \<in> set new. inv_worker_op x)"
  using assms
proof (induction es arbitrary: ops d new)
  case (Cons e es)
  obtain new1 where r: "reacts X U C es (react X U C e d) = (new1, d')"
    "new = delta_ops (delta_of X U C e (rd_cache d)) @ new1"
    using Cons.prems(4) by (auto simp: Let_def split: prod.splits)
  have b: "cache_backed X U (ops @ delta_ops (delta_of X U C e (rd_cache d))) (rd_cache (react X U C e d))"
    unfolding react_frame(2)[OF Cons.prems(1)] by (rule cache_backed_delta[OF Cons.prems(2)])
  have v: "valid_watch e" "list_all valid_watch es" using Cons.prems(3) by simp_all
  from Cons.IH[OF react_frame(1)[OF Cons.prems(1)] b v(2) r(1)] show ?case
    using r(2) delta_ops_inv[OF v(1)] by auto
qed simp

text \<open>The invariant of a run, with the operations so far as a ghost.\<close>

definition ctl_inv ::
  "'g remote \<Rightarrow> 'g \<Rightarrow> ext \<Rightarrow> 'o unstr \<Rightarrow> worker_op list \<Rightarrow> ReconcileDeps \<times> 'g gst \<Rightarrow> bool" where
  "ctl_inv R g0 X U ops st \<longleftrightarrow>
     follows R g0 ops (rd_queue (fst st)) (gs_state (snd st)) \<and> cache_backed X U ops (rd_cache (fst st)) \<and>
     rd_tmpl (fst st) = defaultExportPathTemplate \<and>
     trim_space (GitRepoURL (bw_cfg (rd_queue (fst st)))) \<noteq> ''''"

lemma ctl_inv_react:
  assumes "ctl_inv R g0 X U ops (d, s)" "valid_watch e"
  shows "ctl_inv R g0 X U (ops @ delta_ops (delta_of X U C e (rd_cache d))) (react X U C e d, s)"
proof -
  have t: "rd_tmpl d = defaultExportPathTemplate" using assms(1) by (simp add: ctl_inv_def)
  have "follows R g0 ops (rd_queue d) (gs_state s)" "cache_backed X U ops (rd_cache d)"
    using assms(1) by (simp_all add: ctl_inv_def)
  from follows_ops[OF this(1) delta_ops_inv[OF assms(2), of X U C "rd_cache d"]] cache_backed_delta[OF this(2), of C e]
  show ?thesis
    using assms(1) by (simp add: ctl_inv_def react_frame[OF t])
qed

lemma ctl_inv_tick:
  assumes L: "remote_laws G R" "range_order ord" and i: "ctl_inv R g0 X U ops (d, s)"
    and v: "list_all valid_watch mid" and r: "reacts X U C mid d = (new, d1)"
    and f: "flush G ord new (rd_queue d) s = (w, s1)"
    and u: "fst (exportBatch G ord (bw_cfg (rd_queue d)) (bw_pending (rd_queue d)) s) \<noteq> None \<Longrightarrow>
        \<forall>x \<in> set new. pending_at (rd_queue d) (fst (entry_of x)) = None"
  shows "ctl_inv R g0 X U (ops @ new) (d1 \<lparr> rd_queue := w \<rparr>, s1)"
proof -
  have p: "follows R g0 ops (rd_queue d) (gs_state s)" "cache_backed X U ops (rd_cache d)"
    "rd_tmpl d = defaultExportPathTemplate" "trim_space (GitRepoURL (bw_cfg (rd_queue d))) \<noteq> ''''"
    using i by (simp_all add: ctl_inv_def)
  have n: "rd_tmpl d1 = defaultExportPathTemplate" "cache_backed X U (ops @ new) (rd_cache d1)"
    "\<forall>x \<in> set new. inv_worker_op x"
    using reacts_backed[OF p(3,2) v r] by auto
  have "follows R g0 (ops @ new) w (gs_state s1)"
    using follows_flush[OF L p(1,4) n(3) u] f by simp
  moreover have "bw_cfg w = bw_cfg (rd_queue d)" using flush_cfg[of G ord new "rd_queue d" s] f by simp
  ultimately show ?thesis using n(1,2) p(4) by (simp add: ctl_inv_def)
qed

lemma run_ctl_inv:
  assumes L: "remote_laws G R" "range_order ord"
  shows "ctl_inv R g0 X U ops st \<Longrightarrow> list_all valid_step es \<Longrightarrow> ctl_undisturbed G ord X U C es st \<Longrightarrow>
    \<exists>ops'. ctl_inv R g0 X U ops' (run_ctl G ord X U C es st)"
proof (induction es arbitrary: ops st)
  case Nil
  then show ?case by auto
next
  case (Cons e es)
  obtain d s where st: "st = (d, s)" by (cases st)
  show ?case
  proof (cases e)
    case (React x)
    then show ?thesis
      using Cons.IH[OF ctl_inv_react[of R g0 X U ops d s x C]] Cons.prems st by simp
  next
    case (Tick mid)
    obtain new d1 where r: "reacts X U C mid d = (new, d1)" by fastforce
    obtain w s1 where f: "flush G ord new (rd_queue d) s = (w, s1)" by fastforce
    show ?thesis
      using Cons.IH[OF ctl_inv_tick[OF L _ _ r f]] Cons.prems st Tick r f by (simp add: Let_def)
  qed
qed

definition fresh_deps :: "InventoryControllerConfig \<Rightarrow> ReconcileDeps" where
  "fresh_deps cfg =
     \<lparr> rd_cache = NewHashCache, rd_queue = NewBatchWorker cfg, rd_tmpl = defaultExportPathTemplate \<rparr>"

lemma ctl_inv_init:
  "rm_ok R (gs_state s) \<Longrightarrow> trim_space (GitRepoURL cfg) \<noteq> '''' \<Longrightarrow>
   ctl_inv R (gs_state s) X U [] (fresh_deps cfg, s)"
  using follows_New[of R "gs_state s" cfg]
  by (simp add: ctl_inv_def fresh_deps_def cache_backed_def NewBatchWorker_def)

end
