(* ===== verification/Resync.thy ===== *)
theory Resync
  imports Control Cluster
begin

section \<open>A restart: every object is seen once, then a tick\<close>

text \<open>
  A controller that starts sees every object of the cluster once, with an empty cache. \<open>resync_ops\<close> is what
  these events enqueue, in any order; \<open>resync_branch\<close> is the branch after the first tick on which Git answers
  as it should, path by path, including the paths on which nothing is enqueued.
\<close>

definition watch_key :: "ext \<Rightarrow> ('o, 'w) watch \<Rightarrow> string" where
  "watch_key X e =
     (case e of Watch app req w \<Rightarrow> ExportObjectCacheKey X (kind_name app) (rq_namespace req) (rq_name req))"

definition watch_elems :: "ext \<Rightarrow> ('o, 'w) watch \<Rightarrow> string list" where
  "watch_elems X e =
     (case e of Watch app req w \<Rightarrow> object_elems X (kind_name app) (rq_namespace req) (rq_name req))"

lemma watch_path: "path_of_key (watch_key X e) = join_slash (live_elems (watch_elems X e))"
  by (cases e) (simp add: watch_key_def watch_elems_def key_path)

lemma watch_elems_inv: "valid_watch e \<Longrightarrow> inv_path (watch_elems X e)"
  by (cases e) (simp add: valid_watch_def watch_elems_def object_elems_inv kind_name_argo)

text \<open>What a reconciler does depends on the cache at the key of the object only.\<close>

lemma delta_cong:
  "Cache_Get c (watch_key X e) = Cache_Get c' (watch_key X e) \<Longrightarrow> delta_of X U C e c = delta_of X U C e c'"
  by (cases e) (simp add: delta_of_def watch_key_def Let_def split: sum.split)

lemma delta_key:
  "delta_of X U C e c = Export key yb h \<Longrightarrow> key = watch_key X e"
  "delta_of X U C e c = Forget key \<Longrightarrow> key = watch_key X e"
  by (auto simp: delta_of_def watch_key_def Let_def split: watch.splits sum.splits api_error.splits if_splits)

lemma delta_cache_other:
  assumes "cache_ok c" "k \<noteq> watch_key X e"
  shows "Cache_Get (delta_cache (delta_of X U C e c') c) k = Cache_Get c k"
proof (cases "delta_of X U C e c'")
  case (Export key yb h)
  then show ?thesis using assms delta_key(1)[OF Export] by (simp add: hc.lookup_store)
next
  case (Forget key)
  then show ?thesis using assms delta_key(2)[OF Forget] by (simp add: hc.lookup_erase)
qed simp

definition resync_ops :: "ext \<Rightarrow> 'o unstr \<Rightarrow> ('o, 'w) client \<Rightarrow> ('o, 'w) watch list \<Rightarrow> HashCache \<Rightarrow> worker_op list" where
  "resync_ops X U C es c = concat (map (\<lambda>e. delta_ops (delta_of X U C e c)) es)"

lemma resync_ops_cong:
  "\<forall>e \<in> set es. Cache_Get c (watch_key X e) = Cache_Get c' (watch_key X e) \<Longrightarrow>
   resync_ops X U C es c = resync_ops X U C es c'"
  unfolding resync_ops_def by (intro arg_cong[where f = concat] map_cong refl arg_cong[where f = delta_ops] delta_cong) blast

lemma delta_entry:
  "x \<in> set (delta_ops (delta_of X U C e c)) \<Longrightarrow> fst (entry_of x) = path_of_key (watch_key X e)"
  using delta_key[of X U C e c] by (cases "delta_of X U C e c") auto

lemma ctl_inv_resync:
  assumes "ctl_inv R g0 X U ops (d, s)" "list_all valid_watch es" "distinct (map (watch_key X) es)"
  shows "\<exists>d'. run_ctl G ord X U C (map React es) (d, s) = (d', s) \<and> bw_cfg (rd_queue d') = bw_cfg (rd_queue d) \<and>
    ctl_inv R g0 X U (ops @ resync_ops X U C es (rd_cache d)) (d', s)"
  using assms
proof (induction es arbitrary: ops d)
  case (Cons e es)
  let ?d = "react X U C e d"
  have t: "rd_tmpl d = defaultExportPathTemplate" and ok: "cache_ok (rd_cache d)"
    using Cons.prems(1) by (simp_all add: ctl_inv_def cache_backed_def)
  have q: "bw_cfg (rd_queue ?d) = bw_cfg (rd_queue d)"
    unfolding react_frame[OF t]
    by (cases "delta_of X U C e (rd_cache d)") (simp_all add: run_ops_def run_op_entry put_pending_def)
  have "Cache_Get (rd_cache ?d) (watch_key X x) = Cache_Get (rd_cache d) (watch_key X x)" if "x \<in> set es" for x
    unfolding react_frame(2)[OF t] by (rule delta_cache_other[OF ok]) (use Cons.prems(3) that in \<open>auto simp: image_iff\<close>)
  then have r: "resync_ops X U C es (rd_cache ?d) = resync_ops X U C es (rd_cache d)"
    by (intro resync_ops_cong) blast
  have i: "ctl_inv R g0 X U (ops @ delta_ops (delta_of X U C e (rd_cache d))) (?d, s)"
    by (rule ctl_inv_react) (use Cons.prems in simp_all)
  show ?case
    using Cons.IH[OF i] Cons.prems(2,3) unfolding r q by (simp add: resync_ops_def)
qed (simp add: resync_ops_def)

lemma resync_other:
  assumes "\<forall>e \<in> set es. path_of_key (watch_key X e) \<noteq> p"
  shows "last_op (resync_ops X U C es c) p = None"
  using assms by (intro last_op_None) (auto simp: resync_ops_def dest!: delta_entry)

text \<open>The last operation on the path of one object among those of a resync: its own.\<close>

lemma resync_last_op:
  assumes "distinct (map (watch_key X) es)" "e \<in> set es"
  shows "last_op (resync_ops X U C es c) (path_of_key (watch_key X e)) = last_op (delta_ops (delta_of X U C e c)) (path_of_key (watch_key X e))"
proof -
  obtain a b where es: "es = a @ e # b" using assms(2) by (metis split_list)
  have "\<forall>x \<in> set a \<union> set b. path_of_key (watch_key X x) \<noteq> path_of_key (watch_key X e)"
    using assms(1) by (auto simp: es image_iff path_of_key_inject)
  then have n: "last_op (resync_ops X U C l c) (path_of_key (watch_key X e)) = None" if "set l \<subseteq> set a \<union> set b" for l
    using that by (intro resync_other) blast
  have "resync_ops X U C es c = resync_ops X U C a c @ delta_ops (delta_of X U C e c) @ resync_ops X U C b c"
    by (simp add: resync_ops_def es)
  then show ?thesis using n[of a] n[of b] by (simp add: last_op_append split: option.split)
qed

subsection \<open>A tick on which Git works\<close>

lemma working_tick:
  assumes L: "remote_laws G R" "range_order ord" and i: "ctl_inv R g0 X U ops (d, s)"
    and g: "git_works G (bw_cfg (rd_queue d)) (gs_state s, gs_fs s)" and xs: "inv_path xs"
  shows "\<exists>d' s'. run_ctl G ord X U C [Tick []] (d, s) = (d', s') \<and> rd_cache d' = rd_cache d \<and>
    bw_pending (rd_queue d') = mempty \<and> ctl_inv R g0 X U ops (d', s') \<and>
    rm_tree R (gs_state s') (live_elems xs) =
      live_after (last_op ops (join_slash (live_elems xs))) (rm_tree R g0 (live_elems xs))"
proof -
  have q: "queue_inv (rd_queue d)" "worker_ok (rd_queue d)" "trim_space (GitRepoURL (bw_cfg (rd_queue d))) \<noteq> ''''"
    using i by (simp_all add: ctl_inv_def follows_def)
  obtain w s' where f: "flush G ord [] (rd_queue d) s = (w, s')" by fastforce
  have e: "bw_pending w = mempty" using working_flush(1)[OF g q(1,2) L(2) q(3)] f by simp
  have r: "reacts X U C [] d = ([], d)" by simp
  have "ctl_inv R g0 X U (ops @ []) (d \<lparr> rd_queue := w \<rparr>, s')"
    by (rule ctl_inv_tick[OF L i _ r f]) simp_all
  then have n: "ctl_inv R g0 X U ops (d \<lparr> rd_queue := w \<rparr>, s')" by simp
  then have "path_follows R g0 ops w (gs_state s') xs"
    using xs by (simp add: ctl_inv_def follows_def)
  then show ?thesis
    using e f n by (simp add: path_follows_def pending_at_def)
qed

lemma run_ctl_append: "run_ctl G ord X U C (a @ b) st = run_ctl G ord X U C b (run_ctl G ord X U C a st)"
proof (induction a arbitrary: st)
  case (Cons e a)
  then show ?case by (cases e) (simp_all split: prod.split)
qed simp

definition file_after :: "delta \<Rightarrow> node option \<Rightarrow> node option" where
  "file_after x old = (case x of Nothing \<Rightarrow> old | Export key yb h \<Rightarrow> Some (File yb) | Forget key \<Rightarrow> None)"

lemma live_after_delta:
  "x = delta_of X U C e c \<Longrightarrow>
   live_after (last_op (delta_ops x) (path_of_key (watch_key X e))) old = file_after x old"
  using delta_key[of X U C e c]
  by (cases "delta_of X U C e c") (auto simp: live_after_def last_op_def file_after_def opWrite_def opArchive_def)

text \<open>The branch after a resync and a working tick.\<close>

lemma resync_branch:
  assumes L: "remote_laws G R" "range_order ord" and s: "rm_ok R (gs_state s)" "trim_space (GitRepoURL cfg) \<noteq> ''''"
    and es: "list_all valid_watch es" "distinct (map (watch_key X) es)"
    and g: "git_works G cfg (gs_state s, gs_fs s)"
  shows "\<exists>d' s'. run_ctl G ord X U C (map React es @ [Tick []]) (fresh_deps cfg, s) = (d', s') \<and>
    bw_pending (rd_queue d') = mempty \<and>
    (\<forall>e \<in> set es. rm_tree R (gs_state s') (live_elems (watch_elems X e)) =
       file_after (delta_of X U C e NewHashCache) (rm_tree R (gs_state s) (live_elems (watch_elems X e)))) \<and>
    (\<forall>xs. inv_path xs \<longrightarrow> xs \<notin> watch_elems X ` set es \<longrightarrow>
       rm_tree R (gs_state s') (live_elems xs) = rm_tree R (gs_state s) (live_elems xs))"
proof -
  let ?d = "fresh_deps cfg" and ?ops = "resync_ops X U C es NewHashCache"
  obtain d1 where d1: "run_ctl G ord X U C (map React es) (?d, s) = (d1, s)" "bw_cfg (rd_queue d1) = bw_cfg (rd_queue ?d)"
    "ctl_inv R (gs_state s) X U ([] @ resync_ops X U C es (rd_cache ?d)) (d1, s)"
    using ctl_inv_resync[OF ctl_inv_init[OF s] es] by blast
  have c: "rd_cache ?d = NewHashCache" "bw_cfg (rd_queue ?d) = cfg" by (simp_all add: fresh_deps_def NewBatchWorker_def)
  obtain d' s' where run: "run_ctl G ord X U C [Tick []] (d1, s) = (d', s')" by fastforce
  have i: "ctl_inv R (gs_state s) X U ?ops (d1, s)" using d1(3) by (simp add: c)
  have g1: "git_works G (bw_cfg (rd_queue d1)) (gs_state s, gs_fs s)" using g by (simp add: d1(2) c)
  have T: "bw_pending (rd_queue d') = mempty \<and> rm_tree R (gs_state s') (live_elems xs) =
      live_after (last_op ?ops (join_slash (live_elems xs))) (rm_tree R (gs_state s) (live_elems xs))" if "inv_path xs" for xs
    using working_tick[OF L i g1 that, of C] run by auto
  have path0: "inv_path [''applications'', ''n'', ''f'']" by code_simp
  have at: "rm_tree R (gs_state s') (live_elems (watch_elems X e)) =
      file_after (delta_of X U C e NewHashCache) (rm_tree R (gs_state s) (live_elems (watch_elems X e)))" if "e \<in> set es" for e
  proof -
    have "inv_path (watch_elems X e)" using es(1) that watch_elems_inv by (auto simp: list_all_iff)
    then show ?thesis
      using T[of "watch_elems X e"] resync_last_op[OF es(2) that, of U C NewHashCache]
      by (simp add: watch_path[symmetric] live_after_delta)
  qed
  have other: "rm_tree R (gs_state s') (live_elems xs) = rm_tree R (gs_state s) (live_elems xs)"
    if xs: "inv_path xs" "xs \<notin> watch_elems X ` set es" for xs
  proof -
    have "path_of_key (watch_key X e) \<noteq> join_slash (live_elems xs)" if "e \<in> set es" for e
      using live_path_inject[OF xs(1) watch_elems_inv, of e X] es(1) xs(2) that
      by (auto simp: watch_path list_all_iff)
    then have "last_op ?ops (join_slash (live_elems xs)) = None" by (intro resync_other) blast
    then show ?thesis using T[OF xs(1)] by (simp add: live_after_def)
  qed
  show ?thesis using T[OF path0] at other run by (simp add: run_ctl_append d1(1))
qed

end
