(* ===== verification/PropsRemote.thy ===== *)
theory PropsRemote
  imports Resync PropsGit PropsExport
begin

section \<open>Properties of the remote repository\<close>

text \<open>
  What the branch holds after any run of the batch worker, and after any run of the whole inventory
  controller, with witnesses on a Git whose state is the branch and the last commit.
\<close>


definition g_repo :: "(fs \<times> fs) git" where
  "g_repo = \<lparr> g_mkdirtemp = (\<lambda>(g, f). (Inr dir0, g, f)),
     g_clone = (\<lambda>d opts (g, f). if d = dir0 then (None, (fst g, fst g), fst g) else (Some ''exists'', g, f)),
     g_open = (\<lambda>d s. None), g_worktree = (\<lambda>d s. None), g_add = (\<lambda>d (g, f). (None, g)),
     g_status = (\<lambda>d s. Inr False), g_commit = (\<lambda>d m (g, f). (None, (fst g, f))),
     g_push = (\<lambda>d a (g, f). if d = dir0 then (None, (f, snd g)) else (Some ''no such clone'', g)) \<rparr>"

definition repo0 :: "(fs \<times> fs) remote" where
  "repo0 = \<lparr> rm_tree = (\<lambda>g. tree_below dir0 (fst g)), rm_head = (\<lambda>g d. tree_below d (snd g)),
     rm_ok = (\<lambda>g. inv_tree (fs_path dir0) (fst g)) \<rparr>"

lemma repo0_laws: "remote_laws g_repo repo0"
proof -
  have "mkdirtemp_law g_repo repo0"
    using dir0_path(1) by (simp add: mkdirtemp_law_def keeps_def g_repo_def)
  moreover have "clone_law g_repo repo0" "status_law g_repo repo0" "commit_law g_repo repo0"
    by (auto simp: clone_law_def status_law_def commit_law_def keeps_def g_repo_def repo0_def same_inventory_def
        split: if_splits)
  moreover have "push_law g_repo repo0"
    by (auto simp: push_law_def g_repo_def repo0_def same_inventory_def split: if_splits)
  ultimately show ?thesis by (simp add: remote_laws_def)
qed

definition job0 :: ExportJob where
  "job0 = \<lparr> job_Path = join_slash (live_elems elems0), job_Content = ''new'' \<rparr>"

definition gst1 :: "(fs \<times> fs) gst" where
  "gst1 = \<lparr> gs_state = (fs0, fs0), gs_fs = fs0, gs_log = [] \<rparr>"

lemma repo0_exports:
  assumes "inv_path xs" "known_kind op"
  shows "fst (exportBatch g_repo id cfg0 [(join_slash (live_elems xs), op)] gst1) = None"
proof -
  define b where "b = map render_op [(xs, op)]"
  have "\<forall>e \<in> set [(xs, op)]. inv_op e" using assms by (simp add: inv_op_def)
  from apply_ops_update[OF dir0_path(1) fs0_ok this]
  obtain f where "apply_ops dir0 b fs0 = (None, f)" unfolding b_def by blast
  then have "fst (exportBatch g_repo id cfg0 b gst1) = None"
    by (simp add: exportBatch_def export_in_dir_def publish_def g_repo_def gst1_def Let_def)
  then show ?thesis by (simp add: b_def render_op_def)
qed

text \<open>A tick on a queue with one write.\<close>

lemma repo0_flush:
  assumes "inv_path xs"
    and w_def: "w = Enqueue \<lparr> job_Path = join_slash (live_elems xs), job_Content = c \<rparr> (NewBatchWorker cfg0)"
  shows "\<exists>s1. flush g_repo id [] w gst1 = (w \<lparr> bw_pending := mempty \<rparr>, s1)"
proof -
  have w: "bw_pending w = [(join_slash (live_elems xs), \<lparr> pe_kind = opWrite, pe_content = c \<rparr>)]" "bw_cfg w = cfg0"
    by (simp_all add: w_def Enqueue_def put_pending_def NewBatchWorker_def)
  have "known_kind \<lparr> pe_kind = opWrite, pe_content = c \<rparr>" by (simp add: known_kind_def)
  from repo0_exports[OF assms(1) this] obtain s1 where
    x: "exportBatch g_repo id (bw_cfg w) (bw_pending w) gst1 = (None, s1)"
    unfolding w by (metis prod.collapse)
  have "trim_space (GitRepoURL (bw_cfg w)) \<noteq> ''''" unfolding w by (simp add: cfg0_def trim_visible visible_ascii_def)
  then show ?thesis
    using flush_success[OF _ _ x, of "[]"] w by (simp add: run_ops_def)
qed

lemma gst1_ok: "rm_ok repo0 (gs_state gst1)" "trim_space (GitRepoURL cfg0) \<noteq> ''''" "range_order (id :: batch \<Rightarrow> _)"
  using fs0_ok by (simp_all add: repo0_def gst1_def cfg0_def trim_visible visible_ascii_def range_order_def)



text \<open>A Git whose first export fails: the directory cannot be made as long as the state says so.\<close>

definition g_late :: "(bool \<times> fs \<times> fs) git" where
  "g_late = \<lparr> g_mkdirtemp = (\<lambda>((up, g), f). (if up then Inr dir0 else Inl ''no space'', (True, g), f)),
     g_clone = (\<lambda>d opts ((up, g), f). if d = dir0 then (None, (up, fst g, fst g), fst g) else (Some ''exists'', (up, g), f)),
     g_open = (\<lambda>d s. None), g_worktree = (\<lambda>d s. None), g_add = (\<lambda>d (g, f). (None, g)),
     g_status = (\<lambda>d s. Inr False), g_commit = (\<lambda>d m ((up, g), f). (None, (up, fst g, f))),
     g_push = (\<lambda>d a ((up, g), f). if d = dir0 then (None, (up, f, snd g)) else (Some ''no such clone'', (up, g))) \<rparr>"

definition repo_late :: "(bool \<times> fs \<times> fs) remote" where
  "repo_late = \<lparr> rm_tree = (\<lambda>g. tree_below dir0 (fst (snd g))), rm_head = (\<lambda>g d. tree_below d (snd (snd g))),
     rm_ok = (\<lambda>g. inv_tree (fs_path dir0) (fst (snd g))) \<rparr>"

lemma repo_late_laws: "remote_laws g_late repo_late"
proof -
  have "mkdirtemp_law g_late repo_late"
    using dir0_path(1) by (simp add: mkdirtemp_law_def keeps_def g_late_def repo_late_def)
  moreover have "clone_law g_late repo_late" "status_law g_late repo_late" "commit_law g_late repo_late"
    by (auto simp: clone_law_def status_law_def commit_law_def keeps_def g_late_def repo_late_def same_inventory_def
        split: if_splits)
  moreover have "push_law g_late repo_late"
    by (auto simp: push_law_def g_late_def repo_late_def same_inventory_def split: if_splits)
  ultimately show ?thesis by (simp add: remote_laws_def)
qed

definition gst_late :: "(bool \<times> fs \<times> fs) gst" where
  "gst_late = \<lparr> gs_state = (False, fs0, fs0), gs_fs = fs0, gs_log = [] \<rparr>"



definition watch0 :: "(json gomap, sim) watch" where
  "watch0 = Watch True \<lparr> rq_namespace = ''argocd'', rq_name = ''web'' \<rparr>
     \<lparr> w_state = [(''Application'', ''argocd'', ''web'') \<mapsto> app0], w_calls = [] \<rparr>"

lemma watch0_delta:
  "delta_of x0 u0 c0 watch0 NewHashCache = Export (ExportObjectCacheKey x0 ''Application'' ''argocd'' ''web'') yaml0 hash0"
proof -
  have "fst (do_get c0 ApplicationGVK ''argocd'' ''web''
      \<lparr> w_state = [(''Application'', ''argocd'', ''web'') \<mapsto> app0], w_calls = [] \<rparr>)
    = Inr app0"
    by (simp add: do_get_def c0_def ApplicationGVK_def mget_def)
  then show ?thesis
    using app0_not_stamped[of hash0]
    by (simp add: delta_of_def watch0_def watch_gvk_def kind_name_def app0_hash Let_def)
qed



lemma g_repo_works: "git_works g_repo cfg (gs_state gst1, gs_fs gst1)"
  using dir0_path(1) fs0_ok by (simp add: git_works_def g_repo_def gst1_def)

lemma watch0_valid: "list_all valid_watch [watch0]" "distinct (map (watch_key X) [watch0])"
  "watch0 = Watch True \<lparr> rq_namespace = ''argocd'', rq_name = ''web'' \<rparr>
     \<lparr> w_state = [(''Application'', ''argocd'', ''web'') \<mapsto> app0], w_calls = [] \<rparr>"
proof -
  have "proper_elem ''argocd''" "object_name ''web''" by code_simp+
  then show "list_all valid_watch [watch0]" by (simp add: valid_watch_def watch0_def)
qed (simp_all add: watch0_def)

lemma watch0_found: "fst (do_get c0 (watch_gvk True) ''argocd'' ''web''
    \<lparr> w_state = [(''Application'', ''argocd'', ''web'') \<mapsto> app0], w_calls = [] \<rparr>) = Inr app0"
  by (simp add: do_get_def c0_def watch_gvk_def ApplicationGVK_def)


end
