(* ===== verification/GoHeap.thy ===== *)
theory GoHeap
  imports Main "HOL-Library.Sublist"
begin

section \<open>Go pointers, slices and the contract of a deep copy\<close>

text \<open>
  The heap of the values that Go code reaches through pointers and slices: a list of cells, the
  address of a cell is its position, \<open>new\<close> appends. Cells are never freed (a garbage collector
  frees only what is unreachable). The locale \<open>deep_copier\<close> is the contract of a deep copy: well-typed
  values stay well-typed, the copy reads the same as the original, nothing that existed is changed,
  and everything the copy reaches is new. The lemmas show that the contract is closed under the ways
  Go builds types: optional pointers, structs, pointers to a value, and slices.
\<close>

type_synonym 'c goheap = "'c list"

definition new :: "'c \<Rightarrow> 'c goheap \<Rightarrow> nat \<times> 'c goheap" where
  "new c h = (length h, h @ [c])"

text \<open>Reading a cell as a type; a pointer of a typed program always finds its type, else the default.\<close>

definition load :: "('c \<Rightarrow> 'v option) \<Rightarrow> 'v \<Rightarrow> 'c goheap \<Rightarrow> nat \<Rightarrow> 'v" where
  "load dec z h a = (if a < length h then (case dec (h ! a) of Some v \<Rightarrow> v | None \<Rightarrow> z) else z)"

definition agree :: "nat set \<Rightarrow> 'c goheap \<Rightarrow> 'c goheap \<Rightarrow> bool" where
  "agree A h h' \<longleftrightarrow> (\<forall>a\<in>A. a < length h' \<and> h' ! a = h ! a)"

lemma agree_Un [simp]: "agree (A \<union> B) h h' \<longleftrightarrow> agree A h h' \<and> agree B h h'"
  by (auto simp: agree_def)

lemma agree_empty [simp]: "agree {} h h'"
  by (simp add: agree_def)

lemma agree_insert [simp]:
  "agree (insert a A) h h' \<longleftrightarrow> a < length h' \<and> h' ! a = h ! a \<and> agree A h h'"
  by (auto simp: agree_def)

lemma agree_mono: "agree A h h' \<Longrightarrow> B \<subseteq> A \<Longrightarrow> agree B h h'"
  by (auto simp: agree_def)

lemma agree_UN: "agree (\<Union>i\<in>I. f i) h h' \<longleftrightarrow> (\<forall>i\<in>I. agree (f i) h h')"
  by (auto simp: agree_def)

lemma prefix_agree: "prefix h h' \<Longrightarrow> A \<subseteq> {..<length h} \<Longrightarrow> agree A h h'"
  by (auto simp: agree_def prefix_def nth_append)

lemma agree_update: "a \<notin> A \<Longrightarrow> A \<subseteq> {..<length h} \<Longrightarrow> agree A h (h[a := c])"
  by (auto simp: agree_def subset_iff) (metis nth_list_update_neq)

lemma prefix_update: "prefix h h' \<Longrightarrow> length h \<le> a \<Longrightarrow> prefix h (h'[a := c])"
  by (auto simp: prefix_def list_update_append)

subsection \<open>The contract\<close>

locale deep_copier =
  fixes wt :: "'c goheap \<Rightarrow> 'v \<Rightarrow> bool"
    and refs :: "'c goheap \<Rightarrow> 'v \<Rightarrow> nat set"
    and view :: "'c goheap \<Rightarrow> 'v \<Rightarrow> 'w"
    and copy :: "'v \<Rightarrow> 'c goheap \<Rightarrow> 'v \<times> 'c goheap"
  assumes refs_bound: "wt h v \<Longrightarrow> refs h v \<subseteq> {..<length h}"
    and frame: "wt h v \<Longrightarrow> agree (refs h v) h h' \<Longrightarrow>
                  wt h' v \<and> refs h' v = refs h v \<and> view h' v = view h v"
    and copy_law: "wt h v \<Longrightarrow> copy v h = (v', h') \<Longrightarrow>
                  prefix h h' \<and> wt h' v' \<and> view h' v' = view h v \<and> (\<forall>a\<in>refs h' v'. length h \<le> a)"
begin

lemma kept: 
  assumes "wt h v" "prefix h h'" 
  shows "wt h' v" "refs h' v = refs h v" "view h' v = view h v"
  using frame[OF assms(1) prefix_agree[OF assms(2) refs_bound[OF assms(1)]]] by simp_all

lemma update_kept:
  assumes "wt h v" "a \<notin> refs h v"
  shows "wt (h[a := c]) v" "refs (h[a := c]) v = refs h v" "view (h[a := c]) v = view h v"
  using frame[OF assms(1) agree_update[OF assms(2) refs_bound[OF assms(1)]]] by simp_all

lemma writes_to_the_copy_are_private:
  assumes "wt h v" "copy v h = (v', h')" "agree {..<length h} h' h2"
  shows "view h2 v = view h v"
proof -
  have "prefix h h'" and b: "refs h v \<subseteq> {..<length h}"
    using copy_law[OF assms(1,2)] refs_bound[OF assms(1)] by auto
  then have "agree (refs h v) h h2"
    using assms(3) prefix_agree[OF \<open>prefix h h'\<close> b] by (auto simp: agree_def subset_iff)
  then show ?thesis
    using frame[OF assms(1)] by blast
qed

lemma writes_to_the_original_do_not_reach_the_copy:
  assumes "wt h v" "copy v h = (v', h')" "agree {length h..<length h'} h' h2"
  shows "view h2 v' = view h v"
proof -
  have w: "wt h' v'" and v: "view h' v' = view h v" and r: "\<forall>a\<in>refs h' v'. length h \<le> a"
    using copy_law[OF assms(1,2)] by auto
  have "refs h' v' \<subseteq> {length h..<length h'}"
    using refs_bound[OF w] r by auto
  then show ?thesis
    using frame[OF w agree_mono[OF assms(3)]] v by simp
qed

end

subsection \<open>Closure under structs and optional pointers\<close>

definition pair_copy ::
    "('v \<Rightarrow> 'c goheap \<Rightarrow> 'v \<times> 'c goheap) \<Rightarrow> ('w \<Rightarrow> 'c goheap \<Rightarrow> 'w \<times> 'c goheap)
     \<Rightarrow> 'v \<times> 'w \<Rightarrow> 'c goheap \<Rightarrow> ('v \<times> 'w) \<times> 'c goheap" where
  "pair_copy f g vw h = (let (v, h1) = f (fst vw) h; (w, h2) = g (snd vw) h1 in ((v, w), h2))"

definition opt_copy ::
    "('v \<Rightarrow> 'c goheap \<Rightarrow> 'v \<times> 'c goheap) \<Rightarrow> 'v option \<Rightarrow> 'c goheap \<Rightarrow> 'v option \<times> 'c goheap" where
  "opt_copy f p h = (case p of None \<Rightarrow> (None, h) | Some v \<Rightarrow> let (v', h') = f v h in (Some v', h'))"

lemma opt_copy_Some: "\<exists>b h'. opt_copy f (Some a) h = (Some b, h')"
  by (simp add: opt_copy_def split: prod.split)

lemma deep_copier_pair:
  assumes "deep_copier wa ra va ca" "deep_copier wb rb vb cb"
  shows "deep_copier (\<lambda>h p. wa h (fst p) \<and> wb h (snd p)) (\<lambda>h p. ra h (fst p) \<union> rb h (snd p))
           (\<lambda>h p. (va h (fst p), vb h (snd p))) (pair_copy ca cb)"
proof
  fix h p
  assume w: "wa h (fst p) \<and> wb h (snd p)"
  show "ra h (fst p) \<union> rb h (snd p) \<subseteq> {..<length h}"
    using deep_copier.refs_bound[OF assms(1)] deep_copier.refs_bound[OF assms(2)] w by blast
  show "(wa h' (fst p) \<and> wb h' (snd p)) \<and>
        ra h' (fst p) \<union> rb h' (snd p) = ra h (fst p) \<union> rb h (snd p) \<and>
        (va h' (fst p), vb h' (snd p)) = (va h (fst p), vb h (snd p))"
    if "agree (ra h (fst p) \<union> rb h (snd p)) h h'" for h'
    using deep_copier.frame[OF assms(1), of h "fst p" h'] deep_copier.frame[OF assms(2), of h "snd p" h']
      w that by simp
  fix p' h'
  assume c: "pair_copy ca cb p h = (p', h')"
  obtain v h1 where 1: "ca (fst p) h = (v, h1)" by fastforce
  obtain u h2 where 2: "cb (snd p) h1 = (u, h2)" by fastforce
  have eq: "p' = (v, u)" "h' = h2" using c 1 2 by (simp_all add: pair_copy_def)
  have L1: "prefix h h1" "wa h1 v" "va h1 v = va h (fst p)" "\<forall>a\<in>ra h1 v. length h \<le> a"
    using deep_copier.copy_law[OF assms(1) _ 1] w by auto
  have B: "wb h1 (snd p)" "vb h1 (snd p) = vb h (snd p)"
    using deep_copier.kept[OF assms(2) _ L1(1)] w by auto
  have L2: "prefix h1 h2" "wb h2 u" "vb h2 u = vb h1 (snd p)" "\<forall>a\<in>rb h2 u. length h1 \<le> a"
    using deep_copier.copy_law[OF assms(2) B(1) 2] by auto
  have A: "wa h2 v" "ra h2 v = ra h1 v" "va h2 v = va h1 v"
    using deep_copier.kept[OF assms(1) L1(2) L2(1)] by auto
  have "length h \<le> length h1" using L1(1) by (rule prefix_length_le)
  then show "prefix h h' \<and> (wa h' (fst p') \<and> wb h' (snd p')) \<and>
      (va h' (fst p'), vb h' (snd p')) = (va h (fst p), vb h (snd p)) \<and>
      (\<forall>a\<in>ra h' (fst p') \<union> rb h' (snd p'). length h \<le> a)"
    using L1 L2 A B eq by (auto intro: prefix_order.trans)
qed

lemma deep_copier_opt:
  assumes "deep_copier w r v c"
  shows "deep_copier (\<lambda>h p. case p of None \<Rightarrow> True | Some a \<Rightarrow> w h a)
           (\<lambda>h p. case p of None \<Rightarrow> {} | Some a \<Rightarrow> r h a) (\<lambda>h p. map_option (v h) p) (opt_copy c)"
proof
  fix h p
  assume "case p of None \<Rightarrow> True | Some a \<Rightarrow> w h a"
  then have wt: "p = Some a \<Longrightarrow> w h a" for a by simp
  show "(case p of None \<Rightarrow> {} | Some a \<Rightarrow> r h a) \<subseteq> {..<length h}"
    using deep_copier.refs_bound[OF assms wt] by (auto split: option.splits)
  show "(case p of None \<Rightarrow> True | Some a \<Rightarrow> w h' a) \<and>
      (case p of None \<Rightarrow> {} | Some a \<Rightarrow> r h' a) = (case p of None \<Rightarrow> {} | Some a \<Rightarrow> r h a) \<and>
      map_option (v h') p = map_option (v h) p"
    if "agree (case p of None \<Rightarrow> {} | Some a \<Rightarrow> r h a) h h'" for h'
    using deep_copier.frame[OF assms wt] that by (cases p) auto
  show "prefix h h' \<and> (case p' of None \<Rightarrow> True | Some a \<Rightarrow> w h' a) \<and>
      map_option (v h') p' = map_option (v h) p \<and>
      (\<forall>a\<in>(case p' of None \<Rightarrow> {} | Some a \<Rightarrow> r h' a). length h \<le> a)"
    if "opt_copy c p h = (p', h')" for p' h'
    using deep_copier.copy_law[OF assms wt] that
    by (cases p) (auto simp: opt_copy_def split: prod.splits)
qed

text \<open>A struct whose parts \<open>get s\<close> are deep-copied; the rest of the struct is assigned.\<close>

lemma deep_copier_struct:
  assumes "deep_copier w r v c"
    and "\<And>s x. get (put s x) = x"
    and "\<And>h s. wt h s = w h (get s)" "\<And>h s. rf h s = r h (get s)"
    and "\<And>h s. vw h s = mk (rest s) (v h (get s))" "\<And>s x. rest (put s x) = rest s"
    and "\<And>s h. cp s h = (let (x, h') = c (get s) h in (put s x, h'))"
  shows "deep_copier wt rf vw cp"
proof
  fix h s
  assume "wt h s"
  then have w: "w h (get s)" by (simp add: assms(3))
  show "rf h s \<subseteq> {..<length h}"
    using deep_copier.refs_bound[OF assms(1) w] by (simp add: assms(4))
  show "wt h' s \<and> rf h' s = rf h s \<and> vw h' s = vw h s" if "agree (rf h s) h h'" for h'
    using deep_copier.frame[OF assms(1) w] that by (simp add: assms(3-5))
  show "prefix h h' \<and> wt h' s' \<and> vw h' s' = vw h s \<and> (\<forall>a\<in>rf h' s'. length h \<le> a)"
    if "cp s h = (s', h')" for s' h'
    using deep_copier.copy_law[OF assms(1) w] that
    by (auto simp: assms(2-7) split: prod.splits)
qed

text \<open>A value without pointers is copied by assignment.\<close>

lemma deep_copier_plain:
  "deep_copier (\<lambda>h v. True) (\<lambda>h v. {}) (\<lambda>h v. v) (\<lambda>v h. (v, h))"
  by unfold_locales auto

subsection \<open>Pointers to a value\<close>

text \<open>\<open>out := new(T); in.DeepCopyInto(out); return out\<close> for a pointer that is not nil.\<close>

definition box_copy ::
    "('c \<Rightarrow> 'v option) \<Rightarrow> ('v \<Rightarrow> 'c) \<Rightarrow> 'v \<Rightarrow> ('v \<Rightarrow> 'c goheap \<Rightarrow> 'v \<times> 'c goheap)
     \<Rightarrow> nat \<Rightarrow> 'c goheap \<Rightarrow> nat \<times> 'c goheap" where
  "box_copy dec enc z cp a h =
     (let (out, h1) = new (enc z) h;
          (v, h2) = cp (load dec z h1 a) h1
      in (out, h2[out := enc v]))"

definition box_wt :: "('c \<Rightarrow> 'v option) \<Rightarrow> ('c goheap \<Rightarrow> 'v \<Rightarrow> bool) \<Rightarrow> 'c goheap \<Rightarrow> nat \<Rightarrow> bool" where
  "box_wt dec w h a \<longleftrightarrow> a < length h \<and> (case dec (h ! a) of Some v \<Rightarrow> w h v | None \<Rightarrow> False)"

definition box_refs ::
    "('c \<Rightarrow> 'v option) \<Rightarrow> ('c goheap \<Rightarrow> 'v \<Rightarrow> nat set) \<Rightarrow> 'c goheap \<Rightarrow> nat \<Rightarrow> nat set" where
  "box_refs dec r h a = insert a (case dec (h ! a) of Some v \<Rightarrow> r h v | None \<Rightarrow> {})"

lemma box_wtE:
  assumes "box_wt dec w h a"
  obtains v where "a < length h" "dec (h ! a) = Some v" "w h v" "load dec z h a = v"
    "box_refs dec r h a = insert a (r h v)"
  using assms by (auto simp: box_wt_def load_def box_refs_def split: option.splits)

lemma deep_copier_box:
  assumes D: "deep_copier w r vw cp" and enc: "\<And>v. dec (enc v) = Some v"
  shows "deep_copier (box_wt dec w) (box_refs dec r) (\<lambda>h a. vw h (load dec z h a))
           (box_copy dec enc z cp)"
proof
  fix h a
  assume b: "box_wt dec w h a"
  then obtain v where v: "a < length h" "dec (h ! a) = Some v" "w h v" "load dec z h a = v"
    "box_refs dec r h a = insert a (r h v)"
    by (rule box_wtE)
  show "box_refs dec r h a \<subseteq> {..<length h}"
    using deep_copier.refs_bound[OF D v(3)] v(1,5) by simp
  show "box_wt dec w h' a \<and> box_refs dec r h' a = box_refs dec r h a \<and>
        vw h' (load dec z h' a) = vw h (load dec z h a)"
    if "agree (box_refs dec r h a) h h'" for h'
    using deep_copier.frame[OF D v(3), of h'] that v
    by (simp add: box_wt_def box_refs_def load_def)
  fix p h'
  assume c: "box_copy dec enc z cp a h = (p, h')"
  let ?h1 = "h @ [enc z]"
  have pre: "prefix h ?h1" by simp
  have l: "load dec z ?h1 a = v"
    using v(1,2) by (simp add: load_def nth_append)
  obtain v' h2 where cc: "cp v ?h1 = (v', h2)" by fastforce
  have eq: "p = length h" "h' = h2[length h := enc v']"
    using c cc l by (auto simp: box_copy_def new_def)
  note K = deep_copier.kept[OF D v(3) pre]
  have L: "prefix ?h1 h2" "w h2 v'" "vw h2 v' = vw h v" "\<forall>a\<in>r h2 v'. length h < a"
    using deep_copier.copy_law[OF D K(1) cc] K(3) by auto
  have len: "length h < length h2"
    using prefix_length_le[OF L(1)] by simp
  have n: "length h \<notin> r h2 v'" using L(4) by auto
  note U = deep_copier.update_kept[OF D L(2) n, of "enc v'"]
  have "prefix h h'"
    using prefix_order.trans[OF pre L(1)] eq(2) by (simp add: prefix_update)
  moreover have "dec (h' ! p) = Some v'" "p < length h'"
    using eq len enc by simp_all
  ultimately show "prefix h h' \<and> box_wt dec w h' p \<and>
      vw h' (load dec z h' p) = vw h (load dec z h a) \<and> (\<forall>b\<in>box_refs dec r h' p. length h \<le> b)"
    using U L(3,4) v(4) eq by (auto simp: box_wt_def box_refs_def load_def)
qed

subsection \<open>Slices\<close>

record goslice =
  sl_base :: nat
  sl_off :: nat
  sl_len :: nat
  sl_cap :: nat

definition make_slice :: "('e list \<Rightarrow> 'c) \<Rightarrow> 'e \<Rightarrow> nat \<Rightarrow> 'c goheap \<Rightarrow> goslice \<times> 'c goheap" where
  "make_slice enc z n h =
     (let (b, h1) = new (enc (replicate n z)) h
      in (\<lparr> sl_base = b, sl_off = 0, sl_len = n, sl_cap = n \<rparr>, h1))"

definition item_at :: "('c \<Rightarrow> 'e list option) \<Rightarrow> 'c goheap \<Rightarrow> goslice \<Rightarrow> nat \<Rightarrow> 'e" where
  "item_at dec h s i = load dec [] h (sl_base s) ! (sl_off s + i)"

definition set_item ::
    "('c \<Rightarrow> 'e list option) \<Rightarrow> ('e list \<Rightarrow> 'c) \<Rightarrow> 'c goheap \<Rightarrow> goslice \<Rightarrow> nat \<Rightarrow> 'e \<Rightarrow> 'c goheap" where
  "set_item dec enc h s i v =
     h[sl_base s := enc ((load dec [] h (sl_base s))[sl_off s + i := v])]"

definition elems :: "('c \<Rightarrow> 'e list option) \<Rightarrow> 'c goheap \<Rightarrow> goslice \<Rightarrow> 'e list" where
  "elems dec h s = take (sl_len s) (drop (sl_off s) (load dec [] h (sl_base s)))"

text \<open>\<open>for i := range *in { (*in)[i].DeepCopyInto(&(*out)[i]) }\<close>\<close>

primrec copy_elems ::
    "('c \<Rightarrow> 'e list option) \<Rightarrow> ('e list \<Rightarrow> 'c) \<Rightarrow> ('e \<Rightarrow> 'c goheap \<Rightarrow> 'e \<times> 'c goheap)
     \<Rightarrow> goslice \<Rightarrow> goslice \<Rightarrow> nat list \<Rightarrow> 'c goheap \<Rightarrow> 'c goheap" where
  "copy_elems dec enc cp src dst [] h = h"
| "copy_elems dec enc cp src dst (i # is) h =
     (let (v, h1) = cp (item_at dec h src i) h
      in copy_elems dec enc cp src dst is (set_item dec enc h1 dst i v))"

definition slice_copy ::
    "('c \<Rightarrow> 'e list option) \<Rightarrow> ('e list \<Rightarrow> 'c) \<Rightarrow> 'e \<Rightarrow> ('e \<Rightarrow> 'c goheap \<Rightarrow> 'e \<times> 'c goheap)
     \<Rightarrow> goslice \<Rightarrow> 'c goheap \<Rightarrow> goslice \<times> 'c goheap" where
  "slice_copy dec enc z cp s h =
     (let (out, h1) = make_slice enc z (sl_len s) h
      in (out, copy_elems dec enc cp s out [0..<sl_len s] h1))"

lemma copy_elems_append:
  "copy_elems dec enc cp s d (is @ js) h = copy_elems dec enc cp s d js (copy_elems dec enc cp s d is h)"
  by (induction "is" arbitrary: h) (simp_all split: prod.splits)

definition slice_wt ::
    "('c \<Rightarrow> 'e list option) \<Rightarrow> ('c goheap \<Rightarrow> 'e \<Rightarrow> bool) \<Rightarrow> 'c goheap \<Rightarrow> goslice \<Rightarrow> bool" where
  "slice_wt dec w h s \<longleftrightarrow> sl_base s < length h \<and> dec (h ! sl_base s) \<noteq> None \<and>
     sl_off s + sl_len s \<le> length (load dec [] h (sl_base s)) \<and> (\<forall>x\<in>set (elems dec h s). w h x)"

definition slice_refs ::
    "('c \<Rightarrow> 'e list option) \<Rightarrow> ('c goheap \<Rightarrow> 'e \<Rightarrow> nat set) \<Rightarrow> 'c goheap \<Rightarrow> goslice \<Rightarrow> nat set" where
  "slice_refs dec r h s = insert (sl_base s) (\<Union>x\<in>set (elems dec h s). r h x)"

lemma length_elems [simp]: "slice_wt dec w h s \<Longrightarrow> length (elems dec h s) = sl_len s"
  by (auto simp: slice_wt_def elems_def)

lemma elems_nth: "slice_wt dec w h s \<Longrightarrow> i < sl_len s \<Longrightarrow> elems dec h s ! i = item_at dec h s i"
  by (auto simp: slice_wt_def elems_def item_at_def)

lemma load_cong: "a < length h \<Longrightarrow> a < length h' \<Longrightarrow> h' ! a = h ! a \<Longrightarrow> load dec z h' a = load dec z h a"
  by (simp add: load_def)

lemma deep_copier_slice_frame:
  assumes D: "deep_copier w r vw cp" and wt: "slice_wt dec w h s" and ag: "agree (slice_refs dec r h s) h h'"
  shows "slice_wt dec w h' s" "slice_refs dec r h' s = slice_refs dec r h s"
    "elems dec h' s = elems dec h s" "map (vw h') (elems dec h' s) = map (vw h) (elems dec h s)"
proof -
  have b: "sl_base s < length h" "sl_base s < length h'" "h' ! sl_base s = h ! sl_base s"
    and ag': "\<forall>x\<in>set (elems dec h s). agree (r h x) h h'"
    using wt ag by (auto simp: slice_wt_def slice_refs_def agree_UN)
  have l: "load dec [] h' (sl_base s) = load dec [] h (sl_base s)"
    using b by (rule load_cong)
  show e: "elems dec h' s = elems dec h s"
    using l by (simp add: elems_def)
  have f: "w h' x \<and> r h' x = r h x \<and> vw h' x = vw h x" if "x \<in> set (elems dec h s)" for x
    using deep_copier.frame[OF D, of h x h'] wt ag' that by (simp add: slice_wt_def)
  show "slice_wt dec w h' s"
    using wt b l e f by (simp add: slice_wt_def)
  show "slice_refs dec r h' s = slice_refs dec r h s" "map (vw h') (elems dec h' s) = map (vw h) (elems dec h s)"
    using e f by (auto simp: slice_refs_def)
qed

text \<open>The loop after \<open>k\<close> rounds: the new array holds the copies of the first \<open>k\<close> items.\<close>

definition copied_upto ::
    "('c \<Rightarrow> 'e list option) \<Rightarrow> ('c goheap \<Rightarrow> 'e \<Rightarrow> bool) \<Rightarrow> ('c goheap \<Rightarrow> 'e \<Rightarrow> nat set)
     \<Rightarrow> ('c goheap \<Rightarrow> 'e \<Rightarrow> 'x) \<Rightarrow> 'c goheap \<Rightarrow> goslice \<Rightarrow> nat \<Rightarrow> 'c goheap \<Rightarrow> bool" where
  "copied_upto dec w r vw h s k h' \<longleftrightarrow> prefix h h' \<and> length h < length h' \<and>
     (\<exists>ys. dec (h' ! length h) = Some ys \<and> length ys = sl_len s \<and>
        (\<forall>i<k. w h' (ys ! i) \<and> vw h' (ys ! i) = vw h (elems dec h s ! i) \<and>
               (\<forall>a\<in>r h' (ys ! i). length h < a)))"

lemma copied_upto_step:
  assumes D: "deep_copier w r vw cp" and enc: "\<And>v. dec (enc v) = Some v"
    and wt: "slice_wt dec w h s" and k: "k < sl_len s" and I: "copied_upto dec w r vw h s k hk"
    and cc: "cp (item_at dec hk s k) hk = (v, h1)"
  shows "copied_upto dec w r vw h s (Suc k)
           (set_item dec enc h1 \<lparr> sl_base = length h, sl_off = 0, sl_len = n, sl_cap = n \<rparr> k v)"
proof -
  obtain ys where P: "prefix h hk" "length h < length hk" "dec (hk ! length h) = Some ys"
    "length ys = sl_len s"
    and E: "\<And>i. i < k \<Longrightarrow> w hk (ys ! i) \<and> vw hk (ys ! i) = vw h (elems dec h s ! i) \<and>
               (\<forall>a\<in>r hk (ys ! i). length h < a)"
    using I by (auto simp: copied_upto_def)
  have b: "sl_base s < length h" using wt by (simp add: slice_wt_def)
  have "load dec [] hk (sl_base s) = load dec [] h (sl_base s)"
    using b P(1) by (intro load_cong) (auto simp: prefix_def nth_append)
  then have it: "item_at dec hk s k = elems dec h s ! k"
    using elems_nth[OF wt k] by (simp add: item_at_def)
  have wk: "w h (elems dec h s ! k)"
    using wt k length_elems[OF wt] by (auto simp: slice_wt_def)
  note K = deep_copier.kept[OF D wk P(1)]
  have L: "prefix hk h1" "w h1 v" "vw h1 v = vw h (elems dec h s ! k)" "\<forall>a\<in>r h1 v. length hk \<le> a"
    using deep_copier.copy_law[OF D K(1)] cc K(3) it by auto
  have len: "length h < length h1" using P(2) prefix_length_le[OF L(1)] by simp
  have "h1 ! length h = hk ! length h"
    using L(1) P(2) by (auto simp: prefix_def nth_append)
  then have ld: "load dec [] h1 (length h) = ys"
    using P(3) len by (simp add: load_def)
  let ?h2 = "h1[length h := enc (ys[k := v])]"
  have new: "w ?h2 v \<and> vw ?h2 v = vw h (elems dec h s ! k) \<and> (\<forall>a\<in>r ?h2 v. length h < a)"
  proof -
    have n: "length h \<notin> r h1 v" using L(4) P(2) by auto
    show ?thesis
      using deep_copier.update_kept[OF D L(2) n] L(3,4) P(2) by auto
  qed
  have old: "w ?h2 (ys ! i) \<and> vw ?h2 (ys ! i) = vw h (elems dec h s ! i) \<and>
      (\<forall>a\<in>r ?h2 (ys ! i). length h < a)" if "i < k" for i
  proof -
    have e: "w hk (ys ! i)" "vw hk (ys ! i) = vw h (elems dec h s ! i)" "\<forall>a\<in>r hk (ys ! i). length h < a"
      using E[OF that] by auto
    note Q = deep_copier.kept[OF D e(1) L(1)]
    have n: "length h \<notin> r h1 (ys ! i)" using Q(2) e(3) by auto
    show ?thesis
      using deep_copier.update_kept[OF D Q(1) n] Q e(2,3) by auto
  qed
  have "copied_upto dec w r vw h s (Suc k) ?h2"
    unfolding copied_upto_def
  proof (intro conjI exI[of _ "ys[k := v]"] allI impI)
    show "prefix h ?h2"
      using prefix_order.trans[OF P(1) L(1)] by (simp add: prefix_update)
  qed (use len enc P(4) old new k in \<open>auto simp: nth_list_update less_Suc_eq\<close>)
  then show ?thesis
    by (simp add: set_item_def ld)
qed

lemma copied_upto_loop:
  assumes D: "deep_copier w r vw cp" and enc: "\<And>v. dec (enc v) = Some v"
    and wt: "slice_wt dec w h s" and k: "k \<le> sl_len s"
    and d: "d = \<lparr> sl_base = length h, sl_off = 0, sl_len = sl_len s, sl_cap = sl_len s \<rparr>"
  shows "copied_upto dec w r vw h s k
           (copy_elems dec enc cp s d [0..<k] (h @ [enc (replicate (sl_len s) z)]))"
  using k
proof (induction k)
  case 0
  then show ?case by (auto simp: copied_upto_def enc)
next
  case (Suc k)
  let ?hk = "copy_elems dec enc cp s d [0..<k] (h @ [enc (replicate (sl_len s) z)])"
  obtain v h1 where c: "cp (item_at dec ?hk s k) ?hk = (v, h1)" by fastforce
  have "copied_upto dec w r vw h s k ?hk" "k < sl_len s"
    using Suc by simp_all
  from copied_upto_step[OF D enc wt this(2,1) c, of "sl_len s"] show ?case
    using c by (simp add: copy_elems_append d)
qed

lemma deep_copier_slice:
  assumes D: "deep_copier w r vw cp" and enc: "\<And>v. dec (enc v) = Some v"
  shows "deep_copier (slice_wt dec w) (slice_refs dec r) (\<lambda>h s. map (vw h) (elems dec h s))
           (slice_copy dec enc z cp)"
proof
  fix h s
  assume wt: "slice_wt dec w h s"
  then show "slice_refs dec r h s \<subseteq> {..<length h}"
    using deep_copier.refs_bound[OF D] by (fastforce simp: slice_wt_def slice_refs_def)
  show "slice_wt dec w h' s \<and> slice_refs dec r h' s = slice_refs dec r h s \<and>
      map (vw h') (elems dec h' s) = map (vw h) (elems dec h s)" if "agree (slice_refs dec r h s) h h'" for h'
    using deep_copier_slice_frame[OF D wt that] by simp
  fix s' h'
  assume c: "slice_copy dec enc z cp s h = (s', h')"
  define d where "d = \<lparr> sl_base = length h, sl_off = 0, sl_len = sl_len s, sl_cap = sl_len s \<rparr>"
  have eq: "s' = d" "h' = copy_elems dec enc cp s d [0..<sl_len s] (h @ [enc (replicate (sl_len s) z)])"
    using c by (auto simp: slice_copy_def make_slice_def new_def d_def Let_def)
  have "copied_upto dec w r vw h s (sl_len s) h'"
    using copied_upto_loop[OF D enc wt order_refl d_def] eq by blast
  then obtain ys where P: "prefix h h'" "length h < length h'" "dec (h' ! length h) = Some ys"
    "length ys = sl_len s" "\<And>i. i < sl_len s \<Longrightarrow> w h' (ys ! i) \<and> vw h' (ys ! i) = vw h (elems dec h s ! i) \<and>
       (\<forall>a\<in>r h' (ys ! i). length h < a)"
    by (auto simp: copied_upto_def)
  have e: "elems dec h' s' = ys"
    using P(2-4) by (simp add: elems_def eq(1) d_def load_def)
  have mem: "w h' x \<and> (\<forall>a\<in>r h' x. length h < a)" if "x \<in> set ys" for x
    using that P(4,5) by (auto simp: in_set_conv_nth)
  have "map (vw h') ys = map (vw h) (elems dec h s)"
    using P(4,5) length_elems[OF wt] by (intro nth_equalityI) auto
  moreover have "slice_wt dec w h' s'"
    using P(2-4) mem e by (simp add: slice_wt_def eq(1) d_def load_def)
  moreover have "\<forall>a\<in>slice_refs dec r h' s'. length h \<le> a"
    using mem e by (auto simp: slice_refs_def eq(1) d_def intro: less_imp_le)
  ultimately show "prefix h h' \<and> slice_wt dec w h' s' \<and>
      map (vw h') (elems dec h' s') = map (vw h) (elems dec h s) \<and>
      (\<forall>a\<in>slice_refs dec r h' s'. length h \<le> a)"
    using P(1) e by simp
qed

subsection \<open>Readings\<close>

text \<open>
  A reading says what a value in memory stands for: when it is well-typed, which cells it reaches,
  and what it reads as. \<open>copies R f\<close> states that \<open>f\<close> is a deep copy for the reading \<open>R\<close>.
\<close>

record ('c, 'v, 'w) reading =
  rd_wt :: "'c goheap \<Rightarrow> 'v \<Rightarrow> bool"
  rd_refs :: "'c goheap \<Rightarrow> 'v \<Rightarrow> nat set"
  rd_view :: "'c goheap \<Rightarrow> 'v \<Rightarrow> 'w"

definition copies :: "('c, 'v, 'w) reading \<Rightarrow> ('v \<Rightarrow> 'c goheap \<Rightarrow> 'v \<times> 'c goheap) \<Rightarrow> bool" where
  "copies R f \<longleftrightarrow> deep_copier (rd_wt R) (rd_refs R) (rd_view R) f"

definition plain_reading :: "('c, 'v, 'v) reading" where
  "plain_reading = \<lparr> rd_wt = \<lambda>h v. True, rd_refs = \<lambda>h v. {}, rd_view = \<lambda>h v. v \<rparr>"

definition opt_reading :: "('c, 'v, 'w) reading \<Rightarrow> ('c, 'v option, 'w option) reading" where
  "opt_reading R = \<lparr> rd_wt = \<lambda>h p. (case p of None \<Rightarrow> True | Some v \<Rightarrow> rd_wt R h v),
     rd_refs = \<lambda>h p. (case p of None \<Rightarrow> {} | Some v \<Rightarrow> rd_refs R h v),
     rd_view = \<lambda>h p. map_option (rd_view R h) p \<rparr>"

definition pair_reading ::
    "('c, 'v, 'w) reading \<Rightarrow> ('c, 'v2, 'w2) reading \<Rightarrow> ('c, 'v \<times> 'v2, 'w \<times> 'w2) reading" where
  "pair_reading R S = \<lparr> rd_wt = \<lambda>h p. rd_wt R h (fst p) \<and> rd_wt S h (snd p),
     rd_refs = \<lambda>h p. rd_refs R h (fst p) \<union> rd_refs S h (snd p),
     rd_view = \<lambda>h p. (rd_view R h (fst p), rd_view S h (snd p)) \<rparr>"

definition box_reading ::
    "('c \<Rightarrow> 'v option) \<Rightarrow> 'v \<Rightarrow> ('c, 'v, 'w) reading \<Rightarrow> ('c, nat, 'w) reading" where
  "box_reading dec z R = \<lparr> rd_wt = box_wt dec (rd_wt R), rd_refs = box_refs dec (rd_refs R),
     rd_view = \<lambda>h a. rd_view R h (load dec z h a) \<rparr>"

definition slice_reading ::
    "('c \<Rightarrow> 'e list option) \<Rightarrow> ('c, 'e, 'w) reading \<Rightarrow> ('c, goslice, 'w list) reading" where
  "slice_reading dec R = \<lparr> rd_wt = slice_wt dec (rd_wt R), rd_refs = slice_refs dec (rd_refs R),
     rd_view = \<lambda>h s. map (rd_view R h) (elems dec h s) \<rparr>"

lemma copies_plain: "copies plain_reading (\<lambda>v h. (v, h))"
  by (simp add: copies_def plain_reading_def deep_copier_plain)

lemma copies_opt: "copies R f \<Longrightarrow> copies (opt_reading R) (opt_copy f)"
  by (simp add: copies_def opt_reading_def deep_copier_opt)

lemma copies_pair: "copies R f \<Longrightarrow> copies S g \<Longrightarrow> copies (pair_reading R S) (pair_copy f g)"
  by (simp add: copies_def pair_reading_def deep_copier_pair)

lemma copies_box:
  "copies R f \<Longrightarrow> (\<And>v. dec (enc v) = Some v) \<Longrightarrow> copies (box_reading dec z R) (box_copy dec enc z f)"
  by (simp add: copies_def box_reading_def deep_copier_box)

lemma copies_slice:
  "copies R f \<Longrightarrow> (\<And>v. dec (enc v) = Some v) \<Longrightarrow> copies (slice_reading dec R) (slice_copy dec enc z f)"
  by (simp add: copies_def slice_reading_def deep_copier_slice)

lemma copiesD:
  assumes "copies R f" "rd_wt R h v" "f v h = (v', h')"
  shows "prefix h h'" "rd_wt R h' v'" "rd_view R h' v' = rd_view R h v"
    "rd_refs R h' v' \<subseteq> {length h..<length h'}"
  using deep_copier.copy_law[OF assms(1)[unfolded copies_def] assms(2,3)]
    deep_copier.refs_bound[OF assms(1)[unfolded copies_def], of h' v'] by auto

lemma copies_private:
  assumes "copies R f" "rd_wt R h v" "f v h = (v', h')"
  shows "agree {..<length h} h' h2 \<Longrightarrow> rd_view R h2 v = rd_view R h v"
    and "agree {length h..<length h'} h' h2 \<Longrightarrow> rd_view R h2 v' = rd_view R h v"
  using deep_copier.writes_to_the_copy_are_private[OF assms(1)[unfolded copies_def] assms(2,3)]
    deep_copier.writes_to_the_original_do_not_reach_the_copy[OF assms(1)[unfolded copies_def] assms(2,3)]
  by simp_all

end
