(* ===== verification/MirrorTypes.thy ===== *)
theory MirrorTypes
  imports Prelude GoHeap
begin

section \<open>api/v1alpha1: the MirrorUpgradeRequest API and its deep copies\<close>

text \<open>
  The structs of the API group and every method of the generated deep copy code, on the heap of
  \<open>GoHeap\<close>. The metadata structs and \<open>metav1.Time\<close> belong to apimachinery: their types are type
  variables and their deep copies the argument \<open>A\<close>. A struct with a pointer field is a record over
  the type of its pointers, so that the record over addresses is what lies in memory and the record
  over values is what a reader sees. A \<open>DeepCopyInto(out)\<close> is the value it leaves in \<open>*out\<close> with the
  new heap; \<open>in\<close> is read as it was at the call. The lemmas show that every method meets the contract
  \<open>deep_copier\<close> when the methods of apimachinery do.
\<close>

subsection \<open>The structs\<close>

definition SchemeGroupVersion :: "string \<times> string" where
  "SchemeGroupVersion = (''ops.accord.io'', ''v1alpha1'')"

record MirrorUpgradeRequestSpec =
  TargetCluster :: string
  TargetNamespace :: string
  CurrentVersion :: string
  DesiredVersion :: string
  ApprovalMode :: string
  AutoCollectLogs :: bool
  LogArchivePath :: string

record 'p MirrorUpgradeRequestStatus =
  Phase :: string
  Message :: string
  StartedAt :: "'p option"
  CompletedAt :: "'p option"
  JobRef :: string

record ('t, 'm, 'p) MirrorUpgradeRequest =
  mr_TypeMeta :: 't
  mr_ObjectMeta :: 'm
  mr_Spec :: MirrorUpgradeRequestSpec
  mr_Status :: "'p MirrorUpgradeRequestStatus"

record ('t, 'l, 'i) MirrorUpgradeRequestList =
  ml_TypeMeta :: 't
  ml_ListMeta :: 'l
  ml_Items :: "'i option"

text \<open>\<open>init\<close> hands the two root types to the builder of the scheme, which is controller-runtime's.\<close>

datatype root_type = RootMirrorUpgradeRequest | RootMirrorUpgradeRequestList

definition register_types ::
    "(string \<times> string \<Rightarrow> 'b) \<Rightarrow> ('b \<Rightarrow> root_type list \<Rightarrow> 'b) \<Rightarrow> 'b" where
  "register_types new_builder register =
     register (new_builder SchemeGroupVersion) [RootMirrorUpgradeRequest, RootMirrorUpgradeRequestList]"

subsection \<open>The cells of the heap and their zero values\<close>

type_synonym ('t, 'm) request = "('t, 'm, nat) MirrorUpgradeRequest"
type_synonym ('t, 'l) request_list = "('t, 'l, goslice) MirrorUpgradeRequestList"

datatype ('t, 'm, 'l, 'x) cell =
    CSpec MirrorUpgradeRequestSpec
  | CStatus "nat MirrorUpgradeRequestStatus"
  | CRequest "('t, 'm) request"
  | CItems "('t, 'm) request list"
  | CList "('t, 'l) request_list"
  | CExt 'x

definition as_spec :: "('t, 'm, 'l, 'x) cell \<Rightarrow> MirrorUpgradeRequestSpec option" where
  "as_spec c = (case c of CSpec v \<Rightarrow> Some v | _ \<Rightarrow> None)"

definition as_status :: "('t, 'm, 'l, 'x) cell \<Rightarrow> nat MirrorUpgradeRequestStatus option" where
  "as_status c = (case c of CStatus v \<Rightarrow> Some v | _ \<Rightarrow> None)"

definition as_request :: "('t, 'm, 'l, 'x) cell \<Rightarrow> ('t, 'm) request option" where
  "as_request c = (case c of CRequest v \<Rightarrow> Some v | _ \<Rightarrow> None)"

definition as_items :: "('t, 'm, 'l, 'x) cell \<Rightarrow> ('t, 'm) request list option" where
  "as_items c = (case c of CItems v \<Rightarrow> Some v | _ \<Rightarrow> None)"

definition as_list :: "('t, 'm, 'l, 'x) cell \<Rightarrow> ('t, 'l) request_list option" where
  "as_list c = (case c of CList v \<Rightarrow> Some v | _ \<Rightarrow> None)"

definition as_ext :: "('t, 'm, 'l, 'x) cell \<Rightarrow> 'x option" where
  "as_ext c = (case c of CExt v \<Rightarrow> Some v | _ \<Rightarrow> None)"

lemma as_cells [simp]:
  "as_spec (CSpec v) = Some v" "as_status (CStatus s) = Some s" "as_request (CRequest r) = Some r"
  "as_items (CItems i) = Some i" "as_list (CList l) = Some l" "as_ext (CExt x) = Some x"
  by (simp_all add: as_spec_def as_status_def as_request_def as_items_def as_list_def as_ext_def)

text \<open>What the methods take from apimachinery: the zero values of its structs and three deep copies.\<close>

record ('t, 'm, 'l, 'x) apimachinery =
  zero_TypeMeta :: 't
  zero_ObjectMeta :: 'm
  zero_ListMeta :: 'l
  Time_DeepCopy :: "nat \<Rightarrow> ('t, 'm, 'l, 'x) cell goheap \<Rightarrow> nat \<times> ('t, 'm, 'l, 'x) cell goheap"
  ObjectMeta_DeepCopyInto :: "'m \<Rightarrow> ('t, 'm, 'l, 'x) cell goheap \<Rightarrow> 'm \<times> ('t, 'm, 'l, 'x) cell goheap"
  ListMeta_DeepCopyInto :: "'l \<Rightarrow> ('t, 'm, 'l, 'x) cell goheap \<Rightarrow> 'l \<times> ('t, 'm, 'l, 'x) cell goheap"

definition zero_Spec :: MirrorUpgradeRequestSpec where
  "zero_Spec = \<lparr> TargetCluster = '''', TargetNamespace = '''', CurrentVersion = '''', DesiredVersion = '''',
     ApprovalMode = '''', AutoCollectLogs = False, LogArchivePath = '''' \<rparr>"

definition zero_Status :: "'p MirrorUpgradeRequestStatus" where
  "zero_Status = \<lparr> Phase = '''', Message = '''', StartedAt = None, CompletedAt = None, JobRef = '''' \<rparr>"

definition zero_Request :: "('t, 'm, 'l, 'x) apimachinery \<Rightarrow> ('t, 'm) request" where
  "zero_Request A = \<lparr> mr_TypeMeta = zero_TypeMeta A, mr_ObjectMeta = zero_ObjectMeta A,
     mr_Spec = zero_Spec, mr_Status = zero_Status \<rparr>"

definition zero_List :: "('t, 'm, 'l, 'x) apimachinery \<Rightarrow> ('t, 'l) request_list" where
  "zero_List A = \<lparr> ml_TypeMeta = zero_TypeMeta A, ml_ListMeta = zero_ListMeta A, ml_Items = None \<rparr>"

subsection \<open>The generated methods\<close>

definition Spec_DeepCopyInto ::
    "MirrorUpgradeRequestSpec \<Rightarrow> ('t, 'm, 'l, 'x) cell goheap
     \<Rightarrow> MirrorUpgradeRequestSpec \<times> ('t, 'm, 'l, 'x) cell goheap" where
  "Spec_DeepCopyInto inn h = (inn, h)"

definition Spec_DeepCopy ::
    "nat option \<Rightarrow> ('t, 'm, 'l, 'x) cell goheap \<Rightarrow> nat option \<times> ('t, 'm, 'l, 'x) cell goheap" where
  "Spec_DeepCopy inn h =
     (case inn of
        None \<Rightarrow> (None, h)
      | Some a \<Rightarrow>
          (let (out, h1) = new (CSpec zero_Spec) h;
               (v, h2) = Spec_DeepCopyInto (load as_spec zero_Spec h1 a) h1
           in (Some out, h2[out := CSpec v])))"

definition Status_DeepCopyInto ::
    "('t, 'm, 'l, 'x) apimachinery \<Rightarrow> nat MirrorUpgradeRequestStatus \<Rightarrow> ('t, 'm, 'l, 'x) cell goheap
     \<Rightarrow> nat MirrorUpgradeRequestStatus \<times> ('t, 'm, 'l, 'x) cell goheap" where
  "Status_DeepCopyInto A inn h =
     (let out = inn;
          (out, h) = (case StartedAt inn of
                        None \<Rightarrow> (out, h)
                      | Some t \<Rightarrow> let (t', h) = Time_DeepCopy A t h in (out \<lparr> StartedAt := Some t' \<rparr>, h));
          (out, h) = (case CompletedAt inn of
                        None \<Rightarrow> (out, h)
                      | Some t \<Rightarrow> let (t', h) = Time_DeepCopy A t h in (out \<lparr> CompletedAt := Some t' \<rparr>, h))
      in (out, h))"

definition Status_DeepCopy ::
    "('t, 'm, 'l, 'x) apimachinery \<Rightarrow> nat option \<Rightarrow> ('t, 'm, 'l, 'x) cell goheap
     \<Rightarrow> nat option \<times> ('t, 'm, 'l, 'x) cell goheap" where
  "Status_DeepCopy A inn h =
     (case inn of
        None \<Rightarrow> (None, h)
      | Some a \<Rightarrow>
          (let (out, h1) = new (CStatus zero_Status) h;
               (v, h2) = Status_DeepCopyInto A (load as_status zero_Status h1 a) h1
           in (Some out, h2[out := CStatus v])))"

definition Request_DeepCopyInto ::
    "('t, 'm, 'l, 'x) apimachinery \<Rightarrow> ('t, 'm) request \<Rightarrow> ('t, 'm, 'l, 'x) cell goheap
     \<Rightarrow> ('t, 'm) request \<times> ('t, 'm, 'l, 'x) cell goheap" where
  "Request_DeepCopyInto A inn h =
     (let out = inn;
          out = out \<lparr> mr_TypeMeta := mr_TypeMeta inn \<rparr>;
          (om, h) = ObjectMeta_DeepCopyInto A (mr_ObjectMeta inn) h;
          out = out \<lparr> mr_ObjectMeta := om \<rparr>;
          out = out \<lparr> mr_Spec := mr_Spec inn \<rparr>;
          (st, h) = Status_DeepCopyInto A (mr_Status inn) h;
          out = out \<lparr> mr_Status := st \<rparr>
      in (out, h))"

definition Request_DeepCopy ::
    "('t, 'm, 'l, 'x) apimachinery \<Rightarrow> nat option \<Rightarrow> ('t, 'm, 'l, 'x) cell goheap
     \<Rightarrow> nat option \<times> ('t, 'm, 'l, 'x) cell goheap" where
  "Request_DeepCopy A inn h =
     (case inn of
        None \<Rightarrow> (None, h)
      | Some a \<Rightarrow>
          (let (out, h1) = new (CRequest (zero_Request A)) h;
               (v, h2) = Request_DeepCopyInto A (load as_request (zero_Request A) h1 a) h1
           in (Some out, h2[out := CRequest v])))"

text \<open>A \<open>runtime.Object\<close> is nil or holds a pointer of a dynamic type.\<close>

datatype runtime_object = RequestObject nat | RequestListObject nat

definition Request_DeepCopyObject ::
    "('t, 'm, 'l, 'x) apimachinery \<Rightarrow> nat option \<Rightarrow> ('t, 'm, 'l, 'x) cell goheap
     \<Rightarrow> runtime_object option \<times> ('t, 'm, 'l, 'x) cell goheap" where
  "Request_DeepCopyObject A inn h =
     (let (c, h) = Request_DeepCopy A inn h
      in case c of Some p \<Rightarrow> (Some (RequestObject p), h) | None \<Rightarrow> (None, h))"

definition List_DeepCopyInto ::
    "('t, 'm, 'l, 'x) apimachinery \<Rightarrow> ('t, 'l) request_list \<Rightarrow> ('t, 'm, 'l, 'x) cell goheap
     \<Rightarrow> ('t, 'l) request_list \<times> ('t, 'm, 'l, 'x) cell goheap" where
  "List_DeepCopyInto A inn h =
     (let out = inn;
          out = out \<lparr> ml_TypeMeta := ml_TypeMeta inn \<rparr>;
          (lm, h) = ListMeta_DeepCopyInto A (ml_ListMeta inn) h;
          out = out \<lparr> ml_ListMeta := lm \<rparr>
      in case ml_Items inn of
           None \<Rightarrow> (out, h)
         | Some items \<Rightarrow>
             (let (copies, h) = make_slice CItems (zero_Request A) (sl_len items) h;
                  out = out \<lparr> ml_Items := Some copies \<rparr>
              in (out, copy_elems as_items CItems (Request_DeepCopyInto A) items copies
                         [0..<sl_len items] h)))"

definition List_DeepCopy ::
    "('t, 'm, 'l, 'x) apimachinery \<Rightarrow> nat option \<Rightarrow> ('t, 'm, 'l, 'x) cell goheap
     \<Rightarrow> nat option \<times> ('t, 'm, 'l, 'x) cell goheap" where
  "List_DeepCopy A inn h =
     (case inn of
        None \<Rightarrow> (None, h)
      | Some a \<Rightarrow>
          (let (out, h1) = new (CList (zero_List A)) h;
               (v, h2) = List_DeepCopyInto A (load as_list (zero_List A) h1 a) h1
           in (Some out, h2[out := CList v])))"

definition List_DeepCopyObject ::
    "('t, 'm, 'l, 'x) apimachinery \<Rightarrow> nat option \<Rightarrow> ('t, 'm, 'l, 'x) cell goheap
     \<Rightarrow> runtime_object option \<times> ('t, 'm, 'l, 'x) cell goheap" where
  "List_DeepCopyObject A inn h =
     (let (c, h) = List_DeepCopy A inn h
      in case c of Some p \<Rightarrow> (Some (RequestListObject p), h) | None \<Rightarrow> (None, h))"

subsection \<open>What the structs read as\<close>

definition status_reading ::
    "('c, nat, 'w) reading \<Rightarrow> ('c, nat MirrorUpgradeRequestStatus, 'w MirrorUpgradeRequestStatus) reading" where
  "status_reading T = \<lparr>
     rd_wt = \<lambda>h s. rd_wt (opt_reading T) h (StartedAt s) \<and> rd_wt (opt_reading T) h (CompletedAt s),
     rd_refs = \<lambda>h s. rd_refs (opt_reading T) h (StartedAt s) \<union> rd_refs (opt_reading T) h (CompletedAt s),
     rd_view = \<lambda>h s. \<lparr> Phase = Phase s, Message = Message s,
       StartedAt = map_option (rd_view T h) (StartedAt s),
       CompletedAt = map_option (rd_view T h) (CompletedAt s), JobRef = JobRef s \<rparr> \<rparr>"

definition request_reading ::
    "('c, nat, 'w) reading \<Rightarrow> ('c, 'm, 'mv) reading
     \<Rightarrow> ('c, ('t, 'm) request, ('t, 'mv, 'w) MirrorUpgradeRequest) reading" where
  "request_reading T M = \<lparr>
     rd_wt = \<lambda>h r. rd_wt M h (mr_ObjectMeta r) \<and> rd_wt (status_reading T) h (mr_Status r),
     rd_refs = \<lambda>h r. rd_refs M h (mr_ObjectMeta r) \<union> rd_refs (status_reading T) h (mr_Status r),
     rd_view = \<lambda>h r. \<lparr> mr_TypeMeta = mr_TypeMeta r, mr_ObjectMeta = rd_view M h (mr_ObjectMeta r),
       mr_Spec = mr_Spec r, mr_Status = rd_view (status_reading T) h (mr_Status r) \<rparr> \<rparr>"

definition items_reading ::
    "(('t, 'm, 'l, 'x) cell, nat, 'w) reading \<Rightarrow> (('t, 'm, 'l, 'x) cell, 'm, 'mv) reading
     \<Rightarrow> (('t, 'm, 'l, 'x) cell, goslice option, ('t, 'mv, 'w) MirrorUpgradeRequest list option) reading" where
  "items_reading T M = opt_reading (slice_reading as_items (request_reading T M))"

definition list_reading ::
    "(('t, 'm, 'l, 'x) cell, nat, 'w) reading \<Rightarrow> (('t, 'm, 'l, 'x) cell, 'm, 'mv) reading
     \<Rightarrow> (('t, 'm, 'l, 'x) cell, 'l, 'lv) reading
     \<Rightarrow> (('t, 'm, 'l, 'x) cell, ('t, 'l) request_list,
         ('t, 'lv, ('t, 'mv, 'w) MirrorUpgradeRequest list) MirrorUpgradeRequestList) reading" where
  "list_reading T M L = \<lparr>
     rd_wt = \<lambda>h l. rd_wt L h (ml_ListMeta l) \<and> rd_wt (items_reading T M) h (ml_Items l),
     rd_refs = \<lambda>h l. rd_refs L h (ml_ListMeta l) \<union> rd_refs (items_reading T M) h (ml_Items l),
     rd_view = \<lambda>h l. \<lparr> ml_TypeMeta = ml_TypeMeta l, ml_ListMeta = rd_view L h (ml_ListMeta l),
       ml_Items = rd_view (items_reading T M) h (ml_Items l) \<rparr> \<rparr>"

subsection \<open>Every method is a deep copy\<close>

interpretation spec: deep_copier "\<lambda>h v. True" "\<lambda>h v. {}" "\<lambda>h v. v" Spec_DeepCopyInto
  by unfold_locales (auto simp: Spec_DeepCopyInto_def)

lemma copies_spec: "copies plain_reading Spec_DeepCopyInto"
  using spec.deep_copier_axioms by (simp add: copies_def plain_reading_def)

lemma copies_struct:
  assumes "copies R f" "\<And>s x. get (put s x) = x"
    and "\<And>h s. rd_wt S h s = rd_wt R h (get s)" "\<And>h s. rd_refs S h s = rd_refs R h (get s)"
    and "\<And>h s. rd_view S h s = mk (rest s) (rd_view R h (get s))" "\<And>s x. rest (put s x) = rest s"
    and "\<And>s h. cp s h = (let (x, h') = f (get s) h in (put s x, h'))"
  shows "copies S cp"
  unfolding copies_def
  by (rule deep_copier_struct[where get = get and put = put and mk = mk and rest = rest,
        OF assms(1)[unfolded copies_def]]) (rule assms(2-7))+

lemma copies_status:
  assumes "copies T (Time_DeepCopy A)"
  shows "copies (status_reading T) (Status_DeepCopyInto A)"
  by (rule copies_struct[OF copies_pair[OF copies_opt[OF assms] copies_opt[OF assms]],
      where get = "\<lambda>s. (StartedAt s, CompletedAt s)"
        and put = "\<lambda>s x. s \<lparr> StartedAt := fst x, CompletedAt := snd x \<rparr>"
        and rest = "\<lambda>s. (Phase s, Message s, JobRef s)"
        and mk = "\<lambda>(p, m, j) x. \<lparr> Phase = p, Message = m, StartedAt = fst x, CompletedAt = snd x, JobRef = j \<rparr>"])
    (auto simp: status_reading_def pair_reading_def opt_reading_def Status_DeepCopyInto_def pair_copy_def
      opt_copy_def Let_def split: option.splits prod.splits)

lemma copies_request:
  assumes "copies T (Time_DeepCopy A)" "copies M (ObjectMeta_DeepCopyInto A)"
  shows "copies (request_reading T M) (Request_DeepCopyInto A)"
  by (rule copies_struct[OF copies_pair[OF assms(2) copies_status[OF assms(1)]],
      where get = "\<lambda>r. (mr_ObjectMeta r, mr_Status r)"
        and put = "\<lambda>r x. r \<lparr> mr_ObjectMeta := fst x, mr_Status := snd x \<rparr>"
        and rest = "\<lambda>r. (mr_TypeMeta r, mr_Spec r)"
        and mk = "\<lambda>(t, s) x. \<lparr> mr_TypeMeta = t, mr_ObjectMeta = fst x, mr_Spec = s, mr_Status = snd x \<rparr>"])
    (auto simp: request_reading_def pair_reading_def Request_DeepCopyInto_def pair_copy_def
      Let_def split: prod.splits)

lemma copies_list:
  assumes "copies T (Time_DeepCopy A)" "copies M (ObjectMeta_DeepCopyInto A)" "copies L (ListMeta_DeepCopyInto A)"
  shows "copies (list_reading T M L) (List_DeepCopyInto A)"
proof -
  have items: "copies (items_reading T M)
      (opt_copy (slice_copy as_items CItems (zero_Request A) (Request_DeepCopyInto A)))"
    unfolding items_reading_def using assms(1,2) by (intro copies_opt copies_slice copies_request) simp_all
  show ?thesis
    by (rule copies_struct[OF copies_pair[OF assms(3) items],
      where get = "\<lambda>l. (ml_ListMeta l, ml_Items l)"
        and put = "\<lambda>l x. l \<lparr> ml_ListMeta := fst x, ml_Items := snd x \<rparr>"
        and rest = ml_TypeMeta
        and mk = "\<lambda>t x. \<lparr> ml_TypeMeta = t, ml_ListMeta = fst x, ml_Items = snd x \<rparr>"])
    (auto simp: list_reading_def pair_reading_def List_DeepCopyInto_def pair_copy_def opt_copy_def
      slice_copy_def Let_def split: option.splits prod.splits)
qed

text \<open>The methods on pointers: nil stays nil, any other pointer is copied with what it points to.\<close>

lemma pointer_copies:
  "Spec_DeepCopy = opt_copy (box_copy as_spec CSpec zero_Spec Spec_DeepCopyInto)"
  "Status_DeepCopy A = opt_copy (box_copy as_status CStatus zero_Status (Status_DeepCopyInto A))"
  "Request_DeepCopy A = opt_copy (box_copy as_request CRequest (zero_Request A) (Request_DeepCopyInto A))"
  "List_DeepCopy A = opt_copy (box_copy as_list CList (zero_List A) (List_DeepCopyInto A))"
  by (auto simp: fun_eq_iff Spec_DeepCopy_def Status_DeepCopy_def Request_DeepCopy_def List_DeepCopy_def
      opt_copy_def box_copy_def Let_def split: option.splits prod.splits)

lemma copy_Some:
  "\<exists>b h'. Request_DeepCopy A (Some a) h = (Some b, h')" "\<exists>b h'. List_DeepCopy A (Some a) h = (Some b, h')"
  by (simp_all add: pointer_copies opt_copy_Some)

definition request_ptr ::
    "('t, 'm, 'l, 'x) apimachinery \<Rightarrow> (('t, 'm, 'l, 'x) cell, nat, 'w) reading
     \<Rightarrow> (('t, 'm, 'l, 'x) cell, 'm, 'mv) reading
     \<Rightarrow> (('t, 'm, 'l, 'x) cell, nat option, ('t, 'mv, 'w) MirrorUpgradeRequest option) reading" where
  "request_ptr A T M = opt_reading (box_reading as_request (zero_Request A) (request_reading T M))"

definition list_ptr ::
    "('t, 'm, 'l, 'x) apimachinery \<Rightarrow> (('t, 'm, 'l, 'x) cell, nat, 'w) reading
     \<Rightarrow> (('t, 'm, 'l, 'x) cell, 'm, 'mv) reading \<Rightarrow> (('t, 'm, 'l, 'x) cell, 'l, 'lv) reading
     \<Rightarrow> (('t, 'm, 'l, 'x) cell, nat option,
         ('t, 'lv, ('t, 'mv, 'w) MirrorUpgradeRequest list) MirrorUpgradeRequestList option) reading" where
  "list_ptr A T M L = opt_reading (box_reading as_list (zero_List A) (list_reading T M L))"

lemma copies_request_ptr:
  assumes "copies T (Time_DeepCopy A)" "copies M (ObjectMeta_DeepCopyInto A)"
  shows "copies (request_ptr A T M) (Request_DeepCopy A)"
  unfolding request_ptr_def pointer_copies
  by (intro copies_opt copies_box copies_request[OF assms]) simp

lemma copies_list_ptr:
  assumes "copies T (Time_DeepCopy A)" "copies M (ObjectMeta_DeepCopyInto A)" "copies L (ListMeta_DeepCopyInto A)"
  shows "copies (list_ptr A T M L) (List_DeepCopy A)"
  unfolding list_ptr_def pointer_copies
  by (intro copies_opt copies_box copies_list[OF assms]) simp

lemma copies_status_ptr:
  assumes "copies T (Time_DeepCopy A)"
  shows "copies (opt_reading (box_reading as_status zero_Status (status_reading T))) (Status_DeepCopy A)"
  unfolding pointer_copies by (intro copies_opt copies_box copies_status[OF assms]) simp

lemma copies_spec_ptr:
  "copies (opt_reading (box_reading as_spec zero_Spec plain_reading)) Spec_DeepCopy"
  unfolding pointer_copies by (intro copies_opt copies_box copies_spec) simp

end
