(* ===== verification/PropsMirror.thy ===== *)
theory PropsMirror
  imports MirrorTypes
begin

section \<open>Properties of the MirrorUpgradeRequest API\<close>

text \<open>
  The deep copies of the API types are well-typed, equal and independent of their originals. The
  witnesses run them on a heap where two items of a list share one time, with an apimachinery whose
  metadata is a pointer to a number and whose times are numbers.
\<close>

text \<open>C36: \<open>DeepCopyObject\<close> of a request that is not nil returns a request of the same dynamic type,
  well-typed, that reads the same as the original; the heap keeps every cell it had, and all the copy
  reaches was allocated by the call. A nil request gives a nil object and allocates nothing.\<close>

theorem request_copy_is_typed_and_equal:
  assumes "copies T (Time_DeepCopy A)" "copies M (ObjectMeta_DeepCopyInto A)"
    and "rd_wt (request_ptr A T M) h (Some a)"
  shows "\<exists>b h'. Request_DeepCopyObject A (Some a) h = (Some (RequestObject b), h') \<and> prefix h h' \<and>
      rd_wt (request_ptr A T M) h' (Some b) \<and>
      rd_view (request_ptr A T M) h' (Some b) = rd_view (request_ptr A T M) h (Some a) \<and>
      rd_refs (request_ptr A T M) h' (Some b) \<subseteq> {length h..<length h'} \<and>
      Request_DeepCopyObject A None h = (None, h)"
proof -
  obtain b h' where c: "Request_DeepCopy A (Some a) h = (Some b, h')"
    using copy_Some by blast
  note D = copiesD[OF copies_request_ptr[OF assms(1,2)] assms(3) c]
  show ?thesis
    using D c by (auto simp: Request_DeepCopyObject_def Request_DeepCopy_def)
qed

definition time0 :: "((string \<times> string, nat option, string, int) cell, nat, int) reading" where
  "time0 = box_reading as_ext 0 plain_reading"

definition time_copy0 ::
    "nat \<Rightarrow> (string \<times> string, nat option, string, int) cell goheap
     \<Rightarrow> nat \<times> (string \<times> string, nat option, string, int) cell goheap" where
  "time_copy0 = box_copy as_ext CExt 0 (\<lambda>v h. (v, h))"

definition apim0 :: "(string \<times> string, nat option, string, int) apimachinery" where
  "apim0 = \<lparr> zero_TypeMeta = ('''', ''''), zero_ObjectMeta = None, zero_ListMeta = '''',
     Time_DeepCopy = time_copy0, ObjectMeta_DeepCopyInto = opt_copy time_copy0,
     ListMeta_DeepCopyInto = \<lambda>v h. (v, h) \<rparr>"

lemma apim0_copies:
  "copies time0 (Time_DeepCopy apim0)" "copies (opt_reading time0) (ObjectMeta_DeepCopyInto apim0)"
  "copies plain_reading (ListMeta_DeepCopyInto apim0)"
  by (simp_all add: apim0_def time0_def time_copy0_def copies_plain copies_opt copies_box)

definition item0 :: "nat option \<Rightarrow> (string \<times> string, nat option) request" where
  "item0 done = \<lparr> mr_TypeMeta = (''MirrorUpgradeRequest'', ''ops.accord.io/v1alpha1''),
     mr_ObjectMeta = Some 1, mr_Spec = zero_Spec,
     mr_Status = \<lparr> Phase = ''Running'', Message = '''', StartedAt = Some 0, CompletedAt = done, JobRef = ''job'' \<rparr> \<rparr>"

definition heap0 :: "(string \<times> string, nat option, string, int) cell goheap" where
  "heap0 = [CExt 100, CExt 7, CItems [item0 None, item0 (Some 0)],
     CList \<lparr> ml_TypeMeta = (''List'', ''v1''), ml_ListMeta = ''rv'',
       ml_Items = Some \<lparr> sl_base = 2, sl_off = 0, sl_len = 2, sl_cap = 2 \<rparr> \<rparr>,
     CRequest (item0 (Some 0))]"

lemmas reading_defs =
  request_ptr_def list_ptr_def opt_reading_def box_reading_def slice_reading_def plain_reading_def
  request_reading_def status_reading_def items_reading_def list_reading_def time0_def
  box_wt_def box_refs_def slice_wt_def slice_refs_def elems_def load_def heap0_def item0_def

theorem request_copy_is_typed_and_equal_witness:
  "\<exists>b h'. Request_DeepCopyObject apim0 (Some 4) heap0 = (Some (RequestObject b), h') \<and>
     rd_view (request_ptr apim0 time0 (opt_reading time0)) h' (Some b) =
     rd_view (request_ptr apim0 time0 (opt_reading time0)) heap0 (Some 4)"
proof -
  have "rd_wt (request_ptr apim0 time0 (opt_reading time0)) heap0 (Some 4)"
    by (simp add: reading_defs)
  from request_copy_is_typed_and_equal[OF apim0_copies(1,2) this] show ?thesis by blast
qed

text \<open>C37: A deep copy of a list shares nothing with its original: whatever is written later to cells the
  copy reaches, or to new cells, the original reads the same; and whatever is written to cells that
  existed before the copy, the copy reads as the original did.\<close>

theorem list_copy_is_independent:
  assumes "copies T (Time_DeepCopy A)" "copies M (ObjectMeta_DeepCopyInto A)"
    and "copies L (ListMeta_DeepCopyInto A)" "rd_wt (list_ptr A T M L) h (Some a)"
  shows "\<exists>b h'. List_DeepCopyObject A (Some a) h = (Some (RequestListObject b), h') \<and>
    (\<forall>h2. agree {..<length h} h' h2 \<longrightarrow>
       rd_view (list_ptr A T M L) h2 (Some a) = rd_view (list_ptr A T M L) h (Some a)) \<and>
    (\<forall>h2. agree {length h..<length h'} h' h2 \<longrightarrow>
       rd_view (list_ptr A T M L) h2 (Some b) = rd_view (list_ptr A T M L) h (Some a))"
proof -
  obtain b h' where c: "List_DeepCopy A (Some a) h = (Some b, h')"
    using copy_Some by blast
  note P = copies_private[OF copies_list_ptr[OF assms(1-3)] assms(4) c]
  show ?thesis
    using P c by (auto simp: List_DeepCopyObject_def)
qed

theorem list_copy_is_independent_witness:
  "\<exists>b h'. List_DeepCopyObject apim0 (Some 3) heap0 = (Some (RequestListObject b), h') \<and>
    rd_view (list_ptr apim0 time0 (opt_reading time0) plain_reading) (h'[0 := CExt 999]) (Some b) =
    rd_view (list_ptr apim0 time0 (opt_reading time0) plain_reading) heap0 (Some 3)"
proof -
  have w: "rd_wt (list_ptr apim0 time0 (opt_reading time0) plain_reading) heap0 (Some 3)"
    by (simp add: reading_defs nth_Cons')
  have l: "0 < length heap0" by (simp add: heap0_def)
  have "agree {length heap0..<length h'} h' (h'[0 := CExt 999])" for h'
    using l by (auto simp: agree_def intro!: nth_list_update_neq)
  with list_copy_is_independent[OF apim0_copies w] show ?thesis by metis
qed

end
