(* ===== verification/Rebuild.thy ===== *)
theory Rebuild
  imports Resync
begin

section \<open>From one cluster through Git to another\<close>

text \<open>
  An object leaves a cluster with the inventory controller and comes back, on that cluster or another, with the
  sync operator. \<open>portable\<close> is what this takes of the code outside the repository for one object: its YAML
  reads back as an object of the same identity, and a cluster where the object does not exist stores what is
  applied without changing its annotations and its material. \<open>rebuilt_object\<close> follows one such object.
\<close>

definition portable :: "ext \<Rightarrow> 'o unstr \<Rightarrow> ('o, 'w) cluster \<Rightarrow> object_key \<Rightarrow> 'o \<Rightarrow> bytes \<Rightarrow> string \<Rightarrow> bool" where
  "portable X U K key ob yb h \<longleftrightarrow>
     NormalizedYAMLAndMaterialHash X U ob = Inr (yb, h) \<and> length yb \<le> maxRawFile \<and>
     (\<exists>m j manifest. normalizedMapFromRuntimeObject X U ob = Inr m \<and>
        yaml_faithful X (json_marshal (map_json m)) yb \<and>
        x_y2j X (firstYAMLDocument yb) = Some j \<and> u_unmarshal U j = Some manifest \<and>
        u_apiversion U manifest = argoExpectedAPIVersion \<and> ob_key U manifest = key \<and>
        (let a = u_set_annotations U (stamped_annotations U manifest h) manifest in
         u_annotations U (cl_merge K a None) = u_annotations U a \<and>
         normalizedMapFromRuntimeObject X U (cl_merge K a None) = Inr m))"

text \<open>A file server that serves, for the commit of a push, the added files as they are on the branch.\<close>

definition serves_branch ::
  "('o, 'w) cluster \<Rightarrow> WebhookHandler \<Rightarrow> push_paths \<Rightarrow> fs \<Rightarrow> bool" where
  "serves_branch K h push tree =
     (\<forall>xs c. inv_path xs \<longrightarrow> join_slash (live_elems xs) \<in> set (ps_AddedModified push) \<longrightarrow> tree (live_elems xs) = Some (File c) \<longrightarrow>
        cl_file K (raw_request (wh_GitHubToken h)
          (raw_url (ps_FullName push) (ps_HeadSHA push) (join_slash (live_elems xs)))) = c)"

lemma export_path_elems: "export_path X (kind, ns, n) = join_slash (live_elems (object_elems X kind ns n))"
  by (simp add: export_path_def live_elems_def object_elems_def)

lemma rebuilt_object:
  assumes "float_text_ok (x_float X)" "unstr_laws U" "key_laws U" "cluster_laws U C K"
    and "authentic h r body" "ParseGitHubPushPaths body = Inr push"
    and "ServeHTTP X U C h r w = (RespOK rs, w')" "\<forall>x \<in> set rs. wres_Status x \<noteq> ''error''"
    and "exportable (kind, ns, n)" "portable X U K (kind, ns, n) ob yb dg"
    and "serves_branch K h push tree" "tree (live_elems (object_elems X kind ns n)) = Some (File yb)"
    and "export_path X (kind, ns, n) \<in> set (ps_AddedModified push)"
    and "\<forall>p \<in> set (ps_AddedModified push @ ps_Removed push).
           path_object p = Some (kind, ns, n) \<longrightarrow> p = export_path X (kind, ns, n)"
    and "cl_at K (w_state w) (kind, ns, n) = None"
  shows "\<exists>live. cl_at K (w_state w') (kind, ns, n) = Some live \<and> stamped U live dg \<and>
    NormalizedYAMLAndMaterialHash X U live = Inr (yb, dg)"
proof -
  let ?key = "(kind, ns, n)" and ?p = "export_path X (kind, ns, n)"
  let ?parsed = "\<lparr> pp_PluralKind = ArgoPluralKind X kind, pp_Namespace = ns, pp_Name = n \<rparr>"
  obtain m j manifest where m: "NormalizedYAMLAndMaterialHash X U ob = Inr (yb, dg)" "length yb \<le> maxRawFile"
    "normalizedMapFromRuntimeObject X U ob = Inr m" "yaml_faithful X (json_marshal (map_json m)) yb"
    "x_y2j X (firstYAMLDocument yb) = Some j" "u_unmarshal U j = Some manifest"
    "u_apiversion U manifest = argoExpectedAPIVersion" "ob_key U manifest = ?key"
    and st: "u_annotations U (cl_merge K (u_set_annotations U (stamped_annotations U manifest dg) manifest) None)
        = u_annotations U (u_set_annotations U (stamped_annotations U manifest dg) manifest)"
      "normalizedMapFromRuntimeObject X U (cl_merge K (u_set_annotations U (stamped_annotations U manifest dg) manifest) None) = Inr m"
    using assms(10) unfolding portable_def Let_def by blast
  define a where "a = u_set_annotations U (stamped_annotations U manifest dg) manifest"
  have e: "argo_kind kind" "proper_elem ns" "object_name n" "\<not> has_suffix n ''.yml''"
    using assms(9) by (simp_all add: exportable_def)
  have parsed: "ParseInventoryExportPath ?p = Some ?parsed"
    using parse_render[OF e, of X] by (simp add: export_path_render)
  have "cl_file K (raw_request (wh_GitHubToken h) (raw_url (ps_FullName push) (ps_HeadSHA push) ?p)) = yb"
    using assms(11-13) object_elems_inv[OF e(1-3), of X] unfolding serves_branch_def export_path_elems by blast
  then have fetched: "pushed_file K h push ?p = yb" using m(2) by (simp add: pushed_file_def)
  have hash: "MaterialHashFromNormalizedYAML X yb = Inr dg"
    by (rule exported_yaml_hash[OF assms(1) m(1,3,4)])
  have "manifest_matches U ?parsed manifest"
    using m(7,8) kind_of_plural[OF e(1), of X] by (simp add: manifest_matches_def ob_key_def)
  then have inc: "incoming X U ?parsed yb = Some a"
    using hash m(5,6) by (simp add: incoming_def a_def)
  have key: "ob_key U a = ?key" using m(8) by (simp add: a_def key_lawsD[OF assms(3)])
  have at: "cl_at K (w_state w') ?key = Some (cl_merge K a None)"
    using pushed_object[OF assms(4,3,5-8,13) parsed, of a] assms(14,15) fetched inc by (simp add: key)
  have "stamped U (cl_merge K a None) dg"
    using stamped_applied[OF assms(2), of manifest dg] stamped_cong[OF st(1)] by (simp add: a_def)
  moreover have "NormalizedYAMLAndMaterialHash X U (cl_merge K a None) = Inr (yb, dg)"
    using m(1,3) st(2) unfolding normalized_yaml_hash a_def by simp
  ultimately show ?thesis using at by blast
qed

text \<open>Different objects have different keys in the cache.\<close>

lemma distinct_watch_keys:
  assumes "distinct obs" "\<forall>(app, ns, n) \<in> set obs. exportable (kind_name app, ns, n)"
  shows "distinct (map (watch_key X) (map (\<lambda>(app, ns, n). Watch app \<lparr> rq_namespace = ns, rq_name = n \<rparr> w) obs))"
proof -
  have "inj_on (\<lambda>(app, ns, n). watch_key X (Watch app \<lparr> rq_namespace = ns, rq_name = n \<rparr> w)) (set obs)"
  proof (rule inj_onI)
    fix x y :: "bool \<times> string \<times> string"
    obtain app ns n app' ns' n' where xy: "x = (app, ns, n)" "y = (app', ns', n')" by (metis prod_cases3)
    assume o: "x \<in> set obs" "y \<in> set obs"
      and "(\<lambda>(app, ns, n). watch_key X (Watch app \<lparr> rq_namespace = ns, rq_name = n \<rparr> w)) x =
        (\<lambda>(app, ns, n). watch_key X (Watch app \<lparr> rq_namespace = ns, rq_name = n \<rparr> w)) y"
    then have "export_path X (kind_name app, ns, n) = export_path X (kind_name app', ns', n')"
      using watch_path[of X "Watch app \<lparr> rq_namespace = ns, rq_name = n \<rparr> w"]
        watch_path[of X "Watch app' \<lparr> rq_namespace = ns', rq_name = n' \<rparr> w"]
      by (simp add: xy watch_elems_def export_path_elems)
    moreover have "exportable (kind_name app, ns, n)" "exportable (kind_name app', ns', n')"
      using assms(2) o by (auto simp: xy)
    ultimately have "(kind_name app, ns, n) = (kind_name app', ns', n')"
      using ep.enc_inject by blast
    then show "x = y" by (auto simp: xy kind_name_def split: if_splits)
  qed
  then show ?thesis using assms(1) by (simp add: distinct_map comp_def case_prod_unfold)
qed

end
