(* ===== verification/TestUtils.thy ===== *)
theory TestUtils
  imports GitWorker
begin

section \<open>test/utils: the helpers of the end-to-end tests\<close>

text \<open>
  What the end-to-end suite uses to drive kubectl and kind and to edit scaffolded files. The host (the
  working directory, the environment, processes, files) is the argument \<open>H\<close> over a state \<open>'w\<close>; the
  lines for the test report are left out. \<open>bufio.Scanner\<close> is executable: it gives lines without their
  end, stops without an error at a line of 64 KiB, and gives no empty line at the end of its input.
  The lemmas say which lines a command's output gives, and that \<open>UncommentCode\<close> undoes the commenting
  of a block.
\<close>

record 'w host =
  h_getwd :: "'w \<Rightarrow> string \<times> string option"
  h_chdir :: "string \<Rightarrow> 'w \<Rightarrow> string option \<times> 'w"
  h_environ :: "string list"
  h_lookup_env :: "string \<Rightarrow> string option"
  h_combined_output :: "string \<Rightarrow> string list \<Rightarrow> string list \<Rightarrow> 'w \<Rightarrow> string \<times> string option \<times> 'w"
  h_read_file :: "string \<Rightarrow> 'w \<Rightarrow> string + bytes"
  h_write_file :: "string \<Rightarrow> bytes \<Rightarrow> 'w \<Rightarrow> string option \<times> 'w"

datatype util_error =
    GetwdFailed string
  | CommandFailed "string list" string string
  | ReadFailed string string
  | TargetNotFound string
  | FileWriteFailed string string

subsection \<open>Strings and lines\<close>

text \<open>\<open>strings.ReplaceAll\<close> for a non-empty \<open>old\<close>.\<close>

function replace_all :: "char \<Rightarrow> string \<Rightarrow> string \<Rightarrow> string \<Rightarrow> string" where
  "replace_all c cs new s =
     (case index_of s (c # cs) of
        None \<Rightarrow> s
      | Some i \<Rightarrow> take i s @ new @ replace_all c cs new (drop (i + length (c # cs)) s))"
  by pat_completeness auto
termination
proof (relation "measure (\<lambda>(c, cs, new, s). length s)")
  fix c cs and new :: string and s i
  assume "index_of s (c # cs) = Some i"
  then have "i + length (c # cs) \<le> length s" by (rule index_of_bound)
  then show "((c, cs, new, drop (i + length (c # cs)) s), c, cs, new, s) \<in> measure (\<lambda>(c, cs, new, s). length s)"
    by simp
qed simp

declare replace_all.simps [simp del]

definition GetNonEmptyLines :: "string \<Rightarrow> string list" where
  "GetNonEmptyLines output = filter (\<lambda>e. e \<noteq> []) (split_on (CHR 0x0A) [] output)"

text \<open>The tokens of \<open>bufio.Scanner\<close> with \<open>ScanLines\<close>.\<close>

definition max_token :: nat where
  "max_token = 65536"

definition drop_cr :: "string \<Rightarrow> string" where
  "drop_cr l = (if l \<noteq> [] \<and> last l = CHR 0x0D then butlast l else l)"

definition raw_lines :: "string \<Rightarrow> string list" where
  "raw_lines s = (let ls = split_on (CHR 0x0A) [] s in if last ls = [] then butlast ls else ls)"

definition scan_lines :: "string \<Rightarrow> string list" where
  "scan_lines s = map drop_cr (takeWhile (\<lambda>l. length l < max_token) (raw_lines s))"

fun join_with :: "string \<Rightarrow> string list \<Rightarrow> string" where
  "join_with sep [] = []"
| "join_with sep [l] = l"
| "join_with sep (l # m # r) = l @ sep @ join_with sep (m # r)"

subsection \<open>Commands\<close>

definition GetProjectDir :: "'w host \<Rightarrow> 'w \<Rightarrow> string \<times> util_error option" where
  "GetProjectDir H w =
     (let (wd, err) = h_getwd H w
      in case err of
           Some e \<Rightarrow> (wd, Some (GetwdFailed e))
         | None \<Rightarrow> (replace_all (CHR ''/'') ''test/e2e'' '''' wd, None))"

definition Run :: "'w host \<Rightarrow> string list \<Rightarrow> 'w \<Rightarrow> string \<times> util_error option \<times> 'w" where
  "Run H args w =
     (let dir = fst (GetProjectDir H w);
          w1 = snd (h_chdir H dir w);
          env = h_environ H @ [''GO111MODULE=on''];
          (output, err, w2) = h_combined_output H dir env args w1
      in case err of
           Some e \<Rightarrow> (output, Some (CommandFailed args output e), w2)
         | None \<Rightarrow> (output, None, w2))"

definition certmanagerVersion :: string where
  "certmanagerVersion = ''v1.20.0''"

definition certmanager_url :: string where
  "certmanager_url = ''https://github.com/cert-manager/cert-manager/releases/download/'' @ certmanagerVersion
     @ ''/cert-manager.yaml''"

definition kubeSystemLeases :: "string list" where
  "kubeSystemLeases = [''cert-manager-cainjector-leader-election'', ''cert-manager-controller'']"

definition UninstallCertManager :: "'w host \<Rightarrow> 'w \<Rightarrow> 'w" where
  "UninstallCertManager H w =
     (let (_, _, w1) = Run H [''kubectl'', ''delete'', ''-f'', certmanager_url] w
      in fold (\<lambda>lease w. snd (snd (Run H [''kubectl'', ''delete'', ''lease'', lease, ''-n'', ''kube-system'',
                ''--ignore-not-found'', ''--force'', ''--grace-period=0''] w)))
           kubeSystemLeases w1)"

definition InstallCertManager :: "'w host \<Rightarrow> 'w \<Rightarrow> util_error option \<times> 'w" where
  "InstallCertManager H w =
     (let (_, err, w1) = Run H [''kubectl'', ''apply'', ''-f'', certmanager_url] w
      in case err of
           Some e \<Rightarrow> (Some e, w1)
         | None \<Rightarrow>
             (let (_, err2, w2) = Run H [''kubectl'', ''wait'', ''deployment.apps/cert-manager-webhook'',
                    ''--for'', ''condition=Available'', ''--namespace'', ''cert-manager'', ''--timeout'', ''5m''] w1
              in (err2, w2)))"

definition certManagerCRDs :: "string list" where
  "certManagerCRDs = [''certificates.cert-manager.io'', ''issuers.cert-manager.io'',
     ''clusterissuers.cert-manager.io'', ''certificaterequests.cert-manager.io'',
     ''orders.acme.cert-manager.io'', ''challenges.acme.cert-manager.io'']"

definition IsCertManagerCRDsInstalled :: "'w host \<Rightarrow> 'w \<Rightarrow> bool \<times> 'w" where
  "IsCertManagerCRDsInstalled H w =
     (let (output, err, w1) = Run H [''kubectl'', ''get'', ''crds''] w
      in case err of
           Some e \<Rightarrow> (False, w1)
         | None \<Rightarrow>
             (list_ex (\<lambda>crd. list_ex (\<lambda>line. index_of line crd \<noteq> None) (GetNonEmptyLines output))
                certManagerCRDs, w1))"

definition LoadImageToKindClusterWithName :: "'w host \<Rightarrow> string \<Rightarrow> 'w \<Rightarrow> util_error option \<times> 'w" where
  "LoadImageToKindClusterWithName H name w =
     (let cluster = (case h_lookup_env H ''KIND_CLUSTER'' of Some v \<Rightarrow> v | None \<Rightarrow> ''kind'');
          kindOptions = [''load'', ''docker-image'', name, ''--name'', cluster];
          kindBinary = (case h_lookup_env H ''KIND'' of Some v \<Rightarrow> v | None \<Rightarrow> ''kind'');
          (_, err, w1) = Run H (kindBinary # kindOptions) w
      in (err, w1))"

subsection \<open>UncommentCode\<close>

definition uncommented :: "bytes \<Rightarrow> nat \<Rightarrow> string \<Rightarrow> string \<Rightarrow> bytes" where
  "uncommented content idx target pfx =
     take idx content @ join_with newline (map (\<lambda>l. trim_prefix l pfx) (scan_lines target))
       @ drop (idx + length target) content"

definition UncommentCode :: "'w host \<Rightarrow> string \<Rightarrow> string \<Rightarrow> string \<Rightarrow> 'w \<Rightarrow> util_error option \<times> 'w" where
  "UncommentCode H filename target pfx w =
     (case h_read_file H filename w of
        Inl e \<Rightarrow> (Some (ReadFailed filename e), w)
      | Inr content \<Rightarrow>
          (case index_of content target of
             None \<Rightarrow> (Some (TargetNotFound target), w)
           | Some idx \<Rightarrow>
               if scan_lines target = [] then (None, w)
               else (case h_write_file H filename (uncommented content idx target pfx) w of
                       (Some e, w1) \<Rightarrow> (Some (FileWriteFailed filename e), w1)
                     | (None, w1) \<Rightarrow> (None, w1))))"

subsection \<open>Lines\<close>

lemma split_newline_no: "CHR 0x0A \<notin> set s \<Longrightarrow> split_on (CHR 0x0A) [] s = [s]"
  by (simp add: split_on.simps index_of_slash_None[THEN iffD2])

lemma split_newline_append:
  "CHR 0x0A \<notin> set a \<Longrightarrow> split_on (CHR 0x0A) [] (a @ CHR 0x0A # r) = a # split_on (CHR 0x0A) [] r"
  by (subst split_on.simps) (simp add: index_of_slash_append)

lemma split_join_lines:
  "ls \<noteq> [] \<Longrightarrow> \<forall>l \<in> set ls. CHR 0x0A \<notin> set l \<Longrightarrow> split_on (CHR 0x0A) [] (join_with newline ls) = ls"
  by (induction newline ls rule: join_with.induct)
     (simp_all add: split_newline_no split_newline_append newline_def)

text \<open>A command's output as its lines: the lines that are not empty, in order.\<close>

lemma non_empty_lines:
  "ls \<noteq> [] \<Longrightarrow> \<forall>l \<in> set ls. CHR 0x0A \<notin> set l \<Longrightarrow>
   GetNonEmptyLines (join_with newline ls) = filter (\<lambda>l. l \<noteq> []) ls"
  by (simp add: GetNonEmptyLines_def split_join_lines)

definition plain_line :: "string \<Rightarrow> bool" where
  "plain_line l = (CHR 0x0A \<notin> set l \<and> CHR 0x0D \<notin> set l \<and> length l < max_token)"

lemma scan_join_lines:
  assumes "ls \<noteq> []" "\<forall>l \<in> set ls. plain_line l" "last ls \<noteq> []"
  shows "scan_lines (join_with newline ls) = ls"
proof -
  have "raw_lines (join_with newline ls) = ls"
    using assms split_join_lines[of ls] by (simp add: raw_lines_def plain_line_def)
  moreover have "takeWhile (\<lambda>l. length l < max_token) ls = ls"
    using assms(2) by (simp add: takeWhile_eq_all_conv plain_line_def)
  moreover have "map drop_cr ls = ls"
    using assms(2) last_in_set by (intro map_idI) (fastforce simp: plain_line_def drop_cr_def)
  ultimately show ?thesis by (simp only: scan_lines_def)
qed

text \<open>
  A block of lines commented with \<open>pfx\<close> is restored in place, whatever stands before and after it,
  if the lines end in \<open>\n\<close>, are short, and the block does not end in a line break.
\<close>

lemma uncomment_restores:
  assumes "ls \<noteq> []" "\<forall>l \<in> set ls. plain_line (pfx @ l)" "pfx @ last ls \<noteq> []"
    and "target = join_with newline (map (\<lambda>l. pfx @ l) ls)"
    and "h_read_file H file w = Inr (a @ target @ b)" "index_of (a @ target @ b) target = Some (length a)"
    and "h_write_file H file (a @ join_with newline ls @ b) w = (None, w1)"
  shows "UncommentCode H file target pfx w = (None, w1)"
proof -
  have s: "scan_lines target = map (\<lambda>l. pfx @ l) ls"
    unfolding assms(4) by (rule scan_join_lines) (use assms(1-3) in \<open>auto simp: last_map\<close>)
  have "map (\<lambda>l. trim_prefix l pfx) (map (\<lambda>l. pfx @ l) ls) = ls"
    by (simp add: trim_prefix_def has_prefix_def o_def)
  then have "uncommented (a @ target @ b) (length a) target pfx = a @ join_with newline ls @ b"
    unfolding uncommented_def s by simp
  then show ?thesis
    using assms(1,5-7) by (simp add: UncommentCode_def s)
qed

text \<open>A block that ends in a line break loses it: what follows is joined to its last line.\<close>

lemma uncomment_joins_lines:
  assumes "\<forall>l \<in> set ls. plain_line l" "ls \<noteq> []" "last ls \<noteq> []"
  shows "uncommented ((join_with newline ls @ newline) @ b) 0 (join_with newline ls @ newline) pfx
    = join_with newline (map (\<lambda>l. trim_prefix l pfx) ls) @ b"
proof -
  have j: "join_with newline ls @ newline = join_with newline (ls @ [[]])"
    using assms(2) by (induction ls rule: induct_list012) (simp_all add: newline_def)
  have "split_on (CHR 0x0A) [] (join_with newline ls @ newline) = ls @ [[]]"
    unfolding j by (rule split_join_lines) (use assms(1) in \<open>auto simp: plain_line_def\<close>)
  then have "scan_lines (join_with newline ls @ newline) = scan_lines (join_with newline ls)"
    using assms split_join_lines[of ls] by (simp add: scan_lines_def raw_lines_def plain_line_def)
  then show ?thesis
    using scan_join_lines[OF assms(2,1,3)] by (simp add: uncommented_def)
qed

end
