(* ===== verification/Spec2Isabelle.thy ===== *)
theory Spec2Isabelle
  imports PropsExport PropsGit PropsSync PropsCluster PropsStartup PropsRemote PropsMirror Rebuild TestUtils
begin

text \<open>
  A model of accord, two controllers that keep Argo CD objects of a cluster and a Git repository in
  step, with the theorems that make them correct.

  The program. \<open>cmd/inventory-controller\<close> watches Applications and ApplicationSets: a reconciler
  normalises the object it sees, compares the digest with the object's stamp and with a cache, and
  queues the YAML under a path; a deleted object has its file queued for the archive. A batch worker
  turns the queue into one commit per tick: clone, write or move the files, commit, push.
  \<open>cmd/sync-operator\<close> serves a push webhook: it checks the signature, reads the paths of the push,
  fetches every added or modified file and applies it with the digest as a stamp, and deletes the
  objects of removed files. The stamp and the cache are what keeps the two from feeding each other.
  \<open>cmd/mirror-upgrader\<close> registers a controller that has no logic yet.

  Foundations. \<open>Prelude\<close>: results, Go maps as sorted association lists, the interfaces \<open>keyed_store\<close>,
  \<open>erasable_store\<close> and \<open>codec\<close>. \<open>GoStrings\<close>, \<open>GoPath\<close>, \<open>GoUtf8\<close>, \<open>GoQuote\<close>, \<open>GoJSON\<close>, \<open>GoJSONLaws\<close>,
  \<open>GoCrypto\<close>, \<open>GoOS\<close>, \<open>GoFlag\<close>: what the source uses of Go's standard library (package strings,
  path and path/filepath, strconv, encoding/json, crypto/sha256 and hmac, encoding/hex, os, flag), executable, with
  its laws; \<open>GoHeap\<close>: pointers and slices on a heap of cells, with the interface \<open>deep_copier\<close> and the ways
  of building one. \<open>Externals\<close>: what is in neither, as arguments: the YAML conversions, unstructured
  objects, the Kubernetes and HTTP clients with a log of every call; go-git is the argument \<open>G\<close> of
  \<open>GitWorker\<close>, controller-runtime the argument \<open>R\<close> of \<open>Bootstrap\<close>.

  Components, by package. internal/config: \<open>Config\<close>. internal/configmapmaterial:
  \<open>ConfigMapMaterial\<close>. internal/inventory: \<open>ExportPath\<close> (export_path.go, gvk.go), \<open>HashCache\<close>,
  \<open>Normalize\<close>, \<open>Reconciler\<close>. internal/git: \<open>GitArchive\<close> (archive_path.go and
  archiveInventoryFileInClone), \<open>GitWorker\<close> with \<open>GitWorkerLaws\<close> (worker.go). internal/sync: \<open>SyncHmac\<close>,
  \<open>SyncGithub\<close>, \<open>SyncPath\<close>, \<open>SyncFetch\<close>, \<open>SyncApply\<close>, \<open>SyncWebhook\<close>, with
  the texts of their errors and the bytes of the answer in \<open>SyncReply\<close>. internal/bootstrap: \<open>Bootstrap\<close>. cmd and
  internal/controller: \<open>Mains\<close>. api/v1alpha1: \<open>MirrorTypes\<close> (the structs and every generated deep copy
  method). test/utils: \<open>TestUtils\<close>. A function of the source is the
  definition of the same name; a struct is a record with a prefix for its fields; an error is a
  constructor of the component's error type, whose text \<open>SyncReply\<close> gives where a client can see it. \<open>System\<close> is the
  inventory controller as a state machine (reconcilers, queue, an export under way, what was pushed),
  with lemmas that the code's functions are its steps. \<open>Publish\<close> follows one object from the reconciler to a
  pushed tree and from a pushed file to the cluster. \<open>Remote\<close> follows the branch on the Git server through any
  run of the worker's loop, \<open>Control\<close> through any run of the whole controller, where a reconciler is first
  refined to a \<open>delta\<close> on cache and queue. \<open>Cluster\<close> is the cluster behind the client and what the paths of a push ask of it,
  with the lemmas that \<open>ServeHTTP\<close> does that and nothing else; \<open>Concurrent\<close> serves any number of pushes at the same
  time, call by call, and \<open>Serial\<close> puts the paths they served in an order. \<open>Resync\<close> is a restart of the inventory controller, \<open>Rebuild\<close> the way of an object from one
  cluster through Git to another.

  Properties. \<open>PropsSync\<close>: the webhook has no effect without a valid signature, and with one only the
  effects the paths of the push name; signature, push and path are accepted exactly when they should
  be. \<open>PropsExport\<close>: digests survive the way through Git, the normal form keeps exactly what is the
  user's, reconcilers do what is to be done and nothing else. \<open>PropsGit\<close>: the exported tree is exactly what the
  batch says, in any order; commits, queue, failed flushes, the interval. \<open>PropsStartup\<close>: flags, manager options,
  no program serves before all its stages have succeeded. \<open>PropsRemote\<close>: the branch holds on every path what the
  last operation on it leaves, or the operation is still pending; so a cached digest tells what is pending or in Git; a
  restart brings it up to date, and so does the first tick on which Git works after failures. \<open>PropsCluster\<close>: the cluster follows a push path by path, also when it is delivered twice or
  together with others (which is as if their paths had been served one after the other), no other object is touched, and the
  sender can read what became of every path. \<open>PropsMirror\<close>: deep copies are
  well-typed, equal and independent. Below: the loop
  is broken, the cache may be trusted, a change is pushed, an exported file comes back once, and Git is enough to rebuild a
  cluster.
  \<open>Instances\<close> holds the concrete instances on which the witnesses evaluate the model. Some theorems
  state what the code does where it should do otherwise (a forgotten export after a template failure, a
  newer operation overwritten by a failed export, an interval that
  overflows, an archive outside \<open>inventory/\<close>, a file renamed from \<open>.yml\<close> to \<open>.yaml\<close>); lemmas beside them state others
  (names ending in \<open>.yml\<close>, a push that is delivered late).

  Bounds. \<open>json_parse\<close> recurses with fuel twice the length of the text, which is enough because
  two steps consume a byte (\<open>p_fuel_enough\<close>, and the property on decoding an event), and a nesting limit of 10000 as in
  encoding/json. Bodies are cut at 32 MiB (webhook) and 8 MiB (raw file) as in the source.
  Durations are 64-bit words. Every function is total, without partial correctness.

  Hypotheses about code outside. \<open>float_text_ok\<close>: the text of a float64 is a JSON number that reads as
  itself. \<open>unstr_laws\<close>: annotations are read back as set. \<open>yaml_faithful\<close>: the YAML printed for a JSON
  value converts back to a JSON text of the same value; it is stated on \<open>firstYAMLDocument\<close> of
  the YAML, since that is what the code converts. \<open>git_works\<close>: the calls of one export succeed on a clone laid out as
  an inventory. \<open>remote_laws\<close>: what clone, add, status, commit and push do to the branch, the worker being
  its only writer; any call may fail, and a push that reports an error may have taken effect. \<open>copies\<close>
  of \<open>Time_DeepCopy\<close>, \<open>ObjectMeta_DeepCopyInto\<close> and \<open>ListMeta_DeepCopyInto\<close>: apimachinery's own deep copies are
  deep copies. \<open>range_order\<close>: iterating over a Go map visits every entry once. \<open>cluster_laws\<close>: an apply
  or a delete changes the object it names and no other, when it fails perhaps not even that; a fetch changes nothing, and a
  complete 200 answer is the file of the commit; between its calls only the webhook writes. \<open>key_laws\<close>: the identity of an
  object is read back as set. \<open>portable\<close>: the YAML of one object reads back as an object of the same identity, and a
  cluster without the object stores what is applied.

  Not modelled. Log lines, the texts of errors that only reach the log, and the text an error from outside adds
  to a message (an argument); the table of printable runes (an argument); deadlines, timing and constant-time comparison; symbolic links,
  permissions and device errors of the file system; what a failing file operation made outside the
  clone directory; text/template beyond literals and field actions, lower-casing of non-ASCII
  strings, URL parsing, YAML and float64 formatting (arguments); the memory model of goroutines: a
  step is what runs under a lock in the inventory controller, and what runs between two calls to the outside in the
  sync operator, whose requests share no memory. JSON names and validation markers of the mirror
  upgrade API, which no code reads; the garbage collector; the lines the test helpers write to the
  test report; the test suites themselves.
\<close>

section \<open>Properties that span components\<close>

text \<open>C4: No loop between the two controllers. Once the sync operator has applied a Git file, the
  inventory controller does nothing when it sees the object on the cluster, provided the cluster
  stored the applied annotations and the object's material content is that of the file.\<close>

theorem applied_object_is_not_exported:
  assumes "unstr_laws U" "ApplyInventoryYAML X U C parsed y w = (None, w')"
    and "w_calls w' = w_calls w @ [PatchCall applied owner force]"
    and "u_annotations U live = u_annotations U applied"
    and "x_y2j X (firstYAMLDocument y) = Some j" "unmarshal_map X j = Some m"
    and "normalizedMapFromRuntimeObject X U live = Inr (map_option normalizeKubernetesObject m)"
    and "x_j2y X (json_marshal (map_json (map_option normalizeKubernetesObject m))) = Some yb"
  shows "handle X U d req live kind = (None, d)"
proof -
  obtain manifest hash where h: "MaterialHashFromNormalizedYAML X y = Inr hash"
    "applied = u_set_annotations U (stamped_annotations U manifest hash) manifest"
    using apply_success[of X U C parsed y w] assms(2,3) by (auto simp: applies_def)
  have hash: "hash = sha256_hex (json_marshal (map_json (map_option normalizeKubernetesObject m)))"
    using h(1) assms(5,6) unfolding hash_of_yaml by auto
  have n: "NormalizedYAMLAndMaterialHash X U live = Inr (yb, hash)"
    unfolding normalized_yaml_hash using assms(7,8) hash by blast
  have "u_annotations U live = Some (stamped_annotations U manifest hash)"
    using unstr_lawsD[OF assms(1) stamped_not_empty] assms(4) h(2) by simp
  then have "stamped U live hash"
    by (simp add: stamped_def stamped_annotations_def mget_mput)
  then show ?thesis by (rule handle_stamped[OF n])
qed

definition live0 :: "json gomap" where
  "live0 = u_set_annotations u0 (stamped_annotations u0 app0 hash0) app0"

lemma live0_value:
  "live0 = [(''apiVersion'', JStr ''argoproj.io/v1alpha1''), (''kind'', JStr ''Application''),
      (''metadata'', JObj [(''annotations'', JObj [(SyncContentHashAnnotationKey, JStr hash0)]),
                           (''name'', JStr ''web''), (''namespace'', JStr ''argocd'')]),
      (''spec'', JObj [(''project'', JStr ''default'')])]"
proof -
  have "stamped_annotations u0 app0 hash0 = [(SyncContentHashAnnotationKey, hash0)]"
    by (simp add: stamped_annotations_def u0_def meta_of_def obj_or_empty_def app0_def mget_def mput_all_def)
  then show ?thesis
    by (simp add: live0_def u0_def set_metadata_def obj_or_empty_def app0_def mget_def json_strmap_def)
qed

lemma hash0_utf8: "utf8_ok hash0"
proof -
  have "\<forall>c \<in> set hex_alphabet. bval c < 128" by code_simp
  then show ?thesis
    using hex_encode_digits[of _ "sha256 yaml0"] by (auto simp: hash0_def sha256_hex_def intro: utf8_ok_ascii)
qed

lemma live0_normalized: "normalizedMapFromRuntimeObject x0 u0 live0 = Inr (Some app0)"
proof -
  have "gomap_ok live0" by (simp add: live0_value gomap_ok_def)
  then have "norm_map (x_float x0) max_nesting live0"
    by (simp add: norm_map_def live0_value hash0_utf8 utf8_ok_ascii SyncContentHashAnnotationKey_def
        max_nesting_def gomap_ok_def)
  then have "unmarshal_map x0 (json_marshal (map_json (Some live0))) = Some (Some live0)"
    by (intro unmarshal_marshal_map) (simp add: norm_opt_def)
  moreover have "normalizeKubernetesObject live0 = app0"
    unfolding live0_value by (simp add: normalizeKubernetesObject_def strip_metadata_def strip_annotations_def
        stripMetadataKeys_def SyncContentHashAnnotationKey_def mdel_def mget_def app0_def)
  ultimately show ?thesis
    by (simp add: normalizedMapFromRuntimeObject_def u0_def map_json_def del: json_marshal.simps)
qed

theorem applied_object_is_not_exported_witness:
  "handle x0 u0 d0 \<lparr> rq_namespace = ''argocd'', rq_name = ''web'' \<rparr> live0 ''Application'' = (None, d0)"
proof (rule applied_object_is_not_exported[OF unstr_laws_u0 apply0[of world0]])
  show "w_calls (snd (do_patch c0 (u_set_annotations u0 (stamped_annotations u0 app0 hash0) app0) fieldOwner True world0))
      = w_calls world0 @ [PatchCall live0 fieldOwner True]"
    by (simp add: live0_def)
  show "x_y2j x0 (firstYAMLDocument yaml0) = Some yaml0" by (simp add: app0_doc)
  show "unmarshal_map x0 yaml0 = Some (Some app0)" by (rule yaml0_decodes)
  show "normalizedMapFromRuntimeObject x0 u0 live0 = Inr (map_option normalizeKubernetesObject (Some app0))"
    by (simp add: live0_normalized app0_normal)
  show "x_j2y x0 (json_marshal (map_json (map_option normalizeKubernetesObject (Some app0)))) = Some yaml0"
    by (simp add: app0_normal map_json_def yaml0_text[symmetric] del: json_marshal.simps)
qed simp



text \<open>A change reaches Git. When the object a reconciler sees is new to it, the next tick, if Git
  answers as it should, clones, commits a tree in which the object's path holds its YAML, and pushes;
  afterwards the queue holds only what was enqueued during the export.\<close>

lemma change_is_pushed:
  assumes "NormalizedYAMLAndMaterialHash X U ob = Inr (yb, h)" "\<not> stamped U ob h"
    and "Cache_Get (rd_cache d) (ExportObjectCacheKey X kind ns n) \<noteq> Some h"
    and "deps_ok d" "rd_tmpl d = defaultExportPathTemplate" "queue_inv (rd_queue d)"
    and "argo_kind kind" "proper_elem ns" "object_name n"
    and "git_works G (bw_cfg (rd_queue d)) (gs_state s, gs_fs s)" "range_order ord"
    and "trim_space (GitRepoURL (bw_cfg (rd_queue d))) \<noteq> ''''"
  shows "\<exists>d' w' s' tree msg. handle X U d \<lparr> rq_namespace = ns, rq_name = n \<rparr> ob kind = (None, d') \<and>
    flush G ord mid (rd_queue d') s = (w', s') \<and>
    gs_log s' = gs_log s @ [CloneCall (clone_options (bw_cfg (rd_queue d))), CommitCall msg tree,
                            PushCall (auth (bw_cfg (rd_queue d)))] \<and>
    tree [''inventory'', ArgoPluralKind X kind, ns, n @ ''.yaml''] = Some (File yb) \<and>
    (\<forall>p. pending_at w' p = map_of (rev (map entry_of mid)) p)"
proof -
  let ?req = "\<lparr> rq_namespace = ns, rq_name = n \<rparr>" and ?xs = "object_elems X kind ns n"
  let ?p = "join_slash (live_elems ?xs)"
  define d' where "d' = d \<lparr> rd_cache := Cache_Set (ExportObjectCacheKey X kind ns n) h (rd_cache d),
      rd_queue := put_pending ?p \<lparr> pe_kind = opWrite, pe_content = yb \<rparr> (rd_queue d) \<rparr>"
  have h: "handle X U d ?req ob kind = (None, d')"
    using handle_changed[OF assms(1,2), of d kind ?req] assms(3,5)
    by (simp add: render_object Let_def Enqueue_def d'_def)
  have ok: "worker_ok (rd_queue d)" using assms(4) by (simp add: deps_ok_def)
  have w: "worker_ok (rd_queue d')" "queue_inv (rd_queue d')" "bw_cfg (rd_queue d') = bw_cfg (rd_queue d)"
    using bw.inv_store[OF ok] queue_inv_handle[of d kind ?req X U ob] assms(5-9) h
    by (simp_all add: d'_def, simp add: put_pending_def)
  have p: "pending_at (rd_queue d') ?p = Some \<lparr> pe_kind = opWrite, pe_content = yb \<rparr>"
    by (simp add: d'_def bw.lookup_store[OF ok])
  from tick_publishes[OF _ w(2,1) assms(11) _ object_elems_inv[OF assms(7-9), of X] p, of G s mid]
  obtain tree s' where t: "flush G ord mid (rd_queue d') s = (run_ops mid (rd_queue d' \<lparr> bw_pending := mempty \<rparr>), s')"
    "gs_log s' = gs_log s @ [CloneCall (clone_options (bw_cfg (rd_queue d))),
        CommitCall (full_message (bw_pending (rd_queue d'))) tree, PushCall (auth (bw_cfg (rd_queue d)))]"
    "tree (live_elems ?xs) = Some (File yb)"
    using assms(10,12) unfolding w(3) by blast
  have "pending_at (run_ops mid (rd_queue d' \<lparr> bw_pending := mempty \<rparr>)) q = map_of (rev (map entry_of mid)) q" for q
    using run_ops_last_wins[of "rd_queue d' \<lparr> bw_pending := mempty \<rparr>" mid q]
    by (simp add: worker_ok_def pending_at_def split: option.splits)
  then show ?thesis
    using h t by (auto simp: live_elems_def object_elems_def)
qed

lemma g_good_works: "git_works g_good cfg t"
  using dir0_path(1) fs0_ok by (cases t) (simp add: git_works_def g_good_def)

lemma change_is_pushed_witness:
  "let d = \<lparr> rd_cache = NewHashCache, rd_queue = NewBatchWorker cfg0, rd_tmpl = defaultExportPathTemplate \<rparr>;
       d' = snd (handle x0 u0 d \<lparr> rq_namespace = ''argocd'', rq_name = ''web'' \<rparr> app0 ''Application'');
       s' = snd (flush g_good id [] (rd_queue d') gst0)
   in \<exists>msg tree. gs_log s' = [CloneCall (clone_options cfg0), CommitCall msg tree, PushCall None] \<and>
        tree [''inventory'', ''applications'', ''argocd'', ''web.yaml''] = Some (File yaml0)"
proof -
  let ?d = "\<lparr> rd_cache = NewHashCache, rd_queue = NewBatchWorker cfg0, rd_tmpl = defaultExportPathTemplate \<rparr>"
  have n: "argo_kind ''Application''" "proper_elem ''argocd''" "object_name ''web''" by code_simp+
  have d: "deps_ok ?d" "rd_tmpl ?d = defaultExportPathTemplate" "queue_inv (rd_queue ?d)"
    "Cache_Get (rd_cache ?d) k \<noteq> Some hash0" for k
    by (simp_all add: deps_ok_def)
  have c: "bw_cfg (rd_queue ?d) = cfg0" "auth cfg0 = None" "gs_log gst0 = []"
    by (simp_all add: NewBatchWorker_def auth_def cfg0_def gst0_def)
  have u: "trim_space (GitRepoURL (bw_cfg (rd_queue ?d))) \<noteq> ''''" unfolding c
    by (simp add: cfg0_def trim_visible visible_ascii_def)
  have r: "range_order (id :: batch \<Rightarrow> _)" by (simp add: range_order_def)
  from change_is_pushed[OF app0_hash app0_not_stamped d(4,1-3) n g_good_works r u, where s = gst0 and mid = "[]"]
  show ?thesis unfolding c by (auto simp: Let_def)
qed

text \<open>The whole cycle ends for one object. The file a reconciler exported for an object, delivered by a push and
  fetched in full, is applied as the object it names with the exporter's digest as its stamp; a
  reconciler that then sees the object with those annotations and the same material does nothing.\<close>

lemma export_comes_back_once:
  assumes "float_text_ok (x_float X)" "unstr_laws U"
    and "NormalizedYAMLAndMaterialHash X U ob = Inr (yb, h)" "normalizedMapFromRuntimeObject X U ob = Inr m"
    and "yaml_faithful X (json_marshal (map_json m)) yb"
    and "argo_kind kind" "proper_elem ns" "object_name n" "\<not> has_suffix n ''.yml''"
    and "RenderExportPath X defaultExportPathTemplate kind ns n = Inr p"
    and "FetchGitHubRawFile X C (wh_GitHubToken wh) fullName sha p w = (Inr yb, w1)"
    and "x_y2j X (firstYAMLDocument yb) = Some j" "u_unmarshal U j = Some manifest"
    and "u_apiversion U manifest = argoExpectedAPIVersion" "u_kind U manifest = kind"
    and "u_namespace U manifest = ns" "u_name U manifest = n"
    and "\<And>a s. fst (c_patch C a fieldOwner True s) = None"
  shows "\<exists>applied w2. serve_added X U C wh fullName sha p w = (result_of p ''applied'' NoDetail, w2) \<and>
    w_calls w2 = w_calls w1 @ [PatchCall applied fieldOwner True] \<and> stamped U applied h \<and>
    (\<forall>live d. u_annotations U live = u_annotations U applied \<longrightarrow> normalizedMapFromRuntimeObject X U live = Inr m \<longrightarrow>
       handle X U d \<lparr> rq_namespace = ns, rq_name = n \<rparr> live kind = (None, d))"
proof -
  let ?parsed = "\<lparr> pp_PluralKind = ArgoPluralKind X kind, pp_Namespace = ns, pp_Name = n \<rparr>"
  let ?applied = "u_set_annotations U (stamped_annotations U manifest h) manifest"
  have parsed: "ParseInventoryExportPath p = Some ?parsed"
    using parse_render[OF assms(6-9), of X] assms(10) by auto
  have hash: "MaterialHashFromNormalizedYAML X yb = Inr h" by (rule exported_yaml_hash[OF assms(1,3-5)])
  have "manifest_matches U ?parsed manifest"
    using assms(14-17) kind_of_plural[OF assms(6), of X] by (simp add: manifest_matches_def)
  from serve_added_applied[OF parsed assms(11) hash assms(12,13) this assms(18)]
  obtain w2 where a: "serve_added X U C wh fullName sha p w = (result_of p ''applied'' NoDetail, w2)"
    "w_calls w2 = w_calls w1 @ [PatchCall ?applied fieldOwner True]" by blast
  have st: "stamped U ?applied h" by (rule stamped_applied[OF assms(2)])
  have "handle X U d \<lparr> rq_namespace = ns, rq_name = n \<rparr> live kind = (None, d)"
    if l: "u_annotations U live = u_annotations U ?applied" "normalizedMapFromRuntimeObject X U live = Inr m" for live d
  proof -
    have "NormalizedYAMLAndMaterialHash X U live = Inr (yb, h)"
      using assms(3,4) l(2) unfolding normalized_yaml_hash by simp
    moreover have "stamped U live h" using st stamped_cong[OF l(1)] by simp
    ultimately show ?thesis by (rule handle_stamped)
  qed
  then show ?thesis using a st by blast
qed

lemma export_comes_back_once_witness:
  "\<exists>applied w2. serve_added x0 u0 c0 handler0 ''acme/inv'' ''c0ffee'' path0 world0 = (result_of path0 ''applied'' NoDetail, w2) \<and>
     stamped u0 applied hash0"
proof -
  have n: "argo_kind ''Application''" "proper_elem ''argocd''" "object_name ''web''" "\<not> has_suffix ''web'' ''.yml''"
    by code_simp+
  have r: "RenderExportPath x0 defaultExportPathTemplate ''Application'' ''argocd'' ''web'' = Inr path0"
    by (simp add: render_default path0_def)
  have short: "length yaml0 \<le> 300" unfolding yaml0_def app0_def by code_simp
  have f: "FetchGitHubRawFile x0 c0 (wh_GitHubToken handler0) ''acme/inv'' ''c0ffee'' path0 world0 =
      (Inr yaml0, snd (FetchGitHubRawFile x0 c0 (wh_GitHubToken handler0) ''acme/inv'' ''c0ffee'' path0 world0))"
    using short by (simp add: FetchGitHubRawFile_def do_http_def c0_def world0_def files0_def raw_request_def handler0_def
        mget_def read_limited_def maxRawFile_def Let_def)
  have i: "u_unmarshal u0 yaml0 = Some app0" by (simp add: u0_def yaml0_decodes)
  have m: "u_apiversion u0 app0 = argoExpectedAPIVersion" "u_kind u0 app0 = ''Application''"
    "u_namespace u0 app0 = ''argocd''" "u_name u0 app0 = ''web''"
    by code_simp+
  have j: "x_y2j x0 (firstYAMLDocument yaml0) = Some yaml0" by (simp add: app0_doc)
  have c: "fst (c_patch c0 a fieldOwner True s) = None" for a s by (simp add: c0_def)
  from export_comes_back_once[OF float_text_x0 unstr_laws_u0 app0_hash app0_marshal faithful0 n r f j i m c]
  show ?thesis by blast
qed


lemma portable0: "portable x0 u0 k0 (''Application'', ''argocd'', ''web'') app0 yaml0 hash0"
proof -
  let ?key = "(''Application'', ''argocd'', ''web'')"
  have "length yaml0 \<le> 300" unfolding yaml0_def app0_def by code_simp
  then have len: "length yaml0 \<le> maxRawFile" by (simp add: maxRawFile_def)
  have j: "x_y2j x0 (firstYAMLDocument yaml0) = Some yaml0" "u_unmarshal u0 yaml0 = Some app0"
    by (simp_all add: app0_doc) (simp add: u0_def yaml0_decodes)
  have m: "u_apiversion u0 app0 = argoExpectedAPIVersion" "ob_key u0 app0 = ?key" by code_simp+
  have merge: "cl_merge k0 a None = a" for a by (simp add: k0_def)
  show ?thesis
    unfolding portable_def Let_def merge
    by (intro conjI exI[of _ "Some app0"] exI[of _ yaml0] exI[of _ app0])
       (simp_all add: app0_hash len app0_marshal faithful0 app0_doc j m live0_normalized[unfolded live0_def])
qed


end
